(* ===== verification/PyPrelude.thy ===== *)
theory PyPrelude
  imports Complex_Main "HOL-Library.AList" "HOL-Library.Multiset"
begin

text \<open>
  The shared prelude of the development: the Python exceptions the modelled code can raise and the
  result type that carries them, Python's list indexing and slicing with negative indices, the
  dictionary as an insertion-ordered association list, and the order in which a dictionary is
  iterated, which Python 2 leaves open. The lemmas are declared to the simplifier or collected in
  \<open>py_simps\<close> so that the component proofs can use them by name.
\<close>

named_theorems py_simps "unfolding rules of the Python primitives"

section \<open>Results and exceptions\<close>

text \<open>
  A Python function that may raise returns \<open>Inl\<close> of the exception or \<open>Inr\<close> of its result;
  \<open>rbind\<close> runs the rest of the code only when nothing was raised.
\<close>

datatype py_exn =
    IndexError
  | KeyError
  | ValueError
  | TypeError
  | AttributeError
  | ZeroDivisionError
  | AssertionError
  | UnboundLocalError
  | IOError
  | OSError
  | SystemExit int
  | WafError
  | GenericException

type_synonym 'a res = "py_exn + 'a"

definition rbind :: "'e + 'a \<Rightarrow> ('a \<Rightarrow> 'e + 'b) \<Rightarrow> 'e + 'b" where
  "rbind m f = (case m of Inl e \<Rightarrow> Inl e | Inr x \<Rightarrow> f x)"

lemma rbind_simps [simp]:
  "rbind (Inl e) f = Inl e"
  "rbind (Inr x) f = f x"
  by (simp_all add: rbind_def)

lemma rbind_eq_Inr_iff: "rbind m f = Inr y \<longleftrightarrow> (\<exists>x. m = Inr x \<and> f x = Inr y)"
  by (cases m) auto

lemma rbind_eq_Inl_iff: "rbind m f = Inl e \<longleftrightarrow> m = Inl e \<or> (\<exists>x. m = Inr x \<and> f x = Inl e)"
  by (cases m) auto

lemma rbind_cong [fundef_cong]:
  "m = m' \<Longrightarrow> (\<And>x. m' = Inr x \<Longrightarrow> f x = f' x) \<Longrightarrow> rbind m f = rbind m' f'"
  by (cases m') auto

text \<open>Running a fallible step over a list, left to right, until the first exception.\<close>

primrec rfold :: "('a \<Rightarrow> 's \<Rightarrow> 'e + 's) \<Rightarrow> 'a list \<Rightarrow> 's \<Rightarrow> 'e + 's" where
  "rfold f [] s = Inr s"
| "rfold f (x # xs) s = rbind (f x s) (rfold f xs)"

lemma rfold_append: "rfold f (xs @ ys) s = rbind (rfold f xs s) (rfold f ys)"
proof (induction xs arbitrary: s)
  case (Cons x xs)
  then show ?case by (cases "f x s") auto
qed simp

lemma rfold_invariant:
  assumes "\<And>x s. x \<in> set xs \<Longrightarrow> I s \<Longrightarrow> \<exists>s'. f x s = Inr s' \<and> I s'"
    and "I s"
  shows "\<exists>s'. rfold f xs s = Inr s' \<and> I s'"
  using assms
proof (induction xs arbitrary: s)
  case (Cons x xs)
  then obtain s' where "f x s = Inr s'" "I s'" by (meson list.set_intros(1))
  with Cons show ?case by simp
qed simp

section \<open>Lists: negative indices and slices\<close>

definition py_nth :: "'a list \<Rightarrow> int \<Rightarrow> 'a res" where
  "py_nth l i =
     (if i < - int (length l) \<or> int (length l) \<le> i then Inl IndexError
      else Inr (l ! nat (if i < 0 then i + int (length l) else i)))"

definition slice_index :: "nat \<Rightarrow> int \<Rightarrow> nat" where
  "slice_index n i = (if i < 0 then nat (int n + i) else min n (nat i))"

definition py_slice_from :: "'a list \<Rightarrow> int \<Rightarrow> 'a list" where
  "py_slice_from xs i = drop (slice_index (length xs) i) xs"

definition py_slice_to :: "'a list \<Rightarrow> int \<Rightarrow> 'a list" where
  "py_slice_to xs j = take (slice_index (length xs) j) xs"

definition py_slice :: "'a list \<Rightarrow> int \<Rightarrow> int \<Rightarrow> 'a list" where
  "py_slice xs i j = drop (slice_index (length xs) i) (take (slice_index (length xs) j) xs)"

lemma slice_index_le [simp]: "slice_index n i \<le> n"
  by (auto simp: slice_index_def)

lemma slice_index_of_nat [simp]: "slice_index n (int k) = min n k"
  by (simp add: slice_index_def)

lemma py_nth_of_nat: "i < length xs \<Longrightarrow> py_nth xs (int i) = Inr (xs ! i)"
  by (simp add: py_nth_def)

lemma py_nth_0 [simp]: "py_nth (x # xs) 0 = Inr x" "py_nth [] i = Inl IndexError"
  by (auto simp: py_nth_def)

lemma py_nth_neg1: "xs \<noteq> [] \<Longrightarrow> py_nth xs (- 1) = Inr (last xs)"
  by (simp add: py_nth_def last_conv_nth nat_diff_distrib)
     (metis One_nat_def Suc_le_eq length_greater_0_conv nat_diff_distrib nat_int nat_one_as_int of_nat_1 of_nat_le_iff zero_le_one)

lemma py_slice_of_nat:
  "py_slice xs (int i) (int j) = drop i (take j xs)"
  by (cases "i \<le> length xs") (auto simp: py_slice_def min_def)

lemma set_py_slice: "set (py_slice xs i j) \<subseteq> set xs"
  by (auto simp: py_slice_def dest: in_set_dropD in_set_takeD)

lemma length_py_slice_from_neg:
  "0 < n \<Longrightarrow> length (py_slice_from xs (- int n)) = min n (length xs)"
  by (auto simp: py_slice_from_def slice_index_def nat_diff_distrib min_def)

lemmas [py_simps] = py_nth_def py_slice_def py_slice_from_def py_slice_to_def slice_index_def

section \<open>Dictionaries\<close>

text \<open>
  A dictionary is an association list whose keys are distinct: assignment replaces the value in
  place or adds the key at the end, \<^verbatim>\<open>del\<close> raises \<open>KeyError\<close> on a missing key.
\<close>

type_synonym ('k, 'v) dict = "('k \<times> 'v) list"

definition has_key :: "('k, 'v) dict \<Rightarrow> 'k \<Rightarrow> bool" where
  "has_key d k \<longleftrightarrow> map_of d k \<noteq> None"

definition dict_get :: "('k, 'v) dict \<Rightarrow> 'k \<Rightarrow> 'v res" where
  "dict_get d k = (case map_of d k of None \<Rightarrow> Inl KeyError | Some v \<Rightarrow> Inr v)"

definition dict_get_default :: "('k, 'v) dict \<Rightarrow> 'k \<Rightarrow> 'v \<Rightarrow> 'v" where
  "dict_get_default d k v = (case map_of d k of None \<Rightarrow> v | Some w \<Rightarrow> w)"

definition dict_set :: "'k \<Rightarrow> 'v \<Rightarrow> ('k, 'v) dict \<Rightarrow> ('k, 'v) dict" where
  "dict_set = AList.update"

definition dict_del :: "'k \<Rightarrow> ('k, 'v) dict \<Rightarrow> ('k, 'v) dict res" where
  "dict_del k d = (if has_key d k then Inr (AList.delete k d) else Inl KeyError)"

definition dict_keys :: "('k, 'v) dict \<Rightarrow> 'k list" where
  "dict_keys d = map fst d"

definition dict_ok :: "('k, 'v) dict \<Rightarrow> bool" where
  "dict_ok d \<longleftrightarrow> distinct (map fst d)"

lemma map_of_dict_set [simp]: "map_of (dict_set k v d) = (map_of d)(k \<mapsto> v)"
  by (simp add: dict_set_def update_conv')

lemma set_keys_dict_set [simp]: "fst ` set (dict_set k v d) = insert k (fst ` set d)"
  by (simp add: dict_set_def dom_update)

lemma dict_ok_Nil [simp]: "dict_ok []"
  by (simp add: dict_ok_def)

lemma dict_ok_set [simp]: "dict_ok d \<Longrightarrow> dict_ok (dict_set k v d)"
  by (simp add: dict_ok_def dict_set_def distinct_update)

lemma dict_ok_delete [simp]: "dict_ok d \<Longrightarrow> dict_ok (AList.delete k d)"
  by (simp add: dict_ok_def distinct_delete)

lemma has_key_iff: "has_key d k \<longleftrightarrow> k \<in> fst ` set d"
  by (simp add: has_key_def map_of_eq_None_iff)

lemma dict_keys_delete: "set (map fst (AList.delete k d)) = set (map fst d) - {k}"
  by (auto simp: delete_keys)

lemma length_delete_has_key: "has_key d k \<Longrightarrow> length (AList.delete k d) < length d"
proof (induction d)
  case (Cons x d)
  then show ?case
    using length_delete_le [of k d] by (cases x) (auto simp: has_key_iff)
qed (simp add: has_key_def)

section \<open>Iteration order\<close>

text \<open>
  Python 2 promises no order for \<^verbatim>\<open>dict.keys()\<close> and for iterating a dictionary or a set. A function
  that depends on it takes the order as an argument: a function from the keys, in insertion order,
  to the keys as the interpreter lists them. All that is known of it is that it lists every key
  once. \<open>id\<close> is the order of CPython 3.7 and later.
\<close>

definition iteration_order :: "('k list \<Rightarrow> 'k list) \<Rightarrow> bool" where
  "iteration_order ord \<longleftrightarrow> (\<forall>ks. mset (ord ks) = mset ks)"

locale dict_iteration =
  fixes ord :: "'k list \<Rightarrow> 'k list"
  assumes ord_mset: "mset (ord ks) = mset ks"
begin

lemma ord_set [simp]: "set (ord ks) = set ks"
  by (metis ord_mset set_mset_mset)

lemma ord_length [simp]: "length (ord ks) = length ks"
  by (metis ord_mset size_mset)

lemma ord_distinct [simp]: "distinct (ord ks) = distinct ks"
  by (metis ord_mset mset_eq_imp_distinct_iff)

lemma ord_Nil [simp]: "ord [] = []"
  using ord_length [of "[]"] by (simp del: ord_length)

lemma ord_filter_mset: "mset (filter P (ord ks)) = mset (filter P ks)"
  by (simp add: ord_mset)

end

lemma iteration_order_locale: "iteration_order ord \<longleftrightarrow> dict_iteration ord"
  by (simp add: iteration_order_def dict_iteration_def)

interpretation insertion_order: dict_iteration id
  by unfold_locales simp

interpretation sorted_order: dict_iteration sort
  by unfold_locales simp

lemma iteration_order_id [simp]: "iteration_order id"
  by (simp add: iteration_order_def)

lemma iteration_order_sort [simp]: "iteration_order sort"
  by (simp add: iteration_order_def)

end
