(* ===== verification/PyString.thy ===== *)
theory PyString
  imports PyPrelude
begin

text \<open>
  Python strings as lists of characters: the methods the modelled code calls (\<^verbatim>\<open>lower\<close>,
  \<^verbatim>\<open>startswith\<close>, \<^verbatim>\<open>split\<close>, \<^verbatim>\<open>join\<close>, \<^verbatim>\<open>strip\<close>), the printing of integers (\<^verbatim>\<open>'%d'\<close>, \<^verbatim>\<open>hex\<close>) and
  their parsing by \<^verbatim>\<open>int(s, base)\<close>, with the round trips between the two.
\<close>

section \<open>Characters\<close>

definition upper_alphabet :: string where
  "upper_alphabet = ''ABCDEFGHIJKLMNOPQRSTUVWXYZ''"

definition lower_alphabet :: string where
  "lower_alphabet = ''abcdefghijklmnopqrstuvwxyz''"

definition char_lower :: "char \<Rightarrow> char" where
  "char_lower c = (case map_of (zip upper_alphabet lower_alphabet) c of None \<Rightarrow> c | Some d \<Rightarrow> d)"

definition char_upper :: "char \<Rightarrow> char" where
  "char_upper c = (case map_of (zip lower_alphabet upper_alphabet) c of None \<Rightarrow> c | Some d \<Rightarrow> d)"

definition is_space :: "char \<Rightarrow> bool" where
  "is_space c \<longleftrightarrow> c \<in> {CHR '' '', CHR 0x09, CHR 0x0A, CHR 0x0B, CHR 0x0C, CHR 0x0D}"

definition is_digit :: "char \<Rightarrow> bool" where
  "is_digit c \<longleftrightarrow> c \<in> set ''0123456789''"

definition str_lower :: "string \<Rightarrow> string" where
  "str_lower = map char_lower"

definition str_upper :: "string \<Rightarrow> string" where
  "str_upper = map char_upper"

section \<open>Searching, stripping, splitting, joining\<close>

definition startswith :: "string \<Rightarrow> string \<Rightarrow> bool" where
  "startswith s p \<longleftrightarrow> take (length p) s = p"

definition lstrip :: "string \<Rightarrow> string" where
  "lstrip = dropWhile is_space"

definition rstrip :: "string \<Rightarrow> string" where
  "rstrip s = rev (dropWhile is_space (rev s))"

definition strip :: "string \<Rightarrow> string" where
  "strip s = rstrip (lstrip s)"

text \<open>\<^verbatim>\<open>s.split(c)\<close>: every field, the empty ones too.\<close>

fun split_on :: "char \<Rightarrow> string \<Rightarrow> string list" where
  "split_on c [] = [[]]"
| "split_on c (x # xs) =
     (if x = c then [] # split_on c xs
      else (case split_on c xs of [] \<Rightarrow> [[x]] | f # fs \<Rightarrow> (x # f) # fs))"

text \<open>\<^verbatim>\<open>s.split(c, 1)\<close>: at most one split, at the first separator.\<close>

definition split_once :: "char \<Rightarrow> string \<Rightarrow> string list" where
  "split_once c s =
     (let h = takeWhile (\<lambda>x. x \<noteq> c) s; t = dropWhile (\<lambda>x. x \<noteq> c) s
      in case t of [] \<Rightarrow> [h] | _ # rest \<Rightarrow> [h, rest])"

fun join :: "string \<Rightarrow> string list \<Rightarrow> string" where
  "join sep [] = []"
| "join sep [s] = s"
| "join sep (s # ss) = s @ sep @ join sep ss"

lemma startswith_append [simp]: "startswith (p @ s) p"
  by (simp add: startswith_def)

lemma startswith_iff: "startswith s p \<longleftrightarrow> (\<exists>t. s = p @ t)"
  by (auto simp: startswith_def) (metis append_take_drop_id)

lemma startswith_Cons [simp]: "startswith (c # s) (d # p) \<longleftrightarrow> c = d \<and> startswith s p"
  by (auto simp: startswith_def)

lemma startswith_Nil [simp]: "startswith s []" "startswith [] (d # p) \<longleftrightarrow> False"
  by (simp_all add: startswith_def)

lemma split_on_nonempty [simp]: "split_on c s \<noteq> []"
  by (induction s) (auto split: list.splits)

lemma split_on_no_sep: "c \<notin> set s \<Longrightarrow> split_on c s = [s]"
  by (induction s) auto

lemma split_on_append_sep: "c \<notin> set s \<Longrightarrow> split_on c (s @ c # t) = s # split_on c t"
  by (induction s) auto

lemma split_on_fields: "f \<in> set (split_on c s) \<Longrightarrow> c \<notin> set f"
  by (induction s arbitrary: f) (auto split: if_splits list.splits)

lemma join_split_on: "join [c] (split_on c s) = s"
proof (induction s)
  case (Cons x xs)
  obtain f fs where fs: "split_on c xs = f # fs"
    by (cases "split_on c xs") auto
  with Cons show ?case by (cases fs) auto
qed simp

lemma split_on_join:
  "ss \<noteq> [] \<Longrightarrow> \<forall>s \<in> set ss. c \<notin> set s \<Longrightarrow> split_on c (join [c] ss) = ss"
  by (induction "[c]" ss rule: join.induct) (auto simp: split_on_no_sep split_on_append_sep)

lemma takeWhile_until: "c \<notin> set h \<Longrightarrow> takeWhile (\<lambda>x. x \<noteq> c) (h @ c # t) = h"
  by (induction h) auto

lemma dropWhile_until: "c \<notin> set h \<Longrightarrow> dropWhile (\<lambda>x. x \<noteq> c) (h @ c # t) = c # t"
  by (induction h) auto

lemma dropWhile_absent: "c \<notin> set h \<Longrightarrow> dropWhile (\<lambda>x. x \<noteq> c) h = []"
  by (induction h) auto

lemma takeWhile_absent: "c \<notin> set h \<Longrightarrow> takeWhile (\<lambda>x. x \<noteq> c) h = h"
  by (induction h) auto

lemma split_once_hit: "c \<notin> set h \<Longrightarrow> split_once c (h @ c # t) = [h, t]"
  by (simp add: split_once_def takeWhile_until dropWhile_until)

lemma split_once_miss: "c \<notin> set h \<Longrightarrow> split_once c h = [h]"
  by (simp add: split_once_def takeWhile_absent dropWhile_absent)

lemma split_once_cases:
  obtains "c \<notin> set s" "split_once c s = [s]"
  | h t where "s = h @ c # t" "c \<notin> set h" "split_once c s = [h, t]"
  by (metis split_list_first split_once_hit split_once_miss)

lemma split_once_join: "join [c] (split_once c s) = s"
  by (rule split_once_cases [of c s]) auto

section \<open>Digits\<close>

definition hex_digits :: string where
  "hex_digits = ''0123456789abcdef''"

definition digit_char :: "nat \<Rightarrow> char" where
  "digit_char n = hex_digits ! n"

definition digit_val :: "char \<Rightarrow> nat option" where
  "digit_val c = map_of (zip hex_digits [0..<16]) (char_lower c)"

text \<open>The digits of a number in a base, most significant first; zero has one digit.\<close>

fun nat_digits :: "nat \<Rightarrow> nat \<Rightarrow> nat list" where
  "nat_digits b n = (if b \<le> 1 \<or> n < b then [n] else nat_digits b (n div b) @ [n mod b])"

declare nat_digits.simps [simp del]

definition digits_value :: "nat \<Rightarrow> nat list \<Rightarrow> nat" where
  "digits_value b ds = foldl (\<lambda>a d. a * b + d) 0 ds"

definition str_of_nat :: "nat \<Rightarrow> nat \<Rightarrow> string" where
  "str_of_nat b n = map digit_char (nat_digits b n)"

definition str_of_int :: "int \<Rightarrow> string" where
  "str_of_int i = (if i < 0 then ''-'' @ str_of_nat 10 (nat (- i)) else str_of_nat 10 (nat i))"

text \<open>
  \<^verbatim>\<open>int(s, base)\<close> for the bases the code uses: blanks around the number are ignored, a sign may
  come first, then for base 2 and 16 the prefix of the literal, then at least one digit.
\<close>

definition parse_digits :: "nat \<Rightarrow> string \<Rightarrow> nat option" where
  "parse_digits b s =
     (let ds = map digit_val s
      in if s \<noteq> [] \<and> list_all (\<lambda>d. case d of None \<Rightarrow> False | Some v \<Rightarrow> v < b) ds
         then Some (digits_value b (map the ds)) else None)"

definition drop_prefix :: "nat \<Rightarrow> string \<Rightarrow> string" where
  "drop_prefix b s =
     (if b = 2 \<and> (startswith s ''0b'' \<or> startswith s ''0B'') \<or>
         b = 16 \<and> (startswith s ''0x'' \<or> startswith s ''0X'') then drop 2 s else s)"

definition py_int :: "nat \<Rightarrow> string \<Rightarrow> int res" where
  "py_int b s =
     (let t = strip s;
          neg = startswith t ''-'';
          u = (if neg \<or> startswith t ''+'' then tl t else t)
      in case parse_digits b (drop_prefix b u) of
           None \<Rightarrow> Inl ValueError
         | Some n \<Rightarrow> Inr (if neg then - int n else int n))"

lemma length_hex_digits [simp]: "length hex_digits = 16"
  by (simp add: hex_digits_def)

lemma digit_val_table: "list_all (\<lambda>n. digit_val (digit_char n) = Some n) [0..<16]"
  by code_simp

lemma digit_val_digit_char: "n < 16 \<Longrightarrow> digit_val (digit_char n) = Some n"
  using digit_val_table by (simp add: list_all_iff)

lemma digits_value_snoc [simp]: "digits_value b (ds @ [d]) = digits_value b ds * b + d"
  by (simp add: digits_value_def)

lemma digits_value_Nil [simp]: "digits_value b [] = 0"
  by (simp add: digits_value_def)

lemma nat_digits_nonempty [simp]: "nat_digits b n \<noteq> []"
  by (subst nat_digits.simps) simp

lemma nat_digits_value: "1 < b \<Longrightarrow> digits_value b (nat_digits b n) = n"
proof (induction b n rule: nat_digits.induct)
  case (1 b n)
  then show ?case
    by (subst nat_digits.simps) (auto simp: digits_value_def)
qed

lemma nat_digits_bound: "1 < b \<Longrightarrow> d \<in> set (nat_digits b n) \<Longrightarrow> d < b"
proof (induction b n rule: nat_digits.induct)
  case (1 b n)
  then show ?case
    by (subst (asm) (2) nat_digits.simps) (auto split: if_splits)
qed

lemma parse_digits_str_of_nat:
  assumes "1 < b" "b \<le> 16"
  shows "parse_digits b (str_of_nat b n) = Some n"
proof -
  have val: "digit_val (digit_char d) = Some d" if "d \<in> set (nat_digits b n)" for d
    using nat_digits_bound [OF assms(1) that] assms(2) by (simp add: digit_val_digit_char)
  have "map (the \<circ> (digit_val \<circ> digit_char)) (nat_digits b n) = nat_digits b n"
    by (rule map_idI) (simp add: val)
  then show ?thesis
    using assms(1) nat_digits_bound [OF assms(1)]
    by (auto simp: parse_digits_def str_of_nat_def list_all_iff Let_def val nat_digits_value)
qed

lemma digit_char_table: "list_all (\<lambda>n. is_digit (digit_char n) \<and> \<not> is_space (digit_char n)) [0..<10]"
  by code_simp

lemma str_of_nat_digits: "c \<in> set (str_of_nat 10 n) \<Longrightarrow> is_digit c \<and> \<not> is_space c"
  using digit_char_table nat_digits_bound [of 10] by (auto simp: str_of_nat_def list_all_iff)

lemma str_of_nat_nonempty [simp]: "str_of_nat b n \<noteq> []"
  by (simp add: str_of_nat_def)

lemma strip_no_space:
  assumes "\<And>c. c \<in> set s \<Longrightarrow> \<not> is_space c"
  shows "strip s = s"
proof -
  have "dropWhile is_space t = t" if "set t \<subseteq> set s" for t
    using that assms by (cases t) auto
  from this [of s] this [of "rev s"] show ?thesis by (simp add: strip_def lstrip_def rstrip_def)
qed

lemma py_int_str_of_int: "py_int 10 (str_of_int i) = Inr i"
proof -
  have sp: "strip (str_of_int i) = str_of_int i"
    by (rule strip_no_space) (auto simp: str_of_int_def is_space_def dest: str_of_nat_digits split: if_splits)
  have st: "\<not> startswith (str_of_nat 10 n) ''-''" "\<not> startswith (str_of_nat 10 n) ''+''" for n
    using str_of_nat_digits [of _ n] by (cases "str_of_nat 10 n"; auto simp: is_digit_def)+
  show ?thesis
    unfolding py_int_def Let_def sp using parse_digits_str_of_nat [of 10] st
    by (auto simp: str_of_int_def drop_prefix_def)
qed

end
