(* ===== verification/RadBits.thy ===== *)
theory RadBits
  imports PyString "HOL-Library.Word"
begin

unbundle bit_operations_syntax

text \<open>
  The binary-number helpers of bindings/python/rad_util.py: \<^verbatim>\<open>int2bin\<close>, \<^verbatim>\<open>bin2int\<close>, \<^verbatim>\<open>reverse\<close>,
  \<^verbatim>\<open>lsb\<close>, \<^verbatim>\<open>gray_encode\<close>, \<^verbatim>\<open>random_vec\<close> and \<^verbatim>\<open>binary_range\<close>. Bit strings are strings of the
  characters 0 and 1, most significant bit first.
\<close>

section \<open>Definitions\<close>

definition py_hex :: "int \<Rightarrow> string" where
  "py_hex i =
     (if i < 0 then ''-0x'' @ str_of_nat 16 (nat (- i)) else ''0x'' @ str_of_nat 16 (nat i))"

definition hex2bin :: "(char, string) dict" where
  "hex2bin =
     [(CHR ''0'', ''0000''), (CHR ''1'', ''0001''), (CHR ''2'', ''0010''), (CHR ''3'', ''0011''),
      (CHR ''4'', ''0100''), (CHR ''5'', ''0101''), (CHR ''6'', ''0110''), (CHR ''7'', ''0111''),
      (CHR ''8'', ''1000''), (CHR ''9'', ''1001''), (CHR ''a'', ''1010''), (CHR ''b'', ''1011''),
      (CHR ''c'', ''1100''), (CHR ''d'', ''1101''), (CHR ''e'', ''1110''), (CHR ''f'', ''1111'')]"

primrec hex_to_bits :: "string \<Rightarrow> string res" where
  "hex_to_bits [] = Inr []"
| "hex_to_bits (x # xs) =
     rbind (dict_get hex2bin x) (\<lambda>b. rbind (hex_to_bits xs) (\<lambda>bs. Inr (b @ bs)))"

definition int2bin :: "int \<Rightarrow> int \<Rightarrow> string res" where
  "int2bin i n =
     rbind (hex_to_bits (py_slice_from (filter (\<lambda>c. c \<noteq> CHR ''l'') (str_lower (py_hex i))) 2))
       (\<lambda>result.
          if CHR ''1'' \<in> set (py_slice_to result (- n)) then Inl ValueError
          else
            (let result = py_slice_from result (- n)
             in Inr (replicate (nat (n - int (length result))) (CHR ''0'') @ result)))"

definition bin2int :: "string \<Rightarrow> int res" where
  "bin2int bin_string = py_int 2 bin_string"

definition reverse :: "string \<Rightarrow> string" where
  "reverse input_string = rev input_string"

definition lsb :: "int \<Rightarrow> int \<Rightarrow> int res" where
  "lsb x n = (if n < 0 then Inl TypeError else Inr (x AND (2 ^ nat n - 1)))"

definition gray_encode :: "int \<Rightarrow> int" where
  "gray_encode i = i XOR drop_bit 1 i"

text \<open>
  \<open>random k\<close> is the result of the k-th call of \<^verbatim>\<open>random.random()\<close>; the loop makes
  \<open>bits div 10 + 1\<close> of them, ten bits each.
\<close>

primrec random_vec_loop :: "(nat \<Rightarrow> rat) \<Rightarrow> nat \<Rightarrow> string res" where
  "random_vec_loop random 0 = Inr ''''"
| "random_vec_loop random (Suc k) =
     rbind (random_vec_loop random k)
       (\<lambda>vector. rbind (int2bin \<lfloor>2 ^ 10 * random k\<rfloor> 10) (\<lambda>b. Inr (vector @ b)))"

definition random_vec :: "(nat \<Rightarrow> rat) \<Rightarrow> nat \<Rightarrow> int option \<Rightarrow> string res" where
  "random_vec random bits max_value =
     rbind (random_vec_loop random (bits div 10 + 1))
       (\<lambda>vector.
          rbind
            (case max_value of
               None \<Rightarrow> Inr vector
             | Some m \<Rightarrow>
                 if m \<noteq> 0 \<and> m < 2 ^ bits - 1
                 then rbind (bin2int vector)
                        (\<lambda>v. if (2::int) ^ bits - 1 = 0 then Inl ZeroDivisionError
                             else int2bin (v div (2 ^ bits - 1) * m) (int bits))
                 else Inr vector)
            (\<lambda>vector. Inr (py_slice vector 0 (int bits))))"

text \<open>
  The counter of \<^verbatim>\<open>binary_range\<close>: \<open>v\<close> holds the bits, least significant first, \<open>toggle\<close> the
  carries. The inner loop adds one; the carry out of the last bit ends the outer loop, which has no
  other bound, so it is a partial function whose result is proved to exist.
\<close>

function binary_range_carry :: "nat \<Rightarrow> nat \<Rightarrow> string \<Rightarrow> nat list \<Rightarrow> string \<times> nat list" where
  "binary_range_carry bits i v toggle =
     (if i < bits \<and> toggle ! i = 1 then
        (if toggle ! i \<noteq> 0 then
           (if v ! i = CHR ''0''
            then binary_range_carry bits (i + 1) (v[i := CHR ''1'']) (toggle[i + 1 := 0])
            else binary_range_carry bits (i + 1) (v[i := CHR ''0'']) (toggle[i + 1 := 1]))
         else binary_range_carry bits (i + 1) v toggle)
      else (v, toggle))"
  by pat_completeness auto
termination
  by (relation "measure (\<lambda>(bits, i, v, toggle). bits - i)") auto

declare binary_range_carry.simps [simp del]

partial_function (option) binary_range_loop ::
    "nat \<Rightarrow> string \<Rightarrow> nat list \<Rightarrow> string list \<Rightarrow> string list option" where
  "binary_range_loop bits v toggle l =
     (if toggle ! bits \<noteq> 1 then
        (case binary_range_carry bits 0 v (1 # replicate bits 0) of
           (v', toggle') \<Rightarrow> binary_range_loop bits v' toggle' (l @ [rev v]))
      else Some l)"

definition binary_range :: "nat \<Rightarrow> string list option" where
  "binary_range bits = binary_range_loop bits (replicate bits (CHR ''0'')) (1 # replicate bits 0) []"

section \<open>Bit strings and their values\<close>

definition bit_of :: "char \<Rightarrow> nat" where
  "bit_of c = (if c = CHR ''1'' then 1 else 0)"

definition is_bits :: "string \<Rightarrow> bool" where
  "is_bits s \<longleftrightarrow> set s \<subseteq> {CHR ''0'', CHR ''1''}"

definition bits_value :: "string \<Rightarrow> nat" where
  "bits_value s = digits_value 2 (map bit_of s)"

lemma digits_value_append:
  "digits_value b (xs @ ys) = digits_value b xs * b ^ length ys + digits_value b ys"
  by (induction ys rule: rev_induct) (simp_all flip: append_assoc add: algebra_simps)

lemma bits_value_append: "bits_value (s @ t) = bits_value s * 2 ^ length t + bits_value t"
  by (simp add: bits_value_def digits_value_append)

lemma bits_value_Nil [simp]: "bits_value [] = 0"
  by (simp add: bits_value_def)

lemma bits_value_Cons: "bits_value (c # s) = bit_of c * 2 ^ length s + bits_value s"
  using bits_value_append [of "[c]" s] by (simp add: bits_value_def digits_value_def)

lemma is_bits_simps [simp]:
  "is_bits []" "is_bits (c # s) \<longleftrightarrow> c \<in> {CHR ''0'', CHR ''1''} \<and> is_bits s"
  "is_bits (s @ t) \<longleftrightarrow> is_bits s \<and> is_bits t"
  by (auto simp: is_bits_def)

lemma is_bits_replicate [simp]: "is_bits (replicate k (CHR ''0''))"
  by (auto simp: is_bits_def)

lemma bits_value_lt: "bits_value s < 2 ^ length s"
  by (induction s) (auto simp: bits_value_Cons bit_of_def)

lemma bits_value_replicate [simp]: "bits_value (replicate k (CHR ''0'')) = 0"
  by (induction k) (auto simp: bits_value_Cons bit_of_def)

lemma bits_value_zero: "is_bits s \<Longrightarrow> bits_value s = 0 \<longleftrightarrow> CHR ''1'' \<notin> set s"
  by (induction s) (auto simp: bits_value_Cons bit_of_def)

lemma bits_value_inject:
  assumes "is_bits s" "is_bits t" "length s = length t" "bits_value s = bits_value t"
  shows "s = t"
  using assms(3,1,2,4)
proof (induction s t rule: list_induct2)
  case (Cons x xs y ys)
  have "bit_of x = bit_of y \<and> bits_value xs = bits_value ys"
    using Cons.prems(3) bits_value_lt [of xs] bits_value_lt [of ys] Cons.hyps
    by (auto simp: bits_value_Cons bit_of_def split: if_splits)
  with Cons show ?case by (auto simp: bit_of_def split: if_splits)
qed simp

text \<open>Splitting off the low bits: what \<open>result[:-n]\<close> and \<open>result[-n:]\<close> do.\<close>

lemma py_slice_neg_append:
  "0 < n \<Longrightarrow> py_slice_to s (- int n) @ py_slice_from s (- int n) = s"
  by (simp add: py_slice_to_def py_slice_from_def)

section \<open>int2bin and bin2int\<close>

lemma digit_char_bits:
  "list_all (\<lambda>d. case dict_get hex2bin (digit_char d) of Inl e \<Rightarrow> False
      | Inr b \<Rightarrow> length b = 4 \<and> bits_value b = d \<and> list_all (\<lambda>c. c = CHR ''0'' \<or> c = CHR ''1'') b)
     [0..<16]"
  by code_simp

lemma hex2bin_digit:
  assumes "d < 16"
  obtains b where "dict_get hex2bin (digit_char d) = Inr b" "length b = 4" "bits_value b = d" "is_bits b"
proof -
  have d: "case dict_get hex2bin (digit_char d) of Inl e \<Rightarrow> False
      | Inr b \<Rightarrow> length b = 4 \<and> bits_value b = d \<and> list_all (\<lambda>c. c = CHR ''0'' \<or> c = CHR ''1'') b"
    using digit_char_bits assms by (simp add: list_all_iff)
  then obtain b where "dict_get hex2bin (digit_char d) = Inr b"
    by (cases "dict_get hex2bin (digit_char d)") auto
  with d that show ?thesis by (auto simp: list_all_iff is_bits_def)
qed

lemma hex_to_bits_digits:
  "\<forall>d \<in> set ds. d < 16 \<Longrightarrow>
   \<exists>bs. hex_to_bits (map digit_char ds) = Inr bs \<and> is_bits bs \<and> length bs = 4 * length ds \<and>
        bits_value bs = digits_value 16 ds"
proof (induction ds)
  case (Cons d ds)
  then obtain bs where "hex_to_bits (map digit_char ds) = Inr bs" "is_bits bs"
    "length bs = 4 * length ds" "bits_value bs = digits_value 16 ds"
    by auto
  moreover obtain b where "dict_get hex2bin (digit_char d) = Inr b" "length b = 4"
    "bits_value b = d" "is_bits b"
    using Cons.prems hex2bin_digit [of d] by auto
  moreover have "digits_value 16 (d # ds) = d * 16 ^ length ds + digits_value 16 ds"
    using digits_value_append [of 16 "[d]" ds] by (simp add: digits_value_def)
  ultimately show ?case
    by (simp add: bits_value_append power_mult)
qed simp

lemma hex_digit_chars:
  "list_all (\<lambda>d. char_lower (digit_char d) = digit_char d \<and> digit_char d \<noteq> CHR ''l'') [0..<16]"
  by code_simp

lemma py_hex_clean:
  assumes "0 \<le> i"
  shows "py_slice_from (filter (\<lambda>c. c \<noteq> CHR ''l'') (str_lower (py_hex i))) 2 = str_of_nat 16 (nat i)"
proof -
  have "char_lower (digit_char d) = digit_char d \<and> digit_char d \<noteq> CHR ''l''"
    if "d \<in> set (nat_digits 16 (nat i))" for d
    using nat_digits_bound [OF _ that] hex_digit_chars by (simp add: list_all_iff)
  then have clean: "str_lower (str_of_nat 16 (nat i)) = str_of_nat 16 (nat i)"
      "filter (\<lambda>c. c \<noteq> CHR ''l'') (str_of_nat 16 (nat i)) = str_of_nat 16 (nat i)"
    by (simp_all add: str_lower_def str_of_nat_def filter_id_conv)
  have "str_lower ''0x'' = ''0x''" by code_simp
  then have "str_lower (py_hex i) = ''0x'' @ str_of_nat 16 (nat i)"
    using assms clean(1) by (simp add: py_hex_def str_lower_def)
  then show ?thesis
    using clean(2) by (simp add: py_slice_from_def slice_index_def)
qed

lemma hex_of_nonneg:
  assumes "0 \<le> i"
  obtains bs where
    "hex_to_bits (py_slice_from (filter (\<lambda>c. c \<noteq> CHR ''l'') (str_lower (py_hex i))) 2) = Inr bs"
    "is_bits bs" "bits_value bs = nat i"
proof -
  have "\<forall>d \<in> set (nat_digits 16 (nat i)). d < 16"
    by (auto dest: nat_digits_bound [rotated])
  from hex_to_bits_digits [OF this] show ?thesis
    using that assms by (auto simp: py_hex_clean str_of_nat_def nat_digits_value)
qed

lemma int2bin_cases:
  assumes "0 \<le> i" "0 < n"
  shows "(i < 2 ^ n \<longrightarrow> (\<exists>s. int2bin i (int n) = Inr s \<and> is_bits s \<and> length s = n \<and>
            bits_value s = nat i)) \<and>
         (2 ^ n \<le> i \<longrightarrow> int2bin i (int n) = Inl ValueError)"
proof -
  obtain bs where bs: "hex_to_bits (py_slice_from (filter (\<lambda>c. c \<noteq> CHR ''l'') (str_lower (py_hex i))) 2)
      = Inr bs" "is_bits bs" "bits_value bs = nat i"
    using hex_of_nonneg [OF assms(1)] .
  define hi lo where "hi = py_slice_to bs (- int n)" and "lo = py_slice_from bs (- int n)"
  have split: "bs = hi @ lo"
    using py_slice_neg_append [OF assms(2), of bs] by (simp add: hi_def lo_def)
  have len: "length lo = min n (length bs)"
    unfolding lo_def using assms(2) by (rule length_py_slice_from_neg)
  have bits: "is_bits hi" "is_bits lo" using bs(2) split by simp_all
  have val: "bits_value hi * 2 ^ length lo + bits_value lo = nat i"
    using bs(3) split by (simp add: bits_value_append)
  have def: "int2bin i (int n) = (if CHR ''1'' \<in> set hi then Inl ValueError
      else Inr (replicate (nat (int n - int (length lo))) (CHR ''0'') @ lo))"
    by (simp add: int2bin_def bs(1) Let_def hi_def lo_def)
  show ?thesis
  proof (cases "CHR ''1'' \<in> set hi")
    case True
    then have "hi \<noteq> []" "1 \<le> bits_value hi"
      using bits_value_zero [OF bits(1)] by auto
    with split len have "length lo = n" by (auto simp: min_def split: if_splits)
    with val \<open>1 \<le> bits_value hi\<close> have "2 ^ n \<le> nat i"
      by (metis le_add1 mult_le_mono1 nat_mult_1 order_trans)
    then have "2 ^ n \<le> i" using assms(1) by (metis le_nat_iff of_nat_numeral of_nat_power)
    with True def show ?thesis by simp
  next
    case False
    then have "bits_value hi = 0" using bits_value_zero [OF bits(1)] by simp
    with val have lo: "bits_value lo = nat i" by simp
    then have "nat i < 2 ^ n"
      using bits_value_lt [of lo] len by (metis min.cobounded1 order_less_le_trans power_increasing one_le_numeral)
    then have "i < 2 ^ n" by (metis nat_less_numeral_power_cancel_iff)
    with False def lo len bits show ?thesis
      by (simp add: bits_value_append)
  qed
qed

lemma bits_no_space: "is_bits s \<Longrightarrow> c \<in> set s \<Longrightarrow> \<not> is_space c"
  by (auto simp: is_bits_def is_space_def)

lemma strip_bits [simp]: "is_bits s \<Longrightarrow> strip s = s"
proof -
  assume s: "is_bits s"
  have id: "dropWhile is_space t = t" if "set t \<subseteq> set s" for t
  proof (cases t)
    case (Cons c u)
    with that have "c \<in> set s" by simp
    with Cons show ?thesis using bits_no_space [OF s] by simp
  qed simp
  show ?thesis by (simp add: strip_def lstrip_def rstrip_def id)
qed

lemma bits_no_prefix:
  assumes "is_bits s"
  shows "\<not> startswith s ''-''" "\<not> startswith s ''+''" "drop_prefix 2 s = s"
proof -
  have "c \<in> set s \<Longrightarrow> c \<noteq> CHR ''-'' \<and> c \<noteq> CHR ''+'' \<and> c \<noteq> CHR ''b'' \<and> c \<noteq> CHR ''B''" for c
    using assms by (auto simp: is_bits_def)
  then show "\<not> startswith s ''-''" "\<not> startswith s ''+''" "drop_prefix 2 s = s"
    by (fastforce simp: startswith_iff drop_prefix_def)+
qed

lemma digit_val_bit: "c \<in> {CHR ''0'', CHR ''1''} \<Longrightarrow> digit_val c = Some (bit_of c)"
proof -
  have "digit_val (CHR ''0'') = Some 0" "digit_val (CHR ''1'') = Some 1" by code_simp+
  then show "c \<in> {CHR ''0'', CHR ''1''} \<Longrightarrow> digit_val c = Some (bit_of c)"
    by (auto simp: bit_of_def)
qed

lemma bin2int_bits: "is_bits s \<Longrightarrow> s \<noteq> [] \<Longrightarrow> bin2int s = Inr (int (bits_value s))"
proof -
  assume s: "is_bits s" "s \<noteq> []"
  then have dv: "digit_val c = Some (bit_of c)" if "c \<in> set s" for c
    using that by (auto simp: is_bits_def intro!: digit_val_bit)
  then have "map (the \<circ> digit_val) s = map bit_of s" by simp
  then have "digits_value 2 (map (the \<circ> digit_val) s) = digits_value 2 (map bit_of s)"
    by (rule arg_cong)
  moreover have "bit_of c < 2" for c by (simp add: bit_of_def)
  ultimately have "parse_digits 2 s = Some (bits_value s)"
    using s by (simp add: parse_digits_def list_all_iff Let_def bits_value_def dv)
  then show ?thesis
    using s by (simp add: bin2int_def py_int_def Let_def bits_no_prefix)
qed

lemma int2bin_cong_value:
  assumes "is_bits s" "s \<noteq> []"
  shows "int2bin (int (bits_value s)) (int (length s)) = Inr s"
proof -
  have "int (bits_value s) < 2 ^ length s"
    using bits_value_lt [of s] by (metis of_nat_less_iff of_nat_numeral of_nat_power)
  then obtain t where "int2bin (int (bits_value s)) (int (length s)) = Inr t" "is_bits t"
    "length t = length s" "bits_value t = bits_value s"
    using int2bin_cases [of "int (bits_value s)" "length s"] assms(2) by auto
  with bits_value_inject [of t s] assms(1) show ?thesis by simp
qed

section \<open>binary\_range\<close>

text \<open>One pass of the carry loop adds one to the number whose bits, lowest first, are \<open>v\<close>.\<close>

fun increment :: "string \<Rightarrow> string \<times> bool" where
  "increment [] = ([], True)"
| "increment (c # w) =
     (if c = CHR ''0'' then (CHR ''1'' # w, False)
      else (CHR ''0'' # fst (increment w), snd (increment w)))"

lemma length_increment [simp]: "length (fst (increment w)) = length w"
  by (induction w) auto

lemma is_bits_increment: "is_bits w \<Longrightarrow> is_bits (fst (increment w))"
  by (induction w) auto

lemma increment_value:
  "is_bits w \<Longrightarrow>
   bits_value (rev (fst (increment w))) + (if snd (increment w) then 2 ^ length w else 0) =
     bits_value (rev w) + 1"
  by (induction w) (auto simp: bits_value_append bits_value_Cons bit_of_def)

lemma carry_stop:
  "\<not> (i < bits \<and> toggle ! i = 1) \<Longrightarrow> binary_range_carry bits i v toggle = (v, toggle)"
  by (subst binary_range_carry.simps) auto

lemma carry_zero:
  "i < bits \<Longrightarrow> toggle ! i = 1 \<Longrightarrow> v ! i = CHR ''0'' \<Longrightarrow>
   binary_range_carry bits i v toggle =
     binary_range_carry bits (i + 1) (v[i := CHR ''1'']) (toggle[i + 1 := 0])"
  by (subst binary_range_carry.simps) simp

lemma carry_one:
  "i < bits \<Longrightarrow> toggle ! i = 1 \<Longrightarrow> v ! i \<noteq> CHR ''0'' \<Longrightarrow>
   binary_range_carry bits i v toggle =
     binary_range_carry bits (i + 1) (v[i := CHR ''0'']) (toggle[i + 1 := 1])"
  by (subst binary_range_carry.simps) simp

lemma carry_increment:
  assumes "length v = bits" "length toggle = bits + 1" "i \<le> bits" "toggle ! i = 1"
    and "\<And>j. i < j \<Longrightarrow> j \<le> bits \<Longrightarrow> toggle ! j = 0"
  shows "\<exists>t. binary_range_carry bits i v toggle = (take i v @ fst (increment (drop i v)), t) \<and>
             (t ! bits = 1 \<longleftrightarrow> snd (increment (drop i v)))"
  using assms
proof (induction "bits - i" arbitrary: i v toggle)
  case 0
  then show ?case by (simp add: carry_stop)
next
  case (Suc k)
  then have i: "i < bits" by simp
  with Suc.prems have d: "drop i v = v ! i # drop (i + 1) v"
    by (simp add: Cons_nth_drop_Suc)
  show ?case
  proof (cases "v ! i = CHR ''0''")
    case True
    have "(toggle[i + 1 := 0]) ! (i + 1) \<noteq> 1"
      using i Suc.prems(2) by (simp add: nth_list_update)
    moreover have "(toggle[i + 1 := 0]) ! bits \<noteq> 1"
      using i Suc.prems(2,5) by (cases "i + 1 = bits") (auto simp: nth_list_update)
    moreover have "v[i := CHR ''1''] = take i v @ CHR ''1'' # drop (i + 1) v"
      using i Suc.prems(1) by (simp add: upd_conv_take_nth_drop)
    ultimately show ?thesis
      using True i Suc.prems d by (simp add: carry_zero carry_stop)
  next
    case False
    let ?v = "v[i := CHR ''0'']" and ?t = "toggle[i + 1 := 1]"
    have "\<exists>t. binary_range_carry bits (i + 1) ?v ?t =
             (take (i + 1) ?v @ fst (increment (drop (i + 1) ?v)), t) \<and>
             (t ! bits = 1 \<longleftrightarrow> snd (increment (drop (i + 1) ?v)))"
      using Suc i by (intro Suc.hyps(1)) (auto simp: nth_list_update)
    moreover have "take (i + 1) ?v = take i v @ [CHR ''0'']" "drop (i + 1) ?v = drop (i + 1) v"
      using i Suc.prems(1) by (simp_all add: take_Suc_conv_app_nth)
    ultimately show ?thesis
      using False i Suc.prems(4) d by (simp add: carry_one)
  qed
qed

lemma binary_range_loop_done:
  "toggle ! bits = 1 \<Longrightarrow> binary_range_loop bits v toggle l = Some l"
  by (subst binary_range_loop.simps) simp

lemma binary_range_loop_step:
  assumes "is_bits v" "length v = bits" "toggle ! bits \<noteq> 1"
  obtains t where
    "binary_range_loop bits v toggle l = binary_range_loop bits (fst (increment v)) t (l @ [rev v])"
    "t ! bits = 1 \<longleftrightarrow> snd (increment v)"
proof -
  obtain t where "binary_range_carry bits 0 v (1 # replicate bits 0) = (fst (increment v), t)"
    "t ! bits = 1 \<longleftrightarrow> snd (increment v)"
    using carry_increment [of v bits "1 # replicate bits 0" 0] assms(2)
    by (auto simp: nth_Cons')
  moreover from this(1) assms(3) have "binary_range_loop bits v toggle l =
      binary_range_loop bits (fst (increment v)) t (l @ [rev v])"
    by (subst binary_range_loop.simps) simp
  ultimately show ?thesis using that by blast
qed

lemma binary_range_loop_result:
  assumes "is_bits v" "length v = bits" "0 < bits" "toggle ! bits \<noteq> 1"
  shows "\<exists>ls. binary_range_loop bits v toggle l = Some (l @ ls) \<and>
              map Inr ls = map (\<lambda>k. int2bin (int k) (int bits)) [bits_value (rev v)..<2 ^ bits]"
  using assms
proof (induction "2 ^ bits - bits_value (rev v)" arbitrary: v toggle l rule: less_induct)
  case less
  have lt: "bits_value (rev v) < 2 ^ bits"
    using bits_value_lt [of "rev v"] less.prems(2) by simp
  have bits: "is_bits (rev v)" using less.prems(1) by (simp add: is_bits_def)
  have head: "int2bin (int (bits_value (rev v))) (int bits) = Inr (rev v)"
    using int2bin_cong_value [OF bits] less.prems(2,3) by auto
  obtain t where step: "binary_range_loop bits v toggle l =
      binary_range_loop bits (fst (increment v)) t (l @ [rev v])"
    and t: "t ! bits = 1 \<longleftrightarrow> snd (increment v)"
    using binary_range_loop_step [OF less.prems(1,2,4)] .
  note val = increment_value [OF less.prems(1)]
  show ?case
  proof (cases "snd (increment v)")
    case True
    with val less.prems(2) lt have "bits_value (rev v) = 2 ^ bits - 1" by simp
    then have "[bits_value (rev v)..<2 ^ bits] = [bits_value (rev v)]"
      using lt by (simp add: upt_rec)
    with True step t head show ?thesis by (auto simp: binary_range_loop_done)
  next
    case False
    with val have nxt: "bits_value (rev (fst (increment v))) = bits_value (rev v) + 1" by simp
    then have smaller: "2 ^ bits - bits_value (rev (fst (increment v))) < 2 ^ bits - bits_value (rev v)"
      using lt by (simp add: diff_less_mono2)
    obtain ls where "binary_range_loop bits (fst (increment v)) t (l @ [rev v]) =
          Some ((l @ [rev v]) @ ls)"
        "map Inr ls = map (\<lambda>k. int2bin (int k) (int bits)) [bits_value (rev v) + 1..<2 ^ bits]"
      using less.hyps [OF smaller, of t "l @ [rev v]"] less.prems False t nxt
      by (auto simp: is_bits_increment)
    with step head lt show ?thesis
      by (intro exI [of _ "rev v # ls"]) (simp add: upt_conv_Cons)
  qed
qed

section \<open>Properties\<close>

text \<open>C40. For a non-negative integer that fits in \<^verbatim>\<open>n\<close> bits, \<^verbatim>\<open>int2bin\<close> yields exactly \<^verbatim>\<open>n\<close>
  characters and \<^verbatim>\<open>bin2int\<close> reads the integer back.\<close>

theorem int2bin_roundtrip:
  assumes "0 \<le> i" "i < 2 ^ n" "0 < n"
  shows "\<exists>s. int2bin i (int n) = Inr s \<and> length s = n \<and> bin2int s = Inr i"
proof -
  obtain s where "int2bin i (int n) = Inr s" "is_bits s" "length s = n" "bits_value s = nat i"
    using int2bin_cases [OF assms(1,3)] assms(2) by auto
  moreover from this assms(1,3) have "bin2int s = Inr i"
    using bin2int_bits [of s] by auto
  ultimately show ?thesis by blast
qed

theorem int2bin_overflow:
  assumes "0 < n" "2 ^ n \<le> i"
  shows "int2bin i (int n) = Inl ValueError"
proof -
  have "0 \<le> i" using assms(2) by (meson order_trans zero_le_numeral zero_le_power)
  then show ?thesis using int2bin_cases [of i n] assms by simp
qed

text \<open>\<^verbatim>\<open>binary_range(bits)\<close> terminates and returns, in increasing order, exactly the strings that
  \<^verbatim>\<open>int2bin\<close> gives for 0, ..., 2^bits - 1.\<close>

theorem binary_range_enumerates:
  assumes "0 < bits"
  shows "\<exists>l. binary_range bits = Some l \<and>
             map Inr l = map (\<lambda>k. int2bin (int k) (int bits)) [0..<2 ^ bits]"
  using binary_range_loop_result [of "replicate bits (CHR ''0'')" bits "1 # replicate bits 0" "[]"] assms
  by (auto simp: binary_range_def nth_Cons')

theorem binary_range_zero: "binary_range 0 = Some []"
  by (simp add: binary_range_def binary_range_loop_done)

lemma xor_zero_iff: "(a :: int) XOR b = 0 \<longleftrightarrow> a = b"
  by (metis xor.assoc xor.left_neutral xor.right_neutral xor_self_eq)

lemma xor_succ_mask:
  fixes j :: nat
  shows "\<exists>k. int j XOR (int j + 1) = mask (Suc k)"
proof (induction j rule: less_induct)
  case (less j)
  show ?case
  proof (cases "even j")
    case True
    then have "int j XOR (int j + 1) = 1"
      by (simp add: xor_int_rec [of "int j"])
    then have "int j XOR (int j + 1) = mask (Suc 0)" by (simp add: mask_Suc_exp)
    then show ?thesis by blast
  next
    case False
    then obtain h where h: "j = 2 * h + 1" by (blast elim: oddE)
    then obtain k where k: "int h XOR (int h + 1) = mask (Suc k)"
      using less.IH [of h] by auto
    have "int j XOR (int j + 1) = 1 + 2 * (int h XOR (int h + 1))"
      by (subst xor_int_rec) (simp add: h add.commute)
    also have "\<dots> = mask (Suc (Suc k))"
      by (simp add: k mask_eq_exp_minus_1)
    finally show ?thesis by blast
  qed
qed

text \<open>The codes that \<^verbatim>\<open>gray_encode\<close> gives to two consecutive non-negative integers differ in
  exactly one bit.\<close>

theorem gray_encode_adjacent:
  assumes "0 \<le> i"
  shows "\<exists>k. gray_encode i XOR gray_encode (i + 1) = 2 ^ k"
proof -
  obtain k where k: "i XOR (i + 1) = mask (Suc k)"
    using xor_succ_mask [of "nat i"] assms by auto
  have "gray_encode i XOR gray_encode (i + 1) = (i XOR (i + 1)) XOR drop_bit 1 (i XOR (i + 1))"
    by (simp add: gray_encode_def xor.assoc xor.left_commute)
  also have "\<dots> = mask (Suc k) XOR (mask k :: int)"
    by (simp add: k drop_bit_mask_eq)
  also have "\<dots> = 2 ^ k"
    by (rule bit_eqI) (auto simp: bit_xor_iff bit_mask_iff bit_exp_iff)
  finally show ?thesis by blast
qed

theorem gray_encode_injective:
  assumes "0 \<le> i" "0 \<le> j" "gray_encode i = gray_encode j"
  shows "i = j"
proof -
  define d where "d = i XOR j"
  have "d XOR drop_bit 1 d = gray_encode i XOR gray_encode j"
    by (simp add: d_def gray_encode_def xor.assoc xor.left_commute)
  then have "d XOR drop_bit 1 d = 0" using assms(3) by simp
  then have "d = drop_bit 1 d" by (simp add: xor_zero_iff)
  then have "d = d div 2" by (simp add: drop_bit_eq_div)
  moreover have "0 \<le> d" using assms(1,2) by (simp add: d_def)
  ultimately have "d = 0" by simp
  then show ?thesis by (simp add: d_def xor_zero_iff)
qed

theorem lsb_mod: "lsb x (int n) = Inr (x mod 2 ^ n)"
  by (simp add: lsb_def take_bit_eq_mask [symmetric] mask_eq_exp_minus_1 [symmetric]
      take_bit_eq_mod)

lemma random_vec_loop_bits:
  assumes "\<And>k. 0 \<le> random k \<and> random k < 1"
  shows "\<exists>s. random_vec_loop random k = Inr s \<and> is_bits s \<and> length s = 10 * k"
proof (induction k)
  case (Suc k)
  have "0 \<le> \<lfloor>2 ^ 10 * random k\<rfloor>" "\<lfloor>2 ^ 10 * random k\<rfloor> < 2 ^ 10"
    using assms [of k] by (simp_all add: floor_less_iff)
  then obtain b where "int2bin \<lfloor>2 ^ 10 * random k\<rfloor> 10 = Inr b" "is_bits b" "length b = 10"
    using int2bin_cases [of "\<lfloor>2 ^ 10 * random k\<rfloor>" 10] by auto
  with Suc show ?case by auto
qed simp

theorem random_vec_length:
  assumes "\<And>k. 0 \<le> random k \<and> random k < 1"
  shows "\<exists>s. random_vec random bits None = Inr s \<and> is_bits s \<and> length s = bits"
proof -
  obtain s where "random_vec_loop random (bits div 10 + 1) = Inr s" "is_bits s"
      "length s = 10 * (bits div 10 + 1)"
    using random_vec_loop_bits [of random "bits div 10 + 1"] assms by auto
  moreover have "bits \<le> 10 * (bits div 10 + 1)" by presburger
  ultimately show ?thesis
    by (auto simp: random_vec_def py_slice_of_nat [of _ 0, simplified] is_bits_def dest: in_set_takeD)
qed

theorem random_vec_max_value_raises: "random_vec (\<lambda>_. 1 / 2) 2 (Some 1) = Inl ValueError"
  by code_simp

section \<open>Concrete instances\<close>

theorem int2bin_roundtrip_witness:
  "(0::int) \<le> 11 \<and> (11::int) < 2 ^ 6 \<and> (0::nat) < 6 \<and>
   (\<exists>s. int2bin 11 6 = Inr s \<and> length s = 6 \<and> bin2int s = Inr 11)"
  using int2bin_roundtrip [of 11 6] by simp

theorem binary_range_enumerates_witness:
  "\<exists>l. binary_range 3 = Some l \<and> map Inr l = map (\<lambda>k. int2bin (int k) 3) [0..<8]"
  using binary_range_enumerates [of 3] by simp

theorem gray_encode_adjacent_witness:
  "\<exists>k. gray_encode 7 XOR gray_encode 8 = 2 ^ k"
  using gray_encode_adjacent [of 7] by simp

end
