(* ===== verification/PyNum.thy ===== *)
theory PyNum
  imports PyPrelude
begin

text \<open>
  Python 2 numbers: an \<^verbatim>\<open>int\<close> (unbounded) or a \<^verbatim>\<open>float\<close>, taken as an exact rational. The two are
  kept apart because \<^verbatim>\<open>/\<close> floors on two integers and divides exactly as soon as one operand is a
  float. Rounding of IEEE doubles, infinities and NaN are not modelled: where the code computes
  with floats the model computes the exact value.
\<close>

named_theorems num_simps "values of the numeric operations"

datatype pynum = PInt int | PFloat rat

definition num_val :: "pynum \<Rightarrow> rat" where
  "num_val a = (case a of PInt i \<Rightarrow> of_int i | PFloat r \<Rightarrow> r)"

definition rat_trunc :: "rat \<Rightarrow> int" where
  "rat_trunc x = (if 0 \<le> x then \<lfloor>x\<rfloor> else \<lceil>x\<rceil>)"

fun num_add :: "pynum \<Rightarrow> pynum \<Rightarrow> pynum" where
  "num_add (PInt i) (PInt j) = PInt (i + j)"
| "num_add a b = PFloat (num_val a + num_val b)"

fun num_sub :: "pynum \<Rightarrow> pynum \<Rightarrow> pynum" where
  "num_sub (PInt i) (PInt j) = PInt (i - j)"
| "num_sub a b = PFloat (num_val a - num_val b)"

fun num_mul :: "pynum \<Rightarrow> pynum \<Rightarrow> pynum" where
  "num_mul (PInt i) (PInt j) = PInt (i * j)"
| "num_mul a b = PFloat (num_val a * num_val b)"

fun num_div :: "pynum \<Rightarrow> pynum \<Rightarrow> pynum res" where
  "num_div (PInt i) (PInt j) = (if j = 0 then Inl ZeroDivisionError else Inr (PInt (i div j)))"
| "num_div a b =
     (if num_val b = 0 then Inl ZeroDivisionError else Inr (PFloat (num_val a / num_val b)))"

fun num_mod :: "pynum \<Rightarrow> pynum \<Rightarrow> pynum res" where
  "num_mod (PInt i) (PInt j) = (if j = 0 then Inl ZeroDivisionError else Inr (PInt (i mod j)))"
| "num_mod a b =
     (if num_val b = 0 then Inl ZeroDivisionError
      else Inr (PFloat (num_val a - num_val b * of_int \<lfloor>num_val a / num_val b\<rfloor>)))"

definition num_lt :: "pynum \<Rightarrow> pynum \<Rightarrow> bool" where
  "num_lt a b \<longleftrightarrow> num_val a < num_val b"

definition num_le :: "pynum \<Rightarrow> pynum \<Rightarrow> bool" where
  "num_le a b \<longleftrightarrow> num_val a \<le> num_val b"

definition num_eq :: "pynum \<Rightarrow> pynum \<Rightarrow> bool" where
  "num_eq a b \<longleftrightarrow> num_val a = num_val b"

text \<open>\<^verbatim>\<open>max\<close> and \<^verbatim>\<open>min\<close> keep the first of two equal arguments, with its type.\<close>

definition num_max :: "pynum \<Rightarrow> pynum \<Rightarrow> pynum" where
  "num_max a b = (if num_lt a b then b else a)"

definition num_min :: "pynum \<Rightarrow> pynum \<Rightarrow> pynum" where
  "num_min a b = (if num_lt b a then b else a)"

definition num_int :: "pynum \<Rightarrow> int" where
  "num_int a = (case a of PInt i \<Rightarrow> i | PFloat r \<Rightarrow> rat_trunc r)"

definition num_float :: "pynum \<Rightarrow> pynum" where
  "num_float a = PFloat (num_val a)"

definition num_abs :: "pynum \<Rightarrow> pynum" where
  "num_abs a = (case a of PInt i \<Rightarrow> PInt \<bar>i\<bar> | PFloat r \<Rightarrow> PFloat \<bar>r\<bar>)"

section \<open>Values of the operations\<close>

lemma num_val_simps [simp]: "num_val (PInt i) = of_int i" "num_val (PFloat r) = r"
  by (simp_all add: num_val_def)

lemma num_val_add [simp]: "num_val (num_add a b) = num_val a + num_val b"
  by (cases "(a, b)" rule: num_add.cases) simp_all

lemma num_val_sub [simp]: "num_val (num_sub a b) = num_val a - num_val b"
  by (cases "(a, b)" rule: num_sub.cases) simp_all

lemma num_val_mul [simp]: "num_val (num_mul a b) = num_val a * num_val b"
  by (cases "(a, b)" rule: num_mul.cases) simp_all

lemma num_val_float [simp]: "num_val (num_float a) = num_val a"
  by (simp add: num_float_def)

lemma num_val_abs [simp]: "num_val (num_abs a) = \<bar>num_val a\<bar>"
  by (cases a) (simp_all add: num_abs_def)

lemma num_val_max [simp]: "num_val (num_max a b) = max (num_val a) (num_val b)"
  by (simp add: num_max_def num_lt_def max_def)

lemma num_val_min [simp]: "num_val (num_min a b) = min (num_val a) (num_val b)"
  by (simp add: num_min_def num_lt_def min_def)

lemma num_int_value: "num_int a = rat_trunc (num_val a)"
  by (cases a) (simp_all add: num_int_def rat_trunc_def)

lemma num_div_zero: "num_val b = 0 \<Longrightarrow> num_div a b = Inl ZeroDivisionError"
  by (cases "(a, b)" rule: num_div.cases) simp_all

lemma num_div_ok: "num_val b \<noteq> 0 \<Longrightarrow> \<exists>c. num_div a b = Inr c"
  by (cases "(a, b)" rule: num_div.cases) simp_all

lemma num_div_float:
  "num_val b \<noteq> 0 \<Longrightarrow> num_div (PFloat r) b = Inr (PFloat (r / num_val b))"
  "num_val b \<noteq> 0 \<Longrightarrow> b = PFloat s \<Longrightarrow> num_div a b = Inr (PFloat (num_val a / s))"
  by (cases b; simp) (cases a; simp)

lemma num_mod_ok: "num_val b \<noteq> 0 \<Longrightarrow> \<exists>c. num_mod a b = Inr c"
  by (cases "(a, b)" rule: num_mod.cases) simp_all

text \<open>\<^verbatim>\<open>a % b\<close> takes the sign of \<open>b\<close> and is smaller than it, for integers and for floats.\<close>

lemma num_mod_value:
  assumes "num_mod a b = Inr c"
  shows "num_val c = num_val a - num_val b * of_int \<lfloor>num_val a / num_val b\<rfloor>"
proof (cases "(a, b)" rule: num_mod.cases)
  case (1 i j)
  have "of_int (i mod j) = (of_int i :: rat) - of_int j * of_int (i div j)"
    by (simp add: minus_mult_div_eq_mod [symmetric])
  with 1 assms show ?thesis
    by (auto simp: floor_divide_of_int_eq split: if_splits)
qed (use assms in \<open>auto split: if_splits\<close>)

lemma num_mod_bound:
  assumes "num_mod a b = Inr c" "0 < num_val b"
  shows "0 \<le> num_val c \<and> num_val c < num_val b"
proof -
  let ?q = "\<lfloor>num_val a / num_val b\<rfloor>"
  have "of_int ?q \<le> num_val a / num_val b" "num_val a / num_val b < of_int ?q + 1"
    by linarith+
  then have "of_int ?q * num_val b \<le> num_val a" "num_val a < (of_int ?q + 1) * num_val b"
    using assms(2) by (simp_all only: pos_le_divide_eq pos_divide_less_eq)
  then show ?thesis
    using num_mod_value [OF assms(1)] by (simp add: algebra_simps)
qed

lemma rat_trunc_of_int [simp]: "rat_trunc (of_int i) = i"
  by (simp add: rat_trunc_def)

lemma rat_trunc_mono: "x \<le> y \<Longrightarrow> rat_trunc x \<le> rat_trunc y"
  by (auto simp: rat_trunc_def floor_mono ceiling_mono)
     (metis ceiling_le_iff linorder_not_le of_int_0 order_le_less order_trans zero_le_floor)

lemma rat_trunc_nonneg: "0 \<le> x \<Longrightarrow> of_int (rat_trunc x) \<le> x \<and> x < of_int (rat_trunc x) + 1"
  by (simp add: rat_trunc_def) linarith

lemmas [num_simps] = num_lt_def num_le_def num_eq_def num_max_def num_min_def num_int_def
  num_float_def num_abs_def rat_trunc_def

section \<open>Arithmetic syntax\<close>

text \<open>\<^verbatim>\<open>+\<close>, \<^verbatim>\<open>-\<close>, \<^verbatim>\<open>*\<close>, the comparisons and the integer literals of the source.\<close>

instantiation pynum :: "{minus, times, one, semigroup_add}"
begin

definition plus_pynum :: "pynum \<Rightarrow> pynum \<Rightarrow> pynum" where
  "plus_pynum = num_add"

definition minus_pynum :: "pynum \<Rightarrow> pynum \<Rightarrow> pynum" where
  "minus_pynum = num_sub"

definition times_pynum :: "pynum \<Rightarrow> pynum \<Rightarrow> pynum" where
  "times_pynum = num_mul"

definition one_pynum :: pynum where
  "one_pynum = PInt 1"

instance
proof
  fix a b c :: pynum
  show "a + b + c = a + (b + c)"
    by (cases a; cases b; cases c) (simp_all add: plus_pynum_def)
qed

end

instantiation pynum :: "{zero, preorder, numeral}"
begin

definition zero_pynum :: pynum where
  "zero_pynum = PInt 0"

definition less_eq_pynum :: "pynum \<Rightarrow> pynum \<Rightarrow> bool" where
  "less_eq_pynum = num_le"

definition less_pynum :: "pynum \<Rightarrow> pynum \<Rightarrow> bool" where
  "less_pynum = num_lt"

instance
  by standard (auto simp: less_eq_pynum_def less_pynum_def num_le_def num_lt_def)

end

lemma numeral_pynum [simp]: "(numeral n :: pynum) = PInt (numeral n)"
proof (induction n)
  case One
  show ?case by (simp add: one_pynum_def)
next
  case (Bit0 n)
  show ?case by (subst numeral_Bit0) (simp add: Bit0 plus_pynum_def numeral_Bit0 [where 'a = int])
next
  case (Bit1 n)
  show ?case
    by (subst numeral_Bit1) (simp add: Bit1 plus_pynum_def one_pynum_def numeral_Bit1 [where 'a = int])
qed

lemma zero_one_pynum [simp]: "(0 :: pynum) = PInt 0" "(1 :: pynum) = PInt 1"
  by (simp_all add: zero_pynum_def one_pynum_def)

lemma num_val_arith [simp]:
  "num_val (a + b) = num_val a + num_val b"
  "num_val (a - b) = num_val a - num_val b"
  "num_val (a * b) = num_val a * num_val b"
  by (simp_all add: plus_pynum_def minus_pynum_def times_pynum_def)

lemma num_val_order: "a \<le> b \<longleftrightarrow> num_val a \<le> num_val b" "a < b \<longleftrightarrow> num_val a < num_val b"
  by (simp_all add: less_eq_pynum_def less_pynum_def num_le_def num_lt_def)

lemma PInt_arith [simp]:
  "PInt i + PInt j = PInt (i + j)" "PInt i - PInt j = PInt (i - j)" "PInt i * PInt j = PInt (i * j)"
  by (simp_all add: plus_pynum_def minus_pynum_def times_pynum_def)

lemma pynum_arith [simp]:
  "PFloat r + PFloat s = PFloat (r + s)" "PFloat r - PFloat s = PFloat (r - s)"
  "PFloat r * PFloat s = PFloat (r * s)"
  "PInt i + PFloat s = PFloat (of_int i + s)" "PInt i - PFloat s = PFloat (of_int i - s)"
  "PInt i * PFloat s = PFloat (of_int i * s)"
  "PFloat r + PInt j = PFloat (r + of_int j)" "PFloat r - PInt j = PFloat (r - of_int j)"
  "PFloat r * PInt j = PFloat (r * of_int j)"
  by (simp_all add: plus_pynum_def minus_pynum_def times_pynum_def)

text \<open>Division by the literal 2, which cannot fail.\<close>

definition num_half :: "pynum \<Rightarrow> pynum" where
  "num_half a = (case a of PInt i \<Rightarrow> PInt (i div 2) | PFloat r \<Rightarrow> PFloat (r / 2))"

lemma num_half_div: "num_div a 2 = Inr (num_half a)"
  by (cases a) (simp_all add: num_half_def)

lemma num_half_bounds: "num_val a / 2 - 1 / 2 \<le> num_val (num_half a) \<and> num_val (num_half a) \<le> num_val a / 2"
proof (cases a)
  case (PInt i)
  have "i = 2 * (i div 2) + i mod 2" "0 \<le> i mod 2" "i mod 2 \<le> 1" by auto
  then have "rat_of_int i = 2 * of_int (i div 2) + of_int (i mod 2)" "0 \<le> rat_of_int (i mod 2)" "rat_of_int (i mod 2) \<le> 1"
    by (metis of_int_add of_int_mult of_int_numeral, simp, simp)
  then show ?thesis unfolding PInt num_half_def pynum.case num_val_simps by linarith
qed (simp add: num_half_def)

end
