(* ===== verification/RadUtil.thy ===== *)
theory RadUtil
  imports PyNum PyString
begin

text \<open>
  The list, number and dictionary helpers of bindings/python/rad_util.py: \<^verbatim>\<open>transpose\<close>,
  \<^verbatim>\<open>polygon_area\<close>, \<^verbatim>\<open>gcf\<close>, \<^verbatim>\<open>lcm\<close>, \<^verbatim>\<open>permutations\<close>, \<^verbatim>\<open>reduce_fraction\<close>, \<^verbatim>\<open>quantile\<close>, \<^verbatim>\<open>trim\<close>,
  \<^verbatim>\<open>uniquify\<close>, \<^verbatim>\<open>reverse_dict\<close>, \<^verbatim>\<open>float_range\<close>, \<^verbatim>\<open>find_common_fixes\<close>, \<^verbatim>\<open>is_rotated\<close>, \<^verbatim>\<open>round_grid\<close> and
  \<^verbatim>\<open>get_args\<close>. \<^verbatim>\<open>topsort.py\<close> calls \<open>is_rotated\<close>.
\<close>

section \<open>Definitions\<close>

text \<open>\<^verbatim>\<open>zip(*matrix)\<close> stops at the shortest row.\<close>

definition transpose_rows :: "'a list list \<Rightarrow> 'a list list" where
  "transpose_rows matrix =
     (case matrix of [] \<Rightarrow> []
      | _ \<Rightarrow> map (\<lambda>i. map (\<lambda>row. row ! i) matrix) [0..<Min (set (map length matrix))])"

text \<open>
  \<^verbatim>\<open>polygon_area\<close> scales the points in place, closes the polygon in place and returns the area: the
  model returns the list it leaves behind with the result. Both divisions are those of Python 2:
  \<open>area / 2\<close> floors.
\<close>

fun shoelace :: "(int \<times> int) list \<Rightarrow> int \<Rightarrow> int" where
  "shoelace ((x0, y0) # (x1, y1) # ps) area =
     shoelace ((x1, y1) # ps) (area + (x1 * y0) - (y1 * x0))"
| "shoelace ps area = area"

definition scale_point :: "int \<Rightarrow> rat \<times> rat \<Rightarrow> int \<times> int" where
  "scale_point precision p =
     (rat_trunc (fst p * of_int precision), rat_trunc (snd p * of_int precision))"

definition close_polygon :: "(int \<times> int) list \<Rightarrow> (int \<times> int) list" where
  "close_polygon ps = (if last ps \<noteq> hd ps then ps @ [hd ps] else ps)"

definition polygon_area :: "(rat \<times> rat) list \<Rightarrow> int \<Rightarrow> ((int \<times> int) list \<times> rat) res" where
  "polygon_area points_list precision =
     (let scaled = map (scale_point precision) points_list
      in if scaled = [] then Inl IndexError
         else
           (let closed = close_polygon scaled; area = \<bar>shoelace closed 0 div 2\<bar>
            in if precision ^ 2 = 0 then Inl ZeroDivisionError
               else Inr (closed, of_int area / of_int (precision ^ 2))))"

text \<open>Euclid's loop on integers; \<open>epsilon\<close> only matters for floats, but the guard tests it.\<close>

function gcf_loop :: "rat \<Rightarrow> int \<Rightarrow> int \<Rightarrow> int" where
  "gcf_loop epsilon result remainder =
     (if remainder \<noteq> 0 \<and> of_int \<bar>remainder\<bar> > epsilon
      then gcf_loop epsilon remainder (result mod remainder) else result)"
  by pat_completeness auto
termination
  by (relation "measure (\<lambda>(epsilon, result, remainder). nat \<bar>remainder\<bar>)")
     (auto simp: abs_mod_less)

declare gcf_loop.simps [simp del]

definition gcf :: "int \<Rightarrow> int \<Rightarrow> rat \<Rightarrow> int" where
  "gcf a b epsilon = \<bar>gcf_loop epsilon (max a b) (min a b)\<bar>"

abbreviation default_epsilon :: rat where
  "default_epsilon \<equiv> 1 / 10 ^ 16"

definition lcm_of :: "int \<Rightarrow> int \<Rightarrow> int" where
  "lcm_of a b = (let denom = gcf a b default_epsilon in if denom = 0 then 0 else a * (b div denom))"

fun permutations :: "'a list \<Rightarrow> 'a list list" where
  "permutations (item # x # xs) =
     concat (map (\<lambda>sub_list. map (\<lambda>i. take i sub_list @ item # drop i sub_list)
                               [0..<length (item # x # xs)])
               (permutations (x # xs)))"
| "permutations input_list = [input_list]"

definition reduce_fraction :: "int \<times> int \<Rightarrow> (int \<times> int) res" where
  "reduce_fraction fraction =
     (case fraction of (numerator, denominator) \<Rightarrow>
        (let common_factor = \<bar>gcf numerator denominator default_epsilon\<bar>
         in if common_factor = 0 then Inl ZeroDivisionError
            else Inr (numerator div common_factor, denominator div common_factor)))"

definition quantile :: "rat list \<Rightarrow> rat \<Rightarrow> rat res" where
  "quantile l p =
     (let l_sort = sort l; n = int (length l);
          r = 1 + of_int (n - 1) * p; i = rat_trunc r; f = r - of_int i
      in if i < n
         then rbind (py_nth l_sort (i - 1))
                (\<lambda>a. rbind (py_nth l_sort i) (\<lambda>b. Inr ((1 - f) * a + f * b)))
         else py_nth l_sort (i - 1))"

definition median_score :: "rat list \<Rightarrow> rat res" where
  "median_score l_sort =
     (let index = int (length l_sort div 2)
      in if length l_sort mod 2 = 0
         then rbind (py_nth l_sort index)
                (\<lambda>a. rbind (py_nth l_sort (index - 1)) (\<lambda>b. Inr ((a + b) / 2)))
         else py_nth l_sort index)"

definition trim :: "rat list \<Rightarrow> rat list res" where
  "trim l =
     (let l_sort = sort l
      in rbind (median_score l_sort)
           (\<lambda>median. rbind (quantile l_sort (1 / 4))
             (\<lambda>q1. rbind (quantile l_sort (3 / 4))
               (\<lambda>q3. let iqr_extra = (q3 - q1) * (3 / 2)
                      in Inr (filter (\<lambda>x. q1 - iqr_extra \<le> x \<and> x \<le> q3 + iqr_extra) l_sort)))))"

text \<open>
  The items are hashable or not as a whole; \<open>ord\<close> is the order of \<^verbatim>\<open>d.keys()\<close>. The comprehension of
  the fast path and the loop of the slow path both keep the first of equal items.
\<close>

fun uniquify_scan :: "'a list \<Rightarrow> 'a list \<Rightarrow> 'a list" where
  "uniquify_scan seen [] = []"
| "uniquify_scan seen (x # xs) =
     (if x \<in> set seen then uniquify_scan seen xs else x # uniquify_scan (x # seen) xs)"

fun uniquify_slow :: "'a list \<Rightarrow> 'a list \<Rightarrow> 'a list" where
  "uniquify_slow result [] = result"
| "uniquify_slow result (x # xs) =
     (if x \<in> set result then uniquify_slow result xs else uniquify_slow (result @ [x]) xs)"

definition uniquify :: "('a list \<Rightarrow> 'a list) \<Rightarrow> bool \<Rightarrow> 'a list \<Rightarrow> bool \<Rightarrow> 'a list" where
  "uniquify ord hashable sq preserve_order =
     (if hashable
      then if preserve_order then uniquify_scan [] sq
           else ord (dict_keys (fold (\<lambda>x d. dict_set x (0::int) d) sq []))
      else uniquify_slow [] sq)"

definition dict_items :: "('k list \<Rightarrow> 'k list) \<Rightarrow> ('k, 'v) dict \<Rightarrow> ('k \<times> 'v) list" where
  "dict_items ord d = map (\<lambda>k. (k, the (map_of d k))) (ord (dict_keys d))"

definition reverse_dict :: "('k list \<Rightarrow> 'k list) \<Rightarrow> ('k, 'v) dict \<Rightarrow> ('v, 'k) dict" where
  "reverse_dict ord d = fold (\<lambda>(key, value) result. dict_set value key result) (dict_items ord d) []"

partial_function (option) float_range_loop :: "rat \<Rightarrow> rat \<Rightarrow> rat \<Rightarrow> rat list \<Rightarrow> rat list option" where
  "float_range_loop stop step cur l =
     (if cur < stop then float_range_loop stop step (cur + step) (l @ [cur]) else Some l)"

definition float_range :: "rat \<Rightarrow> rat option \<Rightarrow> rat option \<Rightarrow> rat list option" where
  "float_range start stop step =
     (let (start', stop') = (case stop of None \<Rightarrow> (0, start) | Some s \<Rightarrow> (start, s));
          step' = (case step of None \<Rightarrow> 1 | Some s \<Rightarrow> s)
      in float_range_loop stop' step' start' [])"

function common_prefix_loop :: "string \<Rightarrow> string \<Rightarrow> nat \<Rightarrow> nat \<Rightarrow> string \<Rightarrow> string" where
  "common_prefix_loop s1 s2 common_len i prefix =
     (if i < common_len then
        (if s1 ! i \<noteq> s2 ! i then prefix
         else common_prefix_loop s1 s2 common_len (i + 1) (prefix @ [s1 ! i]))
      else prefix)"
  by pat_completeness auto
termination
  by (relation "measure (\<lambda>(s1, s2, n, i, p). n - i)") auto

function common_suffix_loop :: "string \<Rightarrow> string \<Rightarrow> nat \<Rightarrow> nat \<Rightarrow> string \<Rightarrow> string" where
  "common_suffix_loop s1 s2 common_len i suffix =
     (if i < common_len + 1 then
        (if s1 ! (length s1 - i) \<noteq> s2 ! (length s2 - i) then suffix
         else common_suffix_loop s1 s2 common_len (i + 1) (suffix @ [s1 ! (length s1 - i)]))
      else suffix)"
  by pat_completeness auto
termination
  by (relation "measure (\<lambda>(s1, s2, n, i, p). n + 1 - i)") auto

declare common_prefix_loop.simps [simp del] common_suffix_loop.simps [simp del]

definition find_common_fixes :: "string \<Rightarrow> string \<Rightarrow> string \<times> string" where
  "find_common_fixes s1 s2 =
     (let common_len = min (length s1) (length s2);
          prefix = common_prefix_loop s1 s2 common_len 0 [];
          suffix = common_suffix_loop s1 s2 common_len 1 []
      in (prefix, rev suffix))"

definition is_rotated :: "'a list \<Rightarrow> 'a list \<Rightarrow> bool res" where
  "is_rotated seq1 seq2 =
     (if length seq1 \<noteq> length seq2 then Inr False
      else rbind (py_nth seq2 0)
        (\<lambda>head_item.
           let start_indexes = filter (\<lambda>index1. seq1 ! index1 = head_item) [0..<length seq1];
               double_seq1 = seq1 @ seq1
           in Inr (list_ex (\<lambda>index1. drop index1 (take (index1 + length seq1) double_seq1) = seq2)
                     start_indexes)))"

definition round_grid :: "pynum \<Rightarrow> pynum \<Rightarrow> int \<Rightarrow> pynum res" where
  "round_grid value grid mode =
     rbind (num_mod value grid)
       (\<lambda>off_grid.
          rbind
            (if mode = 0
             then rbind (num_div grid (PFloat 2)) (\<lambda>h. Inr (if num_le h off_grid then 1 else 0))
             else if mode = 1 \<and> num_val off_grid \<noteq> 0 then Inr 1
             else if mode = - 1 \<and> num_val off_grid \<noteq> 0 then Inr 0
             else Inl UnboundLocalError)
            (\<lambda>add_one.
               rbind (num_div value grid)
                 (\<lambda>q. Inr (num_mul (PInt (num_int q + add_one)) grid))))"

datatype arg_value = ArgNone | ArgStr string | ArgList "string list"

fun get_args_loop ::
    "string list \<Rightarrow> (string, arg_value) dict \<Rightarrow> string list \<Rightarrow> (string, arg_value) dict \<times> string list"
where
  "get_args_loop [] d args = (d, args)"
| "get_args_loop (arg # argv) d args =
     (if startswith arg ''-''
      then
        (let parts = split_on (CHR ''='') (dropWhile (\<lambda>c. c = CHR ''-'') arg)
         in if length parts = 2
            then get_args_loop argv (dict_set (parts ! 0) (ArgStr (parts ! 1)) d) args
            else get_args_loop argv (dict_set (parts ! 0) ArgNone d) args)
      else get_args_loop argv d (args @ [arg]))"

definition get_args :: "string list \<Rightarrow> (string, arg_value) dict" where
  "get_args argv =
     (case get_args_loop argv [] [] of (d, args) \<Rightarrow> dict_set ''args'' (ArgList args) d)"

section \<open>Rotations\<close>

lemma slice_double_rotate:
  assumes "i < length xs"
  shows "drop i (take (i + length xs) (xs @ xs)) = rotate i xs"
  using assms by (simp add: rotate_drop_take)

lemma is_rotated_nonempty:
  assumes "seq2 \<noteq> []"
  shows "is_rotated seq1 seq2 = Inr (\<exists>n. seq2 = rotate n seq1)"
proof (cases "length seq1 = length seq2")
  case False
  then show ?thesis by (auto simp: is_rotated_def)
next
  case True
  with assms have ne: "seq1 \<noteq> []" by auto
  have "py_nth seq2 0 = Inr (hd seq2)" using assms by (cases seq2) auto
  then have "is_rotated seq1 seq2 =
      Inr (list_ex (\<lambda>i. rotate i seq1 = seq2) (filter (\<lambda>i. seq1 ! i = hd seq2) [0..<length seq1]))"
    using True by (auto simp: is_rotated_def Let_def list_ex_iff rotate_drop_take)
  also have "list_ex (\<lambda>i. rotate i seq1 = seq2) (filter (\<lambda>i. seq1 ! i = hd seq2) [0..<length seq1])
      \<longleftrightarrow> (\<exists>n. seq2 = rotate n seq1)" (is "?L \<longleftrightarrow> ?R")
  proof
    assume ?R
    then obtain n where n: "seq2 = rotate n seq1" ..
    let ?i = "n mod length seq1"
    have "rotate ?i seq1 = seq2" using n rotate_conv_mod [of n seq1] by simp
    moreover have "?i < length seq1" using ne by simp
    moreover have "seq1 ! ?i = hd seq2"
      using hd_rotate_conv_nth [OF ne, of n] n by simp
    ultimately show ?L by (auto simp: list_ex_iff)
  qed (auto simp: list_ex_iff)
  finally show ?thesis .
qed

lemma is_rotated_empty: "is_rotated [] [] = Inl IndexError"
  by (simp add: is_rotated_def)

section \<open>Greatest common factor and fractions\<close>

lemma gcf_loop_gcd: "epsilon < 1 \<Longrightarrow> \<bar>gcf_loop epsilon result remainder\<bar> = gcd result remainder"
proof (induction epsilon result remainder rule: gcf_loop.induct)
  case (1 epsilon result remainder)
  show ?case
  proof (cases "remainder = 0")
    case True
    then show ?thesis by (subst gcf_loop.simps) simp
  next
    case False
    then have "1 \<le> \<bar>remainder\<bar>" by simp
    then have "(1 :: rat) \<le> of_int \<bar>remainder\<bar>" by (metis of_int_1 of_int_le_iff)
    with "1.prems" False have go: "remainder \<noteq> 0 \<and> of_int \<bar>remainder\<bar> > epsilon" by linarith
    then have "\<bar>gcf_loop epsilon result remainder\<bar> = \<bar>gcf_loop epsilon remainder (result mod remainder)\<bar>"
      by (subst gcf_loop.simps) simp
    also have "\<dots> = gcd remainder (result mod remainder)"
      using "1.IH" [OF go "1.prems"] .
    also have "\<dots> = gcd result remainder"
      by (metis gcd_red_int)
    finally show ?thesis .
  qed
qed

lemma gcf_gcd: "epsilon < 1 \<Longrightarrow> gcf a b epsilon = gcd a b"
  by (auto simp: gcf_def gcf_loop_gcd max_def min_def gcd.commute)

lemma default_epsilon_less [simp]: "default_epsilon < 1"
  by simp

section \<open>Permutations\<close>

lemma insert_at_mset: "mset (take i xs @ x # drop i xs) = add_mset x (mset xs)"
  by (metis append_take_drop_id mset.simps(2) mset_append union_mset_add_mset_right)

lemma permutations_step:
  "xs \<noteq> [] \<Longrightarrow> permutations (x # xs) =
     concat (map (\<lambda>sub. map (\<lambda>i. take i sub @ x # drop i sub) [0..<Suc (length xs)]) (permutations xs))"
  by (cases xs) simp_all

lemma permutations_mset: "ys \<in> set (permutations xs) \<longleftrightarrow> mset ys = mset xs"
proof (induction xs arbitrary: ys)
  case Nil
  then show ?case by simp
next
  case (Cons x xs)
  show ?case
  proof (cases "xs = []")
    case True
    then show ?thesis by auto
  next
    case False
    have "ys \<in> set (permutations (x # xs)) \<longleftrightarrow>
        (\<exists>sub. mset sub = mset xs \<and> (\<exists>i < Suc (length xs). ys = take i sub @ x # drop i sub))"
      using False
      by (simp add: permutations_step del: upt_Suc)
         (metis (no_types, lifting) Cons.IH atLeastLessThan_iff image_iff le0)
    also have "\<dots> \<longleftrightarrow> mset ys = mset (x # xs)"
    proof
      assume "mset ys = mset (x # xs)"
      then obtain us vs where ys: "ys = us @ x # vs"
        by (metis list.set_intros(1) mset_eq_setD split_list)
      with \<open>mset ys = mset (x # xs)\<close> have m: "mset (us @ vs) = mset xs" by simp
      then have "length us < Suc (length xs)"
        by (metis le_add1 le_imp_less_Suc length_append mset_eq_length)
      with m ys show "\<exists>sub. mset sub = mset xs \<and> (\<exists>i < Suc (length xs). ys = take i sub @ x # drop i sub)"
        by (intro exI [of _ "us @ vs"]) auto
    qed (auto simp: insert_at_mset simp del: mset_append)
    finally show ?thesis .
  qed
qed

lemma length_permutations: "length (permutations xs) = fact (length xs)"
proof (induction xs rule: permutations.induct)
  case (1 item x xs)
  have len: "length (concat (map (\<lambda>s. map (f s) [0..<k]) yss)) = k * length yss"
    for f :: "'a list \<Rightarrow> nat \<Rightarrow> 'a list" and k and yss :: "'a list list"
    by (induction yss) auto
  show ?case
    by (simp only: permutations.simps len 1) simp
qed auto

lemma insert_at_recover:
  assumes "x \<notin> set s" "i \<le> length s"
  shows "remove1 x (take i s @ x # drop i s) = s"
    and "length (takeWhile (\<lambda>y. y \<noteq> x) (take i s @ x # drop i s)) = i"
proof -
  have x: "x \<notin> set (take i s)" using assms(1) by (meson in_set_takeD)
  then show "remove1 x (take i s @ x # drop i s) = s" by (simp add: remove1_append)
  from x have "takeWhile (\<lambda>y. y \<noteq> x) (take i s @ x # drop i s) = take i s"
    by (rule takeWhile_until)
  then show "length (takeWhile (\<lambda>y. y \<noteq> x) (take i s @ x # drop i s)) = i"
    using assms(2) by simp
qed

lemma distinct_insert_at:
  assumes "x \<notin> set s" "n \<le> length s"
  shows "distinct (map (\<lambda>i. take i s @ x # drop i s) [0..<Suc n])"
proof -
  have "inj_on (\<lambda>i. take i s @ x # drop i s) {0..<Suc n}"
    using insert_at_recover(2) [OF assms(1)] assms(2)
    by (intro inj_on_inverseI [where g = "\<lambda>z. length (takeWhile (\<lambda>y. y \<noteq> x) z)"]) simp
  then show ?thesis by (simp add: distinct_map del: upt_Suc)
qed

lemma distinct_insertions:
  assumes "distinct yss" "\<forall>s \<in> set yss. x \<notin> set s \<and> length s = n"
  shows "distinct (concat (map (\<lambda>s. map (\<lambda>i. take i s @ x # drop i s) [0..<Suc n]) yss))"
  using assms
proof (induction yss)
  case (Cons s yss)
  let ?ins = "\<lambda>s. map (\<lambda>i. take i s @ x # drop i s) [0..<Suc n]"
  have "remove1 x z = t" if "z \<in> set (?ins t)" "t \<in> set (s # yss)" for t z
  proof -
    have t: "x \<notin> set t" "length t = n" using that(2) Cons.prems(2) by blast+
    from that(1) obtain i where "i < Suc n" "z = take i t @ x # drop i t"
      unfolding set_map set_upt by (elim imageE) simp
    with t show ?thesis using insert_at_recover(1) [OF t(1), of i] by simp
  qed
  note recover = this
  have "set (?ins s) \<inter> set (concat (map ?ins yss)) = {}"
  proof (rule equals0I)
    fix z assume z: "z \<in> set (?ins s) \<inter> set (concat (map ?ins yss))"
    have "z \<in> set (concat (map f yss)) \<Longrightarrow> \<exists>t \<in> set yss. z \<in> set (f t)" for f :: "'a list \<Rightarrow> 'a list list"
      by auto
    from bexE [OF this [OF IntD2 [OF z]]]
    obtain t where t: "t \<in> set yss" "z \<in> set (?ins t)" .
    from t(1) have "remove1 x z = t" by (intro recover [OF t(2)]) simp
    moreover have "remove1 x z = s" by (intro recover [OF IntD1 [OF z]]) simp
    ultimately show False using t(1) Cons.prems(1) by simp
  qed
  moreover have "distinct (?ins s)"
    using Cons.prems(2) by (intro distinct_insert_at) auto
  moreover have "distinct (concat (map ?ins yss))"
    by (rule Cons.IH) (use Cons.prems in auto)
  ultimately show ?case
    by (simp only: list.map concat.simps distinct_append simp_thms)
qed simp

lemma distinct_permutations: "distinct xs \<Longrightarrow> distinct (permutations xs)"
proof (induction xs rule: permutations.induct)
  case (1 item x xs)
  have "item \<notin> set sub \<and> length sub = length (x # xs)" if "sub \<in> set (permutations (x # xs))" for sub
    using that "1.prems" by (metis distinct.simps(2) mset_eq_length mset_eq_setD permutations_mset)
  with 1 have "distinct (concat (map (\<lambda>s. map (\<lambda>i. take i s @ item # drop i s) [0..<Suc (length (x # xs))])
      (permutations (x # xs))))"
    by (intro distinct_insertions) auto
  then show ?case by (simp only: permutations.simps length_Cons)
qed auto

section \<open>Polygons and matrices\<close>

lemma shoelace_acc: "shoelace ps a = a + shoelace ps 0"
proof (induction ps arbitrary: a rule: induct_list012)
  case (3 p q ps)
  obtain x0 y0 x1 y1 where pq: "p = (x0, y0)" "q = (x1, y1)" by (cases p; cases q) auto
  have step: "shoelace (p # q # ps) b = shoelace (q # ps) (b + x1 * y0 - y1 * x0)" for b
    by (simp add: pq)
  show ?case
    using "3.IH"(2) [of "a + x1 * y0 - y1 * x0"] "3.IH"(2) [of "0 + x1 * y0 - y1 * x0"]
      step [of a] step [of 0] by linarith
qed simp_all

lemma shoelace_Cons2:
  "shoelace ((x0, y0) # (x1, y1) # ps) 0 = (x1 * y0 - y1 * x0) + shoelace ((x1, y1) # ps) 0"
  using shoelace_acc [of "(x1, y1) # ps" "x1 * y0 - y1 * x0"] by simp

declare shoelace.simps(1) [simp del]

lemma shoelace_scale:
  "shoelace (map (\<lambda>(x, y). (k * x, k * y)) ps) 0 = k ^ 2 * shoelace ps 0"
proof (induction ps rule: induct_list012)
  case (3 p q ps)
  then show ?case
    by (cases p; cases q) (simp add: shoelace_Cons2 power2_eq_square algebra_simps)
qed auto

lemma shoelace_snoc:
  "shoelace (ps @ [(x0, y0), (x1, y1)]) 0 = shoelace (ps @ [(x0, y0)]) 0 + (x1 * y0 - y1 * x0)"
proof (induction ps rule: induct_list012)
  case (2 p)
  then show ?case by (cases p) (simp add: shoelace_Cons2)
next
  case (3 p q ps)
  then show ?case by (cases p; cases q) (simp add: shoelace_Cons2)
qed (simp add: shoelace_Cons2)

lemma shoelace_rev: "shoelace (rev ps) 0 = - shoelace ps 0"
proof (induction ps rule: induct_list012)
  case (3 p q ps)
  then show ?case by (cases p; cases q) (simp add: shoelace_Cons2 shoelace_snoc)
qed simp_all

lemma scale_point_of_int:
  "scale_point k (of_int x, of_int y) = (k * x, k * y)"
  by (simp add: scale_point_def mult.commute flip: of_int_mult)

abbreviation rat_points :: "(int \<times> int) list \<Rightarrow> (rat \<times> rat) list" where
  "rat_points ps \<equiv> map (\<lambda>(x, y). (of_int x, of_int y)) ps"

lemma close_polygon_scale:
  assumes "k \<noteq> 0" "ps \<noteq> []"
  shows "close_polygon (map (\<lambda>(x, y). (k * x, k * y)) ps) = map (\<lambda>(x, y). (k * x, k * y)) (close_polygon ps)"
proof -
  have "inj (\<lambda>(x, y). (k * x, k * y))" using assms(1) by (auto simp: inj_def)
  from inj_eq [OF this, of "last ps" "hd ps"] show ?thesis
    using assms(2) by (simp add: close_polygon_def last_map hd_map)
qed

lemma transpose_rectangular:
  assumes "matrix \<noteq> []" "\<forall>row \<in> set matrix. length row = c"
  shows "transpose_rows matrix = map (\<lambda>i. map (\<lambda>row. row ! i) matrix) [0..<c]"
proof -
  have "length ` set matrix = {c}" using assms by (cases matrix) auto
  then have "Min (set (map length matrix)) = c" by simp
  with assms(1) show ?thesis by (auto simp: transpose_rows_def split: list.splits)
qed

theorem transpose_involution:
  assumes "matrix \<noteq> []" "\<forall>row \<in> set matrix. length row = c" "0 < c"
  shows "transpose_rows (transpose_rows matrix) = matrix"
proof -
  let ?t = "map (\<lambda>i. map (\<lambda>row. row ! i) matrix) [0..<c]"
  have t: "transpose_rows matrix = ?t" using assms(1,2) by (rule transpose_rectangular)
  have "transpose_rows ?t = map (\<lambda>i. map (\<lambda>row. row ! i) ?t) [0..<length matrix]"
    using assms(3) by (intro transpose_rectangular) auto
  also have "\<dots> = matrix"
    using assms(2) by (intro nth_equalityI) (auto simp: comp_def intro!: nth_equalityI)
  finally show ?thesis using t by simp
qed

section \<open>Quantiles\<close>

text \<open>For a fraction between 0 and 1 the position \<open>r\<close> of \<^verbatim>\<open>quantile\<close> lies inside the sorted list.\<close>

lemma quantile_position:
  assumes "l \<noteq> []" "0 \<le> p" "p \<le> 1"
  defines "r \<equiv> 1 + of_int (int (length l) - 1) * p"
  shows "1 \<le> rat_trunc r" "rat_trunc r \<le> int (length l)" "1 \<le> r"
    "0 \<le> r - of_int (rat_trunc r)" "r - of_int (rat_trunc r) < 1"
proof -
  have n: "(0 :: rat) \<le> of_int (int (length l) - 1)" using assms(1) by (cases l) auto
  then have "0 \<le> of_int (int (length l) - 1) * p" "of_int (int (length l) - 1) * p \<le> of_int (int (length l) - 1)"
    using assms(2,3) by (auto intro: mult_left_le)
  then have r: "1 \<le> r" "r \<le> of_int (int (length l))" by (simp_all add: r_def)
  show "1 \<le> r" by (rule r)
  show "1 \<le> rat_trunc r" using rat_trunc_mono [OF r(1)] rat_trunc_of_int [of 1] by simp
  show "rat_trunc r \<le> int (length l)" using rat_trunc_mono [OF r(2)] by (simp only: rat_trunc_of_int)
  show "0 \<le> r - of_int (rat_trunc r)" "r - of_int (rat_trunc r) < 1"
    using rat_trunc_nonneg [of r] r(1) by simp_all
qed

definition interpolate :: "rat list \<Rightarrow> rat \<Rightarrow> rat" where
  "interpolate s r =
     (let i = nat (rat_trunc r - 1); f = r - of_int (rat_trunc r)
      in if i + 1 < length s then (1 - f) * s ! i + f * s ! (i + 1) else s ! i)"

lemma quantile_value:
  assumes "l \<noteq> []" "0 \<le> p" "p \<le> 1"
  shows "quantile l p = Inr (interpolate (sort l) (1 + of_int (int (length l) - 1) * p))"
proof -
  define r where "r = 1 + of_int (int (length l) - 1) * p"
  define f where "f = r - of_int (rat_trunc r)"
  note pos = quantile_position [OF assms, folded r_def f_def]
  define i where "i = nat (rat_trunc r - 1)"
  have i: "int i = rat_trunc r - 1" "i < length l" using pos by (auto simp: i_def)
  show ?thesis
  proof (cases "rat_trunc r < int (length l)")
    case True
    with i have i1: "i + 1 < length l" "rat_trunc r = int (i + 1)" by auto
    have "quantile l p = rbind (py_nth (sort l) (int i)) (\<lambda>a. rbind (py_nth (sort l) (int (i + 1)))
        (\<lambda>b. Inr ((1 - f) * a + f * b)))"
      using True i1(2) by (simp add: quantile_def Let_def f_def r_def)
    also have "\<dots> = Inr ((1 - f) * sort l ! i + f * sort l ! (i + 1))"
      using i1(1) i(2) by (simp only: py_nth_of_nat length_sort rbind_simps)
    finally show ?thesis
      unfolding r_def [symmetric] using i1(1) by (simp add: interpolate_def Let_def flip: i_def f_def)
  next
    case False
    then have "quantile l p = py_nth (sort l) (int i)"
      using i(1) by (simp add: quantile_def Let_def r_def)
    also have "\<dots> = Inr (sort l ! i)"
      using i(2) by (simp only: py_nth_of_nat length_sort)
    moreover have "\<not> i + 1 < length l" using False i(1) by linarith
    ultimately show ?thesis
      unfolding r_def [symmetric] by (simp add: interpolate_def Let_def flip: i_def)
  qed
qed

lemma interpolate_bounds:
  assumes "sorted s" "1 \<le> rat_trunc r" "rat_trunc r \<le> int (length s)" "0 \<le> r"
  defines "i \<equiv> nat (rat_trunc r - 1)"
  shows "s ! i \<le> interpolate s r" "i + 1 < length s \<Longrightarrow> interpolate s r \<le> s ! (i + 1)"
    "\<not> i + 1 < length s \<Longrightarrow> interpolate s r = s ! i"
proof -
  define f where "f = r - of_int (rat_trunc r)"
  have f: "0 \<le> f" "f < 1" using rat_trunc_nonneg [OF assms(4)] by (simp_all add: f_def)
  have "s ! i \<le> (1 - f) * s ! i + f * s ! (i + 1) \<and> (1 - f) * s ! i + f * s ! (i + 1) \<le> s ! (i + 1)"
    if "i + 1 < length s"
  proof -
    have "s ! i \<le> s ! (i + 1)" using that assms(1) by (intro sorted_nth_mono) auto
    then have "f * s ! i \<le> f * s ! (i + 1)" "(1 - f) * s ! i \<le> (1 - f) * s ! (i + 1)"
      using f by (auto intro: mult_left_mono)
    then show ?thesis by (simp add: algebra_simps)
  qed
  then show "s ! i \<le> interpolate s r" "i + 1 < length s \<Longrightarrow> interpolate s r \<le> s ! (i + 1)"
    "\<not> i + 1 < length s \<Longrightarrow> interpolate s r = s ! i"
    by (auto simp: interpolate_def Let_def simp flip: i_def f_def)
qed

lemma interpolate_mono:
  assumes "sorted s" "1 \<le> rat_trunc r" "r \<le> r'" "rat_trunc r' \<le> int (length s)" "0 \<le> r"
  shows "interpolate s r \<le> interpolate s r'"
proof -
  define i i' where "i = nat (rat_trunc r - 1)" and "i' = nat (rat_trunc r' - 1)"
  have tr: "rat_trunc r \<le> rat_trunc r'" using assms(3) by (rule rat_trunc_mono)
  note low = interpolate_bounds [OF assms(1,2) _ assms(5), folded i_def]
  have up: "s ! i' \<le> interpolate s r'"
    using interpolate_bounds(1) [OF assms(1), of r'] assms tr by (simp add: i'_def)
  show ?thesis
  proof (cases "rat_trunc r = rat_trunc r'")
    case False
    with tr assms(2,4) have lt: "i + 1 \<le> i'" "i' < length s" by (auto simp: i_def i'_def)
    then have "interpolate s r \<le> s ! (i + 1)" using low(2) tr assms(4) by simp
    also have "\<dots> \<le> s ! i'" using lt assms(1) by (intro sorted_nth_mono) auto
    finally show ?thesis using up by simp
  next
    case True
    have "f * s ! (i + 1) - f * s ! i \<le> g * s ! (i + 1) - g * s ! i"
      if "f \<le> g" "i + 1 < length s" for f g
      using that assms(1) sorted_nth_mono [of s i "i + 1"]
        mult_right_mono [of f g "s ! (i + 1) - s ! i"] by (simp add: algebra_simps)
    from this [of "r - of_int (rat_trunc r)" "r' - of_int (rat_trunc r)"] assms(3)
    show ?thesis by (simp add: interpolate_def Let_def True [symmetric] algebra_simps flip: i_def)
  qed
qed

lemma sorted_nth_bounds:
  fixes l :: "rat list"
  assumes "i < length l"
  shows "Min (set l) \<le> sort l ! i" "sort l ! i \<le> Max (set l)"
proof -
  have "sort l ! i \<in> set l" using assms by (metis length_sort nth_mem set_sort)
  then show "Min (set l) \<le> sort l ! i" "sort l ! i \<le> Max (set l)" by simp_all
qed

lemma quantile_in_range:
  assumes "l \<noteq> []" "0 \<le> p" "p \<le> 1"
  shows "\<exists>q. quantile l p = Inr q \<and> Min (set l) \<le> q \<and> q \<le> Max (set l)"
proof -
  define r where "r = 1 + of_int (int (length l) - 1) * p"
  note pos = quantile_position [OF assms, folded r_def]
  define i where "i = nat (rat_trunc r - 1)"
  have i: "i < length l" using pos by (auto simp: i_def)
  have "sorted (sort l)" "0 \<le> r" "rat_trunc r \<le> int (length (sort l))" using pos by simp_all
  note b = interpolate_bounds [OF this(1) pos(1) this(3,2), folded i_def]
  have "interpolate (sort l) r \<le> Max (set l)"
    using b(2,3) sorted_nth_bounds(2) [of "i + 1" l] sorted_nth_bounds(2) [OF i]
    by (cases "i + 1 < length l") (auto intro: order_trans)
  moreover have "Min (set l) \<le> interpolate (sort l) r"
    using b(1) sorted_nth_bounds(1) [OF i] by simp
  ultimately show ?thesis using quantile_value [OF assms] by (simp add: r_def)
qed

lemma quantile_monotone:
  assumes "l \<noteq> []" "0 \<le> p" "p \<le> p'" "p' \<le> 1" "quantile l p = Inr q" "quantile l p' = Inr q'"
  shows "q \<le> q'"
proof -
  have m: "(0 :: rat) \<le> of_int (int (length l) - 1)" using assms(1) by (cases l) auto
  have "p \<le> 1" "0 \<le> p'" using assms by simp_all
  note pos = quantile_position [OF assms(1,2) this(1)] quantile_position [OF assms(1) this(2) assms(4)]
  have "interpolate (sort l) (1 + of_int (int (length l) - 1) * p)
      \<le> interpolate (sort l) (1 + of_int (int (length l) - 1) * p')"
    using pos m assms(3) by (intro interpolate_mono) (auto intro: mult_left_mono)
  then show ?thesis
    using assms quantile_value [OF assms(1,2) \<open>p \<le> 1\<close>] quantile_value [OF assms(1) \<open>0 \<le> p'\<close> assms(4)]
    by simp
qed

lemma median_score_ok: "l \<noteq> [] \<Longrightarrow> \<exists>m. median_score l = Inr m"
proof -
  assume "l \<noteq> []"
  then have "0 < length l" by simp
  then have "length l div 2 < length l" "length l mod 2 = 0 \<Longrightarrow> 0 < length l div 2"
    by presburger+
  moreover have "py_nth l (int (length l div 2) - 1) = Inr (l ! (length l div 2 - 1))"
    if "0 < length l div 2"
    using that py_nth_of_nat [of "length l div 2 - 1" l] by (simp)
  ultimately have "\<not> isl (median_score l)"
    using py_nth_of_nat [of "length l div 2" l] by (simp add: median_score_def Let_def)
  then show ?thesis by (cases "median_score l") auto
qed

lemma quantile_sort: "quantile (sort l) p = quantile l p"
  by (simp add: quantile_def sorted_sort_id)

lemma trim_spec:
  assumes "l \<noteq> []"
  shows "\<exists>t q1 q3. trim l = Inr t \<and> quantile l (1 / 4) = Inr q1 \<and> quantile l (3 / 4) = Inr q3 \<and>
     t = filter (\<lambda>x. q1 - (q3 - q1) * (3 / 2) \<le> x \<and> x \<le> q3 + (q3 - q1) * (3 / 2)) (sort l) \<and> q1 \<le> q3"
proof -
  obtain q1 q3 where q: "quantile l (1 / 4) = Inr q1" "quantile l (3 / 4) = Inr q3"
    using quantile_in_range [OF assms, of "1 / 4"] quantile_in_range [OF assms, of "3 / 4"] by auto
  moreover have "q1 \<le> q3" using quantile_monotone [OF assms _ _ _ q] by simp
  moreover obtain m where "median_score (sort l) = Inr m"
    using median_score_ok [of "sort l"] assms by (metis length_0_conv length_sort)
  ultimately show ?thesis by (simp add: trim_def Let_def quantile_sort)
qed

section \<open>Removing duplicates, reversing a dictionary\<close>

lemma uniquify_scan_remdups:
  "uniquify_scan seen xs = filter (\<lambda>x. x \<notin> set seen) (rev (remdups (rev xs)))"
proof (induction xs arbitrary: seen rule: rev_induct)
  case (snoc x xs)
  have "uniquify_scan seen (xs @ [x]) =
      uniquify_scan seen xs @ (if x \<in> set seen \<or> x \<in> set xs then [] else [x])" for seen
    by (induction xs arbitrary: seen) auto
  with snoc show ?case by auto
qed simp

lemma uniquify_slow_scan: "uniquify_slow result xs = result @ uniquify_scan result xs"
proof (induction xs arbitrary: result)
  case (Cons x xs)
  have "set a = set b \<Longrightarrow> uniquify_scan a xs = uniquify_scan b xs" for a b
    by (simp add: uniquify_scan_remdups)
  from this [of "result @ [x]" "x # result"] show ?case
    using Cons by simp
qed simp

lemma fold_dict_set_keys:
  assumes "dict_ok d"
  shows "dict_ok (fold (\<lambda>x d. dict_set x v d) xs d) \<and>
     set (dict_keys (fold (\<lambda>x d. dict_set x v d) xs d)) = set (dict_keys d) \<union> set xs"
  using assms by (induction xs arbitrary: d) (auto simp: dict_keys_def)

lemma reverse_dict_fold:
  "map_of (fold (\<lambda>(key, value) result. dict_set value key result) kvs d) =
     map_of d ++ map_of (rev (map prod.swap kvs))"
  by (induction kvs arbitrary: d) auto

lemma reverse_dict_lookup:
  assumes "dict_iteration ord" "dict_ok d" "inj_on (map_of d) (dom (map_of d))"
  shows "map_of (reverse_dict ord d) v = Some k \<longleftrightarrow> map_of d k = Some v"
proof -
  let ?kvs = "dict_items ord d"
  have keys: "set (ord (dict_keys d)) = dom (map_of d)" "distinct (ord (dict_keys d))"
    using dict_iteration.ord_set [OF assms(1)] dict_iteration.ord_distinct [OF assms(1)] assms(2)
    by (simp_all add: dict_keys_def dict_ok_def dom_map_of_conv_image_fst)
  have "inj_on (\<lambda>k. the (map_of d k)) (dom (map_of d))"
    by (rule inj_onI, rule inj_onD [OF assms(3)]) auto
  then have "distinct (map (\<lambda>k. the (map_of d k)) (ord (dict_keys d)))"
    using keys by (simp add: distinct_map)
  then have "distinct (map fst (rev (map prod.swap ?kvs)))"
    by (simp add: dict_items_def comp_def flip: rev_map)
  then have "map_of (rev (map prod.swap ?kvs)) v = Some k \<longleftrightarrow> (v, k) \<in> set (rev (map prod.swap ?kvs))"
    by (rule map_of_eq_Some_iff)
  also have "\<dots> \<longleftrightarrow> map_of d k = Some v"
    using keys(1) by (force simp: dict_items_def)
  finally show ?thesis by (simp add: reverse_dict_def reverse_dict_fold)
qed

section \<open>Arithmetic progressions\<close>

lemma float_range_loop_result:
  assumes "0 < step"
  shows "float_range_loop stop step cur l =
     Some (l @ map (\<lambda>k. cur + of_nat k * step) [0..<nat \<lceil>(stop - cur) / step\<rceil>])"
proof (induction "nat \<lceil>(stop - cur) / step\<rceil>" arbitrary: cur l)
  case 0
  then have "\<not> cur < stop"
    using assms by (auto simp: ceiling_le_iff divide_le_0_iff)
  with 0 show ?case by (subst float_range_loop.simps) simp
next
  case (Suc n)
  then have "0 < (stop - cur) / step" by (metis ceiling_le_zero linorder_not_le nat_0_iff nat.distinct(1))
  then have go: "cur < stop" using assms by (simp add: zero_less_divide_iff)
  have "(stop - (cur + step)) / step = (stop - cur) / step - 1"
    using assms by (simp add: field_simps)
  then have n: "n = nat \<lceil>(stop - (cur + step)) / step\<rceil>" using Suc.hyps(2) by simp
  have "[0..<Suc n] = 0 # map Suc [0..<n]" by (simp add: map_Suc_upt upt_conv_Cons)
  then show ?case
    using go Suc.hyps(1) [OF n, of "l @ [cur]"] n Suc.hyps(2)
    by (subst float_range_loop.simps) (simp add: algebra_simps comp_def del: upt_Suc)
qed

lemma float_range_loop_diverges:
  assumes "float_range_loop stop step cur l = Some r"
  shows "\<not> (step \<le> 0 \<and> cur < stop)"
proof (rule float_range_loop.raw_induct
    [where P = "\<lambda>stop step cur l r. \<not> (step \<le> 0 \<and> cur < stop)", OF _ assms])
  fix f and stop step cur :: rat and l r :: "rat list"
  assume IH: "\<And>stop step cur l r. f stop step cur l = Some r \<Longrightarrow> \<not> (step \<le> 0 \<and> cur < stop)"
    and eq: "(if cur < stop then f stop step (cur + step) (l @ [cur]) else Some l) = Some r"
  show "\<not> (step \<le> 0 \<and> cur < stop)"
  proof
    assume down: "step \<le> 0 \<and> cur < stop"
    with eq have "f stop step (cur + step) (l @ [cur]) = Some r" by simp
    from IH [OF this] down show False by auto
  qed
qed

section \<open>Common prefix and suffix\<close>

lemma common_prefix_step:
  "i < n \<Longrightarrow> s1 ! i = s2 ! i \<Longrightarrow>
     common_prefix_loop s1 s2 n i p = common_prefix_loop s1 s2 n (i + 1) (p @ [s1 ! i])"
  "i < n \<Longrightarrow> s1 ! i \<noteq> s2 ! i \<Longrightarrow> common_prefix_loop s1 s2 n i p = p"
  "\<not> i < n \<Longrightarrow> common_prefix_loop s1 s2 n i p = p"
  by (subst common_prefix_loop.simps; simp)+

lemma common_suffix_step:
  "i < n + 1 \<Longrightarrow> s1 ! (length s1 - i) = s2 ! (length s2 - i) \<Longrightarrow>
     common_suffix_loop s1 s2 n i p = common_suffix_loop s1 s2 n (i + 1) (p @ [s1 ! (length s1 - i)])"
  "i < n + 1 \<Longrightarrow> s1 ! (length s1 - i) \<noteq> s2 ! (length s2 - i) \<Longrightarrow> common_suffix_loop s1 s2 n i p = p"
  "\<not> i < n + 1 \<Longrightarrow> common_suffix_loop s1 s2 n i p = p"
  by (subst common_suffix_loop.simps; simp)+

text \<open>What the loop computes: the longest common prefix of the two strings.\<close>

fun lcp :: "'a list \<Rightarrow> 'a list \<Rightarrow> 'a list" where
  "lcp (x # xs) (y # ys) = (if x = y then x # lcp xs ys else [])"
| "lcp _ _ = []"

lemma common_prefix_lcp:
  assumes "i \<le> min (length s1) (length s2)"
  shows "common_prefix_loop s1 s2 (min (length s1) (length s2)) i p = p @ lcp (drop i s1) (drop i s2)"
  using assms
proof (induction "min (length s1) (length s2) - i" arbitrary: i p)
  case 0
  then have "drop i s1 = [] \<or> drop i s2 = []" by auto
  with 0 show ?case by (auto simp: common_prefix_step)
next
  case (Suc k)
  then have i: "i < min (length s1) (length s2)" by linarith
  then have d: "drop i s1 = s1 ! i # drop (i + 1) s1" "drop i s2 = s2 ! i # drop (i + 1) s2"
    by (simp_all add: Cons_nth_drop_Suc)
  have "common_prefix_loop s1 s2 (min (length s1) (length s2)) (i + 1) q =
      q @ lcp (drop (i + 1) s1) (drop (i + 1) s2)" for q
    using Suc i by (intro Suc.hyps(1)) auto
  with i d show ?case by (cases "s1 ! i = s2 ! i") (simp_all add: common_prefix_step)
qed

lemma common_suffix_lcp:
  assumes "1 \<le> i" "i \<le> min (length s1) (length s2) + 1"
  shows "common_suffix_loop s1 s2 (min (length s1) (length s2)) i p =
     p @ lcp (drop (i - 1) (rev s1)) (drop (i - 1) (rev s2))"
  using assms
proof (induction "min (length s1) (length s2) + 1 - i" arbitrary: i p)
  case 0
  then have "drop (i - 1) (rev s1) = [] \<or> drop (i - 1) (rev s2) = []" by auto
  with 0 show ?case by (auto simp: common_suffix_step)
next
  case (Suc k)
  then have i: "1 \<le> i" "i < min (length s1) (length s2) + 1" by simp_all
  have "drop (i - 1) (rev s) = s ! (length s - i) # drop i (rev s)" if "i \<le> length s" for s :: string
    using that i(1) by (subst Cons_nth_drop_Suc [symmetric]) (auto simp: rev_nth)
  then have d: "drop (i - 1) (rev s1) = s1 ! (length s1 - i) # drop i (rev s1)"
    "drop (i - 1) (rev s2) = s2 ! (length s2 - i) # drop i (rev s2)"
    using i by auto
  have "common_suffix_loop s1 s2 (min (length s1) (length s2)) (i + 1) q =
      q @ lcp (drop (i + 1 - 1) (rev s1)) (drop (i + 1 - 1) (rev s2))" for q
    using Suc i by (intro Suc.hyps(1)) auto
  with i d show ?case
    by (cases "s1 ! (length s1 - i) = s2 ! (length s2 - i)") (simp_all add: common_suffix_step)
qed

lemma lcp_split:
  "\<exists>a b. xs = lcp xs ys @ a \<and> ys = lcp xs ys @ b \<and> (a = [] \<or> b = [] \<or> hd a \<noteq> hd b)"
  by (induction xs ys rule: lcp.induct) auto

lemma find_common_fixes_lcp:
  "find_common_fixes s1 s2 = (lcp s1 s2, rev (lcp (rev s1) (rev s2)))"
  using common_prefix_lcp [of 0 s1 s2 "[]"] common_suffix_lcp [of 1 s1 s2 "[]"]
  by (simp add: find_common_fixes_def Let_def)

section \<open>Rounding to a grid\<close>

lemma num_div_floor:
  assumes "0 \<le> num_val a" "0 < num_val b" "num_div a b = Inr q"
  shows "num_int q = \<lfloor>num_val a / num_val b\<rfloor>"
proof (cases "(a, b)" rule: num_div.cases)
  case (1 i j)
  with assms show ?thesis by (auto simp: num_int_def floor_divide_of_int_eq)
qed (use assms in \<open>auto simp: num_int_def rat_trunc_def split: if_splits\<close>)

lemma round_grid_ok:
  assumes "0 \<le> num_val v" "0 < num_val g"
  obtains off q where "num_mod v g = Inr off" "num_div v g = Inr q"
    "num_val v = of_int (num_int q) * num_val g + num_val off"
    "0 \<le> num_val off" "num_val off < num_val g"
proof -
  obtain off q where "num_mod v g = Inr off" "num_div v g = Inr q"
    using num_mod_ok [of g v] num_div_ok [of g v] assms(2) by fastforce
  with that assms num_mod_value [of v g off] num_mod_bound [of v g off] num_div_floor [of v g q]
  show ?thesis by (simp add: algebra_simps)
qed

lemma num_div_half: "num_div g (PFloat 2) = Inr (PFloat (num_val g / 2))"
  by (cases g) simp_all

section \<open>Command-line arguments\<close>

lemma get_args_loop_args:
  "snd (get_args_loop argv d args) = args @ filter (\<lambda>arg. \<not> startswith arg ''-'') argv"
  by (induction argv d args rule: get_args_loop.induct) (auto simp: Let_def)

lemma get_args_loop_append:
  "get_args_loop (xs @ ys) d args = (case get_args_loop xs d args of (d', args') \<Rightarrow> get_args_loop ys d' args')"
  by (induction xs d args rule: get_args_loop.induct) (auto simp: Let_def)

definition option_name :: "string \<Rightarrow> string" where
  "option_name arg = hd (split_on (CHR ''='') (dropWhile (\<lambda>c. c = CHR ''-'') arg))"

lemma get_args_loop_other:
  assumes "\<forall>arg \<in> set argv. startswith arg ''-'' \<longrightarrow> option_name arg \<noteq> k"
  shows "map_of (fst (get_args_loop argv d args)) k = map_of d k"
  using assms
proof (induction argv d args rule: get_args_loop.induct)
  case (2 arg argv d args)
  have "parts ! 0 = hd parts" if "parts = split_on (CHR ''='') (dropWhile (\<lambda>c. c = CHR ''-'') arg)" for parts
    using that by (simp add: hd_conv_nth)
  then show ?case
    using 2 by (cases "startswith arg ''-''") (auto simp: Let_def option_name_def)
qed simp

section \<open>Properties\<close>

text \<open>\<^verbatim>\<open>gcf\<close> computes the greatest common divisor of two integers, of any sign, and \<^verbatim>\<open>lcm\<close>
  their least common multiple up to its sign.\<close>

theorem gcf_lcm_correct:
  "gcf a b default_epsilon = gcd a b \<and> \<bar>lcm_of a b\<bar> = lcm a b"
proof -
  have g: "gcf a b default_epsilon = gcd a b" by (rule gcf_gcd) simp
  have "\<bar>a * (b div gcd a b)\<bar> = \<bar>a\<bar> * (\<bar>b\<bar> div gcd a b)"
    by (simp add: abs_mult abs_div)
  also have "\<dots> = lcm a b"
    by (simp add: lcm_altdef_int div_mult_swap)
  finally show ?thesis using g by (auto simp: lcm_of_def Let_def)
qed

text \<open>\<^verbatim>\<open>reduce_fraction\<close> returns coprime terms with the same ratio, and raises only on 0/0.\<close>

theorem reduce_fraction_correct:
  "reduce_fraction (n, d) =
     (if n = 0 \<and> d = 0 then Inl ZeroDivisionError else Inr (n div gcd n d, d div gcd n d)) \<and>
   (n \<noteq> 0 \<or> d \<noteq> 0 \<longrightarrow> coprime (n div gcd n d) (d div gcd n d))"
  by (auto simp: reduce_fraction_def Let_def gcf_gcd intro: div_gcd_coprime)

text \<open>\<^verbatim>\<open>permutations\<close> lists exactly the rearrangements of its input, as many as the factorial of
  its length, each once when the items differ.\<close>

theorem permutations_correct:
  "set (permutations xs) = {ys. mset ys = mset xs} \<and> length (permutations xs) = fact (length xs) \<and>
   (distinct xs \<longrightarrow> distinct (permutations xs))"
  by (auto simp: permutations_mset length_permutations distinct_permutations)

text \<open>\<^verbatim>\<open>is_rotated\<close> answers, for a non-empty second sequence, whether it is a rotation of the first.\<close>

theorem is_rotated_correct:
  assumes "seq2 \<noteq> []"
  shows "is_rotated seq1 seq2 = Inr (\<exists>n. seq2 = rotate n seq1)"
  using assms by (rule is_rotated_nonempty)

text \<open>On integer vertices and an even non-zero precision, \<^verbatim>\<open>polygon_area\<close> returns the exact area
  given by the shoelace formula on the closed polygon.\<close>

theorem polygon_area_exact:
  assumes "ps \<noteq> []" "k \<noteq> 0" "even k"
  shows "\<exists>closed. polygon_area (rat_points ps) k = Inr (closed, of_int \<bar>shoelace (close_polygon ps) 0\<bar> / 2)"
proof -
  obtain j where j: "k = 2 * j" using assms(3) by (elim evenE)
  have "map (scale_point k) (rat_points ps) = map (\<lambda>(x, y). (k * x, k * y)) ps"
    by (auto simp: scale_point_of_int)
  moreover have "shoelace (map (\<lambda>(x, y). (k * x, k * y)) (close_polygon ps)) 0 div 2 =
      2 * j ^ 2 * shoelace (close_polygon ps) 0"
    by (simp add: shoelace_scale j power2_eq_square)
  ultimately have "polygon_area (rat_points ps) k =
      Inr (map (\<lambda>(x, y). (k * x, k * y)) (close_polygon ps),
           of_int \<bar>2 * j ^ 2 * shoelace (close_polygon ps) 0\<bar> / of_int (k ^ 2))"
    using assms by (simp add: polygon_area_def Let_def close_polygon_scale del: map_map)
  moreover have "of_int \<bar>2 * j ^ 2 * shoelace (close_polygon ps) 0\<bar> / of_int (k ^ 2) =
      (of_int \<bar>shoelace (close_polygon ps) 0\<bar> / 2 :: rat)"
    using assms(2) by (simp add: j abs_mult power2_eq_square)
  ultimately show ?thesis by auto
qed

theorem polygon_area_orientation:
  "map_sum id snd (polygon_area [(0, 0), (1 / 100, 0), (0, 1 / 100)] 100) = Inr (1 / 10000)"
  "map_sum id snd (polygon_area (rev [(0, 0), (1 / 100, 0), (0, 1 / 100)]) 100) = Inr 0"
  by code_simp+

text \<open>\<^verbatim>\<open>trim\<close> of a non-empty list keeps, sorted, exactly the items within one and a half
  inter-quartile ranges of the quartiles, so every item between the quartiles is kept.\<close>

theorem trim_correct:
  assumes "l \<noteq> []"
  shows "\<exists>t q1 q3. trim l = Inr t \<and> quantile l (1 / 4) = Inr q1 \<and> quantile l (3 / 4) = Inr q3 \<and>
    sorted t \<and> mset t \<subseteq># mset l \<and>
    (\<forall>x. x \<in> set t \<longleftrightarrow> x \<in> set l \<and> q1 - 3 / 2 * (q3 - q1) \<le> x \<and> x \<le> q3 + 3 / 2 * (q3 - q1)) \<and>
    (\<forall>x \<in> set l. q1 \<le> x \<and> x \<le> q3 \<longrightarrow> x \<in> set t)"
proof -
  obtain t q1 q3 where t: "trim l = Inr t" "quantile l (1 / 4) = Inr q1" "quantile l (3 / 4) = Inr q3"
    "t = filter (\<lambda>x. q1 - (q3 - q1) * (3 / 2) \<le> x \<and> x \<le> q3 + (q3 - q1) * (3 / 2)) (sort l)" "q1 \<le> q3"
    using trim_spec [OF assms] by (elim exE conjE) (rule that)
  have "sorted t" using t(4) by (simp add: sorted_wrt_filter)
  moreover have "mset t \<subseteq># mset l"
    using t(4) by (simp add: multiset_filter_subset)
  moreover have mem: "x \<in> set t \<longleftrightarrow> x \<in> set l \<and> q1 - 3 / 2 * (q3 - q1) \<le> x \<and> x \<le> q3 + 3 / 2 * (q3 - q1)" for x
    using t(4) by (simp only: set_filter set_sort mem_Collect_eq mult.commute)
  moreover have "x \<in> set t" if "x \<in> set l" "q1 \<le> x" "x \<le> q3" for x
  proof -
    have "0 \<le> 3 / 2 * (q3 - q1)" using t(5) by simp
    with that show ?thesis unfolding mem by linarith
  qed
  ultimately show ?thesis using t(1-3) by blast
qed

text \<open>\<^verbatim>\<open>uniquify\<close> returns each item of its argument exactly once; when order is preserved (or the items
  are not hashable) it keeps the first occurrences in order.\<close>

theorem uniquify_correct:
  assumes "iteration_order ord"
  shows "distinct (uniquify ord hashable sq preserve) \<and>
    set (uniquify ord hashable sq preserve) = set sq \<and>
    (preserve \<or> \<not> hashable \<longrightarrow> uniquify ord hashable sq preserve = rev (remdups (rev sq)))"
proof -
  have ord: "dict_iteration ord" using assms by (simp add: iteration_order_locale)
  show ?thesis
    using fold_dict_set_keys [of "[]" 0 sq]
    by (auto simp: uniquify_def uniquify_slow_scan uniquify_scan_remdups dict_keys_def dict_ok_def
        dict_iteration.ord_set [OF ord] dict_iteration.ord_distinct [OF ord])
qed

text \<open>\<^verbatim>\<open>reverse_dict\<close> of a dictionary with distinct values is its inverse mapping.\<close>

theorem reverse_dict_correct:
  assumes "iteration_order ord" "dict_ok d" "inj_on (map_of d) (dom (map_of d))"
  shows "map_of (reverse_dict ord d) v = Some k \<longleftrightarrow> map_of d k = Some v"
  using assms by (simp add: iteration_order_locale reverse_dict_lookup)

text \<open>\<^verbatim>\<open>float_range\<close> with a positive step returns the arithmetic progression of the half-open interval,
  and with a step that is not positive it never returns when start is below stop.\<close>

theorem float_range_correct:
  "(0 < step \<longrightarrow> float_range start (Some stop) (Some step) =
      Some (map (\<lambda>k. start + of_nat k * step) [0..<nat \<lceil>(stop - start) / step\<rceil>])) \<and>
   (step \<le> 0 \<and> start < stop \<longrightarrow> float_range start (Some stop) (Some step) = None)"
proof -
  have "float_range_loop stop step start [] = None" if "step \<le> 0" "start < stop"
    using float_range_loop_diverges [of stop step start "[]"] that
    by (cases "float_range_loop stop step start []") auto
  then show ?thesis by (simp add: float_range_def float_range_loop_result)
qed

text \<open>\<^verbatim>\<open>find_common_fixes\<close> returns a common prefix and a common suffix of its arguments that cannot
  be extended.\<close>

theorem find_common_fixes_longest:
  assumes "find_common_fixes s1 s2 = (prefix, suffix)"
  shows "(\<exists>a b. s1 = prefix @ a \<and> s2 = prefix @ b \<and> (a = [] \<or> b = [] \<or> hd a \<noteq> hd b)) \<and>
         (\<exists>a b. s1 = a @ suffix \<and> s2 = b @ suffix \<and> (a = [] \<or> b = [] \<or> last a \<noteq> last b))"
proof -
  have p: "prefix = lcp s1 s2" and q: "suffix = rev (lcp (rev s1) (rev s2))"
    using assms by (simp_all add: find_common_fixes_lcp)
  obtain a b where "rev s1 = lcp (rev s1) (rev s2) @ a" "rev s2 = lcp (rev s1) (rev s2) @ b"
      "a = [] \<or> b = [] \<or> hd a \<noteq> hd b"
    using lcp_split [of "rev s1" "rev s2"] by blast
  from arg_cong [OF this(1), of rev] arg_cong [OF this(2), of rev] this(3)
  have "s1 = rev a @ suffix" "s2 = rev b @ suffix"
      "rev a = [] \<or> rev b = [] \<or> last (rev a) \<noteq> last (rev b)"
    by (simp_all add: q last_rev)
  moreover have "\<exists>a b. s1 = prefix @ a \<and> s2 = prefix @ b \<and> (a = [] \<or> b = [] \<or> hd a \<noteq> hd b)"
    unfolding p by (rule lcp_split)
  ultimately show ?thesis by metis
qed

text \<open>\<^verbatim>\<open>round_grid\<close> in its nearest mode returns a multiple of the grid at distance at most half a
  grid step, for a non-negative value and a positive grid, integer or float.\<close>

theorem round_grid_nearest:
  assumes "0 \<le> num_val v" "0 < num_val g"
  shows "\<exists>r k. round_grid v g 0 = Inr r \<and> num_val r = of_int k * num_val g \<and>
           \<bar>num_val r - num_val v\<bar> \<le> num_val g / 2"
proof -
  obtain off q where *: "num_mod v g = Inr off" "num_div v g = Inr q"
    "num_val v = of_int (num_int q) * num_val g + num_val off"
    "0 \<le> num_val off" "num_val off < num_val g"
    using round_grid_ok [OF assms] .
  define k where "k = num_int q + (if num_val g / 2 \<le> num_val off then 1 else 0)"
  have "round_grid v g 0 = Inr (num_mul (PInt k) g)"
    using *(1,2) by (simp add: round_grid_def num_div_half num_le_def k_def)
  moreover have "\<bar>of_int k * num_val g - num_val v\<bar> \<le> num_val g / 2"
    using *(3-5) by (auto simp: k_def algebra_simps)
  ultimately show ?thesis by auto
qed

text \<open>On an exact multiple of the grid the directed modes leave \<^verbatim>\<open>add_one\<close> unassigned.\<close>

theorem round_grid_directed_on_grid:
  assumes "0 < g" "mode = 1 \<or> mode = - 1"
  shows "round_grid (PInt (k * g)) (PInt g) mode = Inl UnboundLocalError"
  using assms by (auto simp: round_grid_def)

theorem round_grid_negative_float: "round_grid (PFloat (- 37 / 5)) (PInt 5) 0 = Inr (PInt 0)"
  by code_simp

text \<open>\<^verbatim>\<open>get_args\<close> collects under the key args, in order, the arguments that do not start with a dash,
  and binds the name of an option \<^verbatim>\<open>--k=v\<close> to its value when no later option has that name.\<close>

theorem get_args_correct:
  "map_of (get_args argv) ''args'' = Some (ArgList (filter (\<lambda>arg. \<not> startswith arg ''-'') argv)) \<and>
   (\<forall>pre post k v. argv = pre @ [''--'' @ k @ ''='' @ v] @ post \<and> k \<noteq> [] \<and> hd k \<noteq> CHR ''-'' \<and>
      CHR ''='' \<notin> set k \<and> CHR ''='' \<notin> set v \<and> k \<noteq> ''args'' \<and>
      (\<forall>arg \<in> set post. startswith arg ''-'' \<longrightarrow> option_name arg \<noteq> k) \<longrightarrow>
      map_of (get_args argv) k = Some (ArgStr v))"
proof (intro conjI allI impI)
  show "map_of (get_args argv) ''args'' = Some (ArgList (filter (\<lambda>arg. \<not> startswith arg ''-'') argv))"
    using get_args_loop_args [of argv "[]" "[]"] by (auto simp: get_args_def split: prod.splits)
next
  fix pre post k v
  assume *: "argv = pre @ [''--'' @ k @ ''='' @ v] @ post \<and> k \<noteq> [] \<and> hd k \<noteq> CHR ''-'' \<and>
      CHR ''='' \<notin> set k \<and> CHR ''='' \<notin> set v \<and> k \<noteq> ''args'' \<and>
      (\<forall>arg \<in> set post. startswith arg ''-'' \<longrightarrow> option_name arg \<noteq> k)"
  obtain d args where pre: "get_args_loop pre [] [] = (d, args)" by force
  have "dropWhile (\<lambda>c. c = CHR ''-'') (''--'' @ k @ ''='' @ v) = k @ CHR ''='' # v"
    using * by (cases k) auto
  then have "split_on (CHR ''='') (dropWhile (\<lambda>c. c = CHR ''-'') (''--'' @ k @ ''='' @ v)) = [k, v]"
    using * by (simp add: split_on_append_sep split_on_no_sep)
  then have "get_args_loop [''--'' @ k @ ''='' @ v] d args = (dict_set k (ArgStr v) d, args)"
    by simp
  then have "get_args_loop argv [] [] = get_args_loop post (dict_set k (ArgStr v) d) args"
    using * pre by (simp only: get_args_loop_append prod.case)
  then show "map_of (get_args argv) k = Some (ArgStr v)"
    using * get_args_loop_other [of post k "dict_set k (ArgStr v) d" args]
    by (cases "get_args_loop argv [] []") (simp add: get_args_def)
qed

section \<open>Concrete instances\<close>

theorem permutations_correct_witness:
  "distinct [1, 2, 3 :: int] \<and> length (permutations [1, 2, 3 :: int]) = 6 \<and>
   distinct (permutations [1, 2, 3 :: int])"
  using permutations_correct [of "[1, 2, 3 :: int]"] by (simp add: fact_numeral)

theorem is_rotated_correct_witness:
  "is_rotated [1, 2, 3] [3, 1, 2 :: int] = Inr True \<and>
   (\<exists>n. [3, 1, 2 :: int] = rotate n [1, 2, 3])"
proof -
  have "is_rotated [1, 2, 3] [3, 1, 2 :: int] = Inr True" by code_simp
  with is_rotated_correct [of "[3, 1, 2 :: int]" "[1, 2, 3]"] show ?thesis by simp
qed

theorem polygon_area_exact_witness:
  "map_sum id snd (polygon_area (rat_points [(0, 0), (4, 0), (0, 3)]) 100) = Inr 6"
proof -
  have "shoelace (close_polygon [(0, 0), (4, 0), (0, 3)]) 0 = - 12" by code_simp
  with polygon_area_exact [of "[(0, 0), (4, 0), (0, 3)]" 100] show ?thesis by auto
qed

theorem trim_correct_witness:
  "\<exists>t. trim [1, 2, 3, 4, 100] = Inr t \<and> sorted t \<and> mset t \<subseteq># mset [1, 2, 3, 4, 100]"
proof -
  have "[1, 2, 3, 4, 100 :: rat] \<noteq> []" by simp
  from trim_correct [OF this] show ?thesis by blast
qed

theorem uniquify_correct_witness:
  "uniquify id True [3, 1, 3, 2, 1 :: int] True = [3, 1, 2] \<and>
   distinct (uniquify id True [3, 1, 3, 2, 1 :: int] False)"
  using uniquify_correct [OF iteration_order_id, of True "[3, 1, 3, 2, 1 :: int]" True]
    uniquify_correct [OF iteration_order_id, of True "[3, 1, 3, 2, 1 :: int]" False]
  by simp

theorem reverse_dict_correct_witness:
  "map_of (reverse_dict id [(1 :: int, CHR ''a''), (2, CHR ''b'')]) (CHR ''b'') = Some 2"
  using reverse_dict_correct [OF iteration_order_id, of "[(1 :: int, CHR ''a''), (2, CHR ''b'')]" "CHR ''b''" 2]
  by (simp add: dict_ok_def inj_on_def)

theorem float_range_correct_witness:
  "float_range 0 (Some 2) (Some (1 / 2)) = Some [0, 1 / 2, 1, 3 / 2]"
proof -
  have "[0..<4] = [0, 1, 2, 3 :: nat]" by code_simp
  then show ?thesis using float_range_correct [of "1 / 2" 0 2] by simp
qed

theorem find_common_fixes_longest_witness:
  "find_common_fixes ''abcxyz'' ''abxyz'' = (''ab'', ''xyz'') \<and>
   (\<exists>a b. ''abcxyz'' = ''ab'' @ a \<and> ''abxyz'' = ''ab'' @ b \<and> (a = [] \<or> b = [] \<or> hd a \<noteq> hd b))"
proof -
  have "find_common_fixes ''abcxyz'' ''abxyz'' = (''ab'', ''xyz'')" by code_simp
  with find_common_fixes_longest [OF this] show ?thesis by blast
qed

theorem round_grid_nearest_witness:
  "\<exists>r k. round_grid (PFloat (37 / 5)) (PInt 5) 0 = Inr r \<and> num_val r = of_int k * 5 \<and>
         \<bar>num_val r - 37 / 5\<bar> \<le> 5 / 2"
  using round_grid_nearest [of "PFloat (37 / 5)" "PInt 5"] by simp

theorem get_args_correct_witness:
  "map_of (get_args [''x'', ''--depth=3'', ''y'']) ''depth'' = Some (ArgStr ''3'') \<and>
   map_of (get_args [''x'', ''--depth=3'', ''y'']) ''args'' = Some (ArgList [''x'', ''y''])"
proof -
  have "map_of (get_args [''x'', ''--depth=3'', ''y'']) ''depth'' = Some (ArgStr ''3'')"
    by (rule conjunct2 [OF get_args_correct [of "[''x'', ''--depth=3'', ''y'']"], rule_format,
          of "[''x'']" "''depth''" "''3''" "[''y'']"]) (simp add: startswith_def)
  then show ?thesis
    using get_args_correct [of "[''x'', ''--depth=3'', ''y'']"] by (simp add: startswith_def)
qed

end
