(* ===== verification/Topsort.thy ===== *)
theory Topsort
  imports RadUtil
begin

text \<open>
  bindings/python/topsort.py: topological sort of a list of (parent, child) pairs, the same by
  dependency levels, and the enumeration of the cycles of a graph. \<open>num_parents\<close> and \<open>children\<close> are
  dictionaries as in the code; the order in which Python lists the keys of a dictionary is an
  argument. A generator is modelled by the list of the values it yields and how it ends.
\<close>

section \<open>Definitions\<close>

type_synonym 'a parent_counts = "('a, int) dict"
type_synonym 'a child_lists = "('a, 'a list) dict"

datatype 'a topsort_error =
    TopsortExn py_exn
  | CycleError "'a list" "'a parent_counts" "'a child_lists"

definition touch :: "'a \<Rightarrow> 'a parent_counts \<Rightarrow> 'a parent_counts" where
  "touch x num_parents = (if has_key num_parents x then num_parents else dict_set x 0 num_parents)"

definition add_pair ::
    "'a \<times> 'a \<Rightarrow> 'a parent_counts \<times> 'a child_lists \<Rightarrow> ('a parent_counts \<times> 'a child_lists) res"
where
  "add_pair pair st =
     (case pair of (parent, child) \<Rightarrow> case st of (num_parents, children) \<Rightarrow>
        let num_parents = touch child (touch parent num_parents)
        in rbind (dict_get num_parents child)
             (\<lambda>n. Inr (dict_set child (n + 1) num_parents,
                        dict_set parent (dict_get_default children parent [] @ [child]) children)))"

definition count_parents :: "('a \<times> 'a) list \<Rightarrow> ('a parent_counts \<times> 'a child_lists) res" where
  "count_parents pairlist = rfold add_pair pairlist ([], [])"

definition orphans :: "('a list \<Rightarrow> 'a list) \<Rightarrow> 'a parent_counts \<Rightarrow> 'a list" where
  "orphans ord num_parents =
     filter (\<lambda>x. map_of num_parents x = Some 0) (ord (dict_keys num_parents))"

text \<open>The loop over \<^verbatim>\<open>children[parent]\<close>: it lowers the counts and appends to \<^verbatim>\<open>answer\<close>.\<close>

fun knock_down ::
    "'a list \<Rightarrow> 'a parent_counts \<Rightarrow> 'a list \<Rightarrow> ('a parent_counts \<times> 'a list) res"
where
  "knock_down [] num_parents pending = Inr (num_parents, pending)"
| "knock_down (child # cs) num_parents pending =
     rbind (dict_get num_parents child)
       (\<lambda>n. knock_down cs (dict_set child (n - 1) num_parents)
              (if n - 1 = 0 then pending @ [child] else pending))"

definition accept_parent ::
    "'a \<Rightarrow> 'a list \<Rightarrow> 'a parent_counts \<Rightarrow> 'a child_lists \<Rightarrow>
     ('a list \<times> 'a parent_counts \<times> 'a child_lists) res"
where
  "accept_parent parent pending num_parents children =
     rbind (dict_del parent num_parents)
       (\<lambda>num_parents.
          if has_key children parent
          then rbind (dict_get children parent)
                 (\<lambda>cs. rbind (knock_down cs num_parents pending)
                    (\<lambda>(num_parents, pending). rbind (dict_del parent children)
                       (\<lambda>children. Inr (pending, num_parents, children))))
          else Inr (pending, num_parents, children))"

lemma length_dict_set_has_key: "has_key d k \<Longrightarrow> length (dict_set k v d) = length d"
  by (induction d) (auto simp: dict_set_def has_key_def)

lemma knock_down_length:
  "knock_down cs np pending = Inr (np', pending') \<Longrightarrow> length np' = length np"
  by (induction cs np pending rule: knock_down.induct)
     (auto simp: rbind_def dict_get_def has_key_def length_dict_set_has_key
       split: sum.splits option.splits)

lemma accept_parent_shrinks:
  "accept_parent x pending np ch = Inr (pending', np', ch') \<Longrightarrow> length np' < length np"
  using length_delete_has_key [of np x]
  by (auto simp: accept_parent_def rbind_def dict_del_def dest: knock_down_length
      split: sum.splits if_splits)

text \<open>
  \<^verbatim>\<open>answer\<close> grows while it is traversed: \<open>finished\<close> is the part already traversed, \<open>pending\<close> the rest.
\<close>

function topsort_loop ::
    "'a list \<Rightarrow> 'a list \<Rightarrow> 'a parent_counts \<Rightarrow> 'a child_lists \<Rightarrow> 'a topsort_error + 'a list"
where
  "topsort_loop finished [] num_parents children =
     (if num_parents \<noteq> [] then Inl (CycleError finished num_parents children) else Inr finished)"
| "topsort_loop finished (parent # pending) num_parents children =
     (case accept_parent parent pending num_parents children of
        Inl e \<Rightarrow> Inl (TopsortExn e)
      | Inr (pending, num_parents, children) \<Rightarrow>
          topsort_loop (finished @ [parent]) pending num_parents children)"
  by pat_completeness auto
termination
  by (relation "measure (\<lambda>(finished, pending, num_parents, children). length num_parents)")
     (auto dest: accept_parent_shrinks)

definition topsort :: "('a list \<Rightarrow> 'a list) \<Rightarrow> ('a \<times> 'a) list \<Rightarrow> 'a topsort_error + 'a list" where
  "topsort ord pairlist =
     (case count_parents pairlist of
        Inl e \<Rightarrow> Inl (TopsortExn e)
      | Inr (num_parents, children) \<Rightarrow>
          topsort_loop [] (orphans ord num_parents) num_parents children)"

text \<open>How the generator \<^verbatim>\<open>topsort_levels_core\<close> ends.\<close>

datatype 'a levels_end =
    StopIteration
  | LevelsCycle "'a parent_counts" "'a child_lists"
  | LevelsExn py_exn

fun lower_counts :: "'a list \<Rightarrow> 'a parent_counts \<Rightarrow> 'a parent_counts res" where
  "lower_counts [] num_parents = Inr num_parents"
| "lower_counts (child # cs) num_parents =
     rbind (dict_get num_parents child) (\<lambda>n. lower_counts cs (dict_set child (n - 1) num_parents))"

fun retire_level ::
    "'a list \<Rightarrow> 'a parent_counts \<Rightarrow> 'a child_lists \<Rightarrow> ('a parent_counts \<times> 'a child_lists) res"
where
  "retire_level [] num_parents children = Inr (num_parents, children)"
| "retire_level (level_parent # level_parents) num_parents children =
     rbind (dict_del level_parent num_parents)
       (\<lambda>num_parents.
          if has_key children level_parent
          then rbind (dict_get children level_parent)
                 (\<lambda>cs. rbind (lower_counts cs num_parents)
                    (\<lambda>num_parents. rbind (dict_del level_parent children)
                       (\<lambda>children. retire_level level_parents num_parents children)))
          else retire_level level_parents num_parents children)"

lemma lower_counts_knock_down:
  "lower_counts cs np = map_sum id fst (knock_down cs np pending)"
  by (induction cs arbitrary: np pending) (auto simp: rbind_def split: sum.splits)

lemma retire_level_accept:
  "retire_level (x # xs) np ch =
     rbind (accept_parent x [] np ch) (\<lambda>(pending, np, ch). retire_level xs np ch)"
  by (auto simp: accept_parent_def rbind_def lower_counts_knock_down [of _ _ "[]"] split: sum.splits)

lemma retire_level_shrinks:
  "retire_level xs np ch = Inr (np', ch') \<Longrightarrow> length np' + length xs \<le> length np"
proof (induction xs arbitrary: np ch)
  case (Cons x xs)
  then obtain pending np1 ch1 where "accept_parent x [] np ch = Inr (pending, np1, ch1)"
    and "retire_level xs np1 ch1 = Inr (np', ch')"
    unfolding retire_level_accept by (auto simp: rbind_def split: sum.splits)
  with Cons.IH [of np1 ch1] accept_parent_shrinks show ?case by fastforce
qed simp

function topsort_levels_core ::
    "('a list \<Rightarrow> 'a list) \<Rightarrow> 'a parent_counts \<Rightarrow> 'a child_lists \<Rightarrow> 'a list list \<times> 'a levels_end"
where
  "topsort_levels_core ord num_parents children =
     (let level_parents = orphans ord num_parents
      in if level_parents = []
         then ([], if num_parents \<noteq> [] then LevelsCycle num_parents children else StopIteration)
         else
           (case retire_level level_parents num_parents children of
              Inl e \<Rightarrow> ([level_parents], LevelsExn e)
            | Inr (num_parents, children) \<Rightarrow>
                apfst ((#) level_parents) (topsort_levels_core ord num_parents children)))"
  by pat_completeness auto
termination
proof (relation "measure (\<lambda>(ord, num_parents, children). length num_parents)", simp)
  fix ord :: "'a list \<Rightarrow> 'a list" and np ch l p np' ch'
  assume "l = orphans ord np" "l \<noteq> []" "retire_level l np ch = Inr p" "(np', ch') = p"
  then show "((ord, np', ch'), (ord, np, ch)) \<in> measure (\<lambda>(ord, num_parents, children). length num_parents)"
    using retire_level_shrinks [of l np ch np' ch'] by (cases "orphans ord np") auto
qed

declare topsort_levels_core.simps [simp del]

definition topsort_levels ::
    "('a list \<Rightarrow> 'a list) \<Rightarrow> ('a \<times> 'a) list \<Rightarrow> 'a list list \<times> 'a levels_end"
where
  "topsort_levels ord pairlist =
     (case count_parents pairlist of
        Inl e \<Rightarrow> ([], LevelsExn e)
      | Inr (num_parents, children) \<Rightarrow> topsort_levels_core ord num_parents children)"

text \<open>
  \<^verbatim>\<open>find_cycles\<close>. The graph is a dictionary from a node to its list of children. The stack \<^verbatim>\<open>paths\<close> is
  kept with its top first.
\<close>

fun is_dup :: "'a list list \<Rightarrow> 'a list \<Rightarrow> bool res" where
  "is_dup [] cyc = Inr False"
| "is_dup (other_cycle # cycles) cyc =
     rbind (is_rotated other_cycle cyc) (\<lambda>b. if b then Inr True else is_dup cycles cyc)"

record 'a cycle_state =
  paths :: "'a list list"
  visited_nodes :: "'a set"
  cycles :: "'a list list"

definition visit_child :: "'a list \<Rightarrow> 'a \<Rightarrow> 'a cycle_state \<Rightarrow> 'a cycle_state res" where
  "visit_child path child st =
     (if child \<in> set path
      then let cyc = dropWhile (\<lambda>x. x \<noteq> child) path
           in rbind (is_dup (cycles st) cyc)
                (\<lambda>dup. Inr (if dup then st else st\<lparr>cycles := cycles st @ [cyc]\<rparr>))
      else Inr (st\<lparr>paths := (path @ [child]) # paths st,
                    visited_nodes := insert child (visited_nodes st)\<rparr>))"

definition visit_path :: "('a, 'a list) dict \<Rightarrow> 'a list \<Rightarrow> 'a cycle_state \<Rightarrow> 'a cycle_state res" where
  "visit_path parent_children path st =
     rbind (py_nth path (- 1))
       (\<lambda>parent. case map_of parent_children parent of
          None \<Rightarrow> Inr st
        | Some children \<Rightarrow> rfold (visit_child path) children st)"

text \<open>
  Every path that is pushed extends the popped one by a node it does not contain, so the weight of
  the stack below falls: a path that misses \<open>k\<close> nodes weighs \<open>B ^ k\<close>, where \<open>B\<close> exceeds the number of
  paths one visit can push.
\<close>

definition graph_nodes :: "('a, 'a list) dict \<Rightarrow> 'a list" where
  "graph_nodes g = concat (map snd g)"

definition path_weight :: "('a, 'a list) dict \<Rightarrow> 'a list \<Rightarrow> nat" where
  "path_weight g path = Suc (length (graph_nodes g)) ^ card (set (graph_nodes g) - set path)"

lemma visit_children_paths:
  assumes "rfold (visit_child path) cs st = Inr st'"
  shows "\<exists>new. paths st' = map (\<lambda>c. path @ [c]) new @ paths st \<and> length new \<le> length cs \<and>
           set new = set cs - set path"
  using assms
proof (induction cs arbitrary: st)
  case (Cons c cs)
  then obtain st1 where st1: "visit_child path c st = Inr st1" "rfold (visit_child path) cs st1 = Inr st'"
    by (auto simp: rbind_eq_Inr_iff)
  obtain new where new: "paths st' = map (\<lambda>c. path @ [c]) new @ paths st1" "length new \<le> length cs"
    "set new = set cs - set path"
    using Cons.IH [OF st1(2)] by blast
  show ?case
  proof (cases "c \<in> set path")
    case True
    then have "paths st1 = paths st"
      using st1(1) by (auto simp: visit_child_def Let_def rbind_eq_Inr_iff)
    with new True show ?thesis by (intro exI [of _ new]) (simp add: insert_Diff_if)
  next
    case False
    then have "paths st1 = (path @ [c]) # paths st"
      using st1(1) by (auto simp: visit_child_def)
    with new False show ?thesis by (intro exI [of _ "new @ [c]"]) (simp add: insert_Diff_if)
  qed
qed simp

lemma sum_list_path_weight_less:
  assumes "set new \<subseteq> set (graph_nodes g) - set path" "length new \<le> length (graph_nodes g)"
  shows "(\<Sum>c\<leftarrow>new. path_weight g (path @ [c])) < path_weight g path"
proof (cases "new = []")
  case True
  then show ?thesis by (simp add: path_weight_def)
next
  case False
  define B where "B = Suc (length (graph_nodes g))"
  define n where "n = card (set (graph_nodes g) - set path)"
  have "0 < n" using False assms(1) by (auto simp: n_def card_gt_0_iff neq_Nil_conv)
  have w: "path_weight g (path @ [c]) = B ^ (n - 1)" if "c \<in> set new" for c
  proof -
    have "set (graph_nodes g) - set (path @ [c]) = (set (graph_nodes g) - set path) - {c}" by auto
    then have "card (set (graph_nodes g) - set (path @ [c])) = n - 1"
      using that assms(1) by (simp add: n_def card_Diff_singleton subset_iff)
    then show ?thesis by (simp add: path_weight_def B_def)
  qed
  have "(\<Sum>c\<leftarrow>new. path_weight g (path @ [c])) = length new * B ^ (n - 1)"
    using w by (simp cong: map_cong add: sum_list_triv)
  also have "\<dots> < B * B ^ (n - 1)"
    using assms(2) by (intro mult_strict_right_mono) (simp_all add: B_def)
  also have "\<dots> = path_weight g path"
    using \<open>0 < n\<close> by (cases n) (simp_all add: path_weight_def flip: B_def n_def)
  finally show ?thesis .
qed

lemma map_of_graph_nodes:
  assumes "map_of g x = Some cs"
  shows "set cs \<subseteq> set (graph_nodes g) \<and> length cs \<le> length (graph_nodes g)"
proof -
  have "(x, cs) \<in> set g" using assms by (rule map_of_SomeD)
  then obtain us vs where "g = us @ (x, cs) # vs" by (meson split_list)
  then show ?thesis by (auto simp: graph_nodes_def)
qed

lemma visit_path_weight:
  assumes "visit_path g path (st\<lparr>paths := rest\<rparr>) = Inr st'"
  shows "(\<Sum>p\<leftarrow>paths st'. path_weight g p) < path_weight g path + (\<Sum>p\<leftarrow>rest. path_weight g p)"
proof -
  obtain x where x: "py_nth path (- 1) = Inr x"
    using assms by (auto simp: visit_path_def rbind_eq_Inr_iff)
  show ?thesis
  proof (cases "map_of g x")
    case None
    then show ?thesis using assms x by (auto simp: visit_path_def path_weight_def)
  next
    case (Some cs)
    then have "rfold (visit_child path) cs (st\<lparr>paths := rest\<rparr>) = Inr st'"
      using assms x by (simp add: visit_path_def)
    from visit_children_paths [OF this] obtain new where new:
      "paths st' = map (\<lambda>c. path @ [c]) new @ rest" "length new \<le> length cs" "set new = set cs - set path"
      by auto
    moreover have "(\<Sum>c\<leftarrow>new. path_weight g (path @ [c])) < path_weight g path"
      using map_of_graph_nodes [OF Some] new by (intro sum_list_path_weight_less) auto
    ultimately show ?thesis by (simp add: o_def)
  qed
qed

function visit_paths :: "('a, 'a list) dict \<Rightarrow> 'a cycle_state \<Rightarrow> 'a cycle_state res" where
  "visit_paths parent_children st =
     (case paths st of
        [] \<Rightarrow> Inr st
      | path # rest \<Rightarrow>
          rbind (visit_path parent_children path (st\<lparr>paths := rest\<rparr>))
            (\<lambda>st. visit_paths parent_children st))"
  by pat_completeness auto
termination
  by (relation "measure (\<lambda>(g, st). \<Sum>p\<leftarrow>paths st. path_weight g p)")
     (auto dest: visit_path_weight)

declare visit_paths.simps [simp del]

definition visit_start :: "('a, 'a list) dict \<Rightarrow> 'a \<Rightarrow> 'a cycle_state \<Rightarrow> 'a cycle_state res" where
  "visit_start parent_children parent st =
     (if parent \<in> visited_nodes st then Inr st
      else visit_paths parent_children (st\<lparr>paths := [[parent]]\<rparr>))"

text \<open>The result lists the cycles that the generator yields, which are those it records.\<close>

definition find_cycles :: "('a list \<Rightarrow> 'a list) \<Rightarrow> ('a, 'a list) dict \<Rightarrow> 'a list list res" where
  "find_cycles ord parent_children =
     rbind (rfold (visit_start parent_children) (ord (dict_keys parent_children))
              \<lparr>paths = [], visited_nodes = {}, cycles = []\<rparr>)
       (\<lambda>st. Inr (cycles st))"

section \<open>The counts\<close>

definition elements :: "('a \<times> 'a) list \<Rightarrow> 'a set" where
  "elements ps = fst ` set ps \<union> snd ` set ps"

definition succs :: "('a \<times> 'a) list \<Rightarrow> 'a \<Rightarrow> 'a list" where
  "succs ps x = map snd (filter (\<lambda>e. fst e = x) ps)"

text \<open>The number of pairs that give \<open>x\<close> a parent outside \<open>D\<close>.\<close>

definition open_parents :: "('a \<times> 'a) list \<Rightarrow> 'a set \<Rightarrow> 'a \<Rightarrow> int" where
  "open_parents ps D x = int (length (filter (\<lambda>e. snd e = x \<and> fst e \<notin> D) ps))"

lemma elements_simps [simp]:
  "elements [] = {}"
  "elements (ps @ qs) = elements ps \<union> elements qs"
  "elements ((p, c) # ps) = insert p (insert c (elements ps))"
  by (auto simp: elements_def)

lemma succs_simps [simp]:
  "succs [] x = []"
  "succs (ps @ qs) x = succs ps x @ succs qs x"
  "succs ((p, c) # ps) x = (if p = x then c # succs ps x else succs ps x)"
  by (auto simp: succs_def)

lemma set_succs: "set (succs ps x) = {c. (x, c) \<in> set ps}"
  by (force simp: succs_def)

lemma open_parents_nonneg [simp]: "0 \<le> open_parents ps D x"
  by (simp add: open_parents_def)

lemma open_parents_zero: "open_parents ps D x = 0 \<longleftrightarrow> (\<forall>p. (p, x) \<in> set ps \<longrightarrow> p \<in> D)"
  by (auto simp: open_parents_def filter_empty_conv)

lemma open_parents_insert:
  "p \<notin> D \<Longrightarrow> open_parents ps (insert p D) x = open_parents ps D x - int (count_list (succs ps p) x)"
  by (induction ps) (auto simp: open_parents_def)

lemma count_parents_result:
  "\<exists>np ch. count_parents ps = Inr (np, ch) \<and> dict_ok np \<and> dict_ok ch \<and>
     (\<forall>x. map_of np x = (if x \<in> elements ps then Some (open_parents ps {} x) else None)) \<and>
     (\<forall>x. map_of ch x = (if succs ps x = [] then None else Some (succs ps x)))"
proof (induction ps rule: rev_induct)
  case Nil
  show ?case by (simp add: count_parents_def)
next
  case (snoc e ps)
  obtain p c where e: "e = (p, c)" by force
  obtain np ch where IH: "count_parents ps = Inr (np, ch)" "dict_ok np" "dict_ok ch"
    "\<And>x. map_of np x = (if x \<in> elements ps then Some (open_parents ps {} x) else None)"
    "\<And>x. map_of ch x = (if succs ps x = [] then None else Some (succs ps x))"
    using snoc.IH by blast
  have zero: "open_parents ps {} x = 0" if "x \<notin> elements ps" for x
    using that by (force simp: open_parents_zero elements_def)
  define np1 where "np1 = touch c (touch p np)"
  have np1: "map_of np1 x = (if x \<in> elements ps \<union> {p, c} then Some (open_parents ps {} x) else None)" for x
    using IH(4) by (auto simp: np1_def touch_def has_key_def zero)
  have ok1: "dict_ok np1" using IH(2) by (simp add: np1_def touch_def)
  have "count_parents (ps @ [e]) = Inr (dict_set c (open_parents ps {} c + 1) np1,
      dict_set p (dict_get_default ch p [] @ [c]) ch)"
    using IH(1) by (simp add: count_parents_def rfold_append add_pair_def e np1 dict_get_def
        flip: np1_def)
  moreover have "dict_get_default ch p [] = succs ps p"
    by (simp add: dict_get_default_def IH(5))
  ultimately show ?case
    using ok1 IH(3) np1 IH(5) by (simp add: e open_parents_def)
qed

section \<open>The state of the loops\<close>

text \<open>
  After the items \<open>D\<close> have been dealt with, \<open>num_parents\<close> holds the number of open parents of every
  other item and \<open>children\<close> the children of every other item.
\<close>

definition counts_ok :: "('a \<times> 'a) list \<Rightarrow> 'a set \<Rightarrow> 'a parent_counts \<Rightarrow> 'a child_lists \<Rightarrow> bool" where
  "counts_ok ps D np ch \<longleftrightarrow> dict_ok np \<and> dict_ok ch \<and>
     map_of np = (\<lambda>x. if x \<in> elements ps - D then Some (open_parents ps D x) else None) \<and>
     map_of ch = (\<lambda>x. if x \<in> D \<or> succs ps x = [] then None else Some (succs ps x))"

definition parents_closed :: "('a \<times> 'a) list \<Rightarrow> 'a set \<Rightarrow> bool" where
  "parents_closed ps D \<longleftrightarrow> (\<forall>(p, c) \<in> set ps. c \<in> D \<longrightarrow> p \<in> D)"

lemma count_parents_ok: "\<exists>np ch. count_parents ps = Inr (np, ch) \<and> counts_ok ps {} np ch"
  using count_parents_result [of ps] by (fastforce simp: counts_ok_def)

lemma counts_ok_keys: "counts_ok ps D np ch \<Longrightarrow> set (dict_keys np) = elements ps - D"
  by (auto simp: counts_ok_def dict_keys_def simp flip: dom_map_of_conv_image_fst split: if_splits)

lemma counts_ok_empty: "counts_ok ps D np ch \<Longrightarrow> np = [] \<longleftrightarrow> elements ps \<subseteq> D"
  using counts_ok_keys [of ps D np ch] by (cases np) (auto simp: dict_keys_def)

lemma knock_down_result:
  assumes "\<And>x. x \<in> set cs \<Longrightarrow> \<exists>n. map_of np x = Some n \<and> int (count_list cs x) \<le> n"
    and "dict_ok np"
  shows "\<exists>np' new. knock_down cs np pending = Inr (np', pending @ new) \<and> dict_ok np' \<and> distinct new \<and>
    set new = {x \<in> set cs. map_of np x = Some (int (count_list cs x))} \<and>
    map_of np' = (\<lambda>x. map_option (\<lambda>n. n - int (count_list cs x)) (map_of np x))"
  using assms
proof (induction cs arbitrary: np pending)
  case Nil
  then show ?case by (simp add: option.map_ident)
next
  case (Cons c cs)
  obtain n where n: "map_of np c = Some n" "int (count_list cs c) + 1 \<le> n"
    using Cons.prems(1) [of c] by auto
  define np1 where "np1 = dict_set c (n - 1) np"
  define pending1 where "pending1 = (if n - 1 = 0 then pending @ [c] else pending)"
  have "\<exists>m. map_of np1 x = Some m \<and> int (count_list cs x) \<le> m" if "x \<in> set cs" for x
    using that n Cons.prems(1) [of x] by (auto simp: np1_def)
  from Cons.IH [OF this, of pending1] Cons.prems(2) obtain np' new where
    IH: "knock_down cs np1 pending1 = Inr (np', pending1 @ new)" "dict_ok np'" "distinct new"
      "set new = {x \<in> set cs. map_of np1 x = Some (int (count_list cs x))}"
      "map_of np' = (\<lambda>x. map_option (\<lambda>n. n - int (count_list cs x)) (map_of np1 x))"
    by (auto simp: np1_def)
  define new1 where "new1 = (if n - 1 = 0 then c # new else new)"
  have c: "c \<notin> set cs" if "n = 1"
    using that n(2) by (simp add: count_list_0_iff)
  have "knock_down (c # cs) np pending = Inr (np', pending @ new1)"
    using IH(1) n(1) by (simp add: np1_def pending1_def new1_def dict_get_def split: if_splits)
  moreover have "distinct new1" using IH(3,4) c by (auto simp: new1_def)
  moreover have "x \<in> set new1 \<longleftrightarrow> x \<in> set (c # cs) \<and> map_of np x = Some (int (count_list (c # cs) x))" for x
  proof (cases "x = c")
    case True
    have "c \<in> set new \<longleftrightarrow> c \<in> set cs \<and> n = int (count_list cs c) + 1"
      using IH(4) by (auto simp: np1_def)
    moreover have "count_list cs c = 0 \<longleftrightarrow> c \<notin> set cs" by (simp add: count_list_0_iff)
    ultimately show ?thesis using True n by (auto simp: new1_def)
  next
    case False
    then show ?thesis using IH(4) by (simp add: new1_def np1_def)
  qed
  moreover have "map_of np' = (\<lambda>x. map_option (\<lambda>n. n - int (count_list (c # cs) x)) (map_of np x))"
    using IH(5) n(1) by (auto simp: np1_def fun_eq_iff)
  ultimately show ?case using IH(2) by (intro exI [of _ np'] exI [of _ new1]) blast
qed

text \<open>Dealing with one more item that has no open parent.\<close>

lemma accept_parent_step:
  assumes "counts_ok ps D np ch" "parents_closed ps D" "x \<in> elements ps - D" "open_parents ps D x = 0"
  shows "\<exists>np' ch' new. accept_parent x pending np ch = Inr (pending @ new, np', ch') \<and>
    counts_ok ps (insert x D) np' ch' \<and> distinct new \<and>
    set new = {c. (x, c) \<in> set ps \<and> open_parents ps (insert x D) c = 0}"
proof -
  define np1 where "np1 = AList.delete x np"
  have del: "dict_del x np = Inr np1"
    using assms(1,3) by (simp add: dict_del_def counts_ok_def has_key_def np1_def)
  have ok1: "dict_ok np1" using assms(1) by (simp add: counts_ok_def np1_def)
  have np1: "map_of np1 = (\<lambda>y. if y \<in> elements ps - insert x D then Some (open_parents ps D y) else None)"
    using assms(1) by (auto simp: np1_def delete_conv counts_ok_def)
  have child: "c \<in> elements ps - insert x D" if "c \<in> set (succs ps x)" for c
  proof -
    have edge: "(x, c) \<in> set ps" using that by (simp add: set_succs)
    then have "c \<in> elements ps" unfolding elements_def by force
    moreover have "c \<notin> D" using edge assms(2,3) by (auto simp: parents_closed_def)
    moreover have "c \<noteq> x" using edge assms(3,4) by (auto simp: open_parents_zero)
    ultimately show ?thesis by simp
  qed
  have ins: "open_parents ps (insert x D) c = open_parents ps D c - int (count_list (succs ps x) c)" for c
    using assms(3) by (simp add: open_parents_insert)
  have le: "int (count_list (succs ps x) c) \<le> open_parents ps D c" for c
    using ins [of c] open_parents_nonneg [of ps "insert x D" c] by linarith
  obtain np' new where kd: "knock_down (succs ps x) np1 pending = Inr (np', pending @ new)" "dict_ok np'"
    "distinct new"
    "set new = {c \<in> set (succs ps x). map_of np1 c = Some (int (count_list (succs ps x) c))}"
    "map_of np' = (\<lambda>c. map_option (\<lambda>n. n - int (count_list (succs ps x) c)) (map_of np1 c))"
    using knock_down_result [of "succs ps x" np1 pending] child le ok1 by (auto simp: np1)
  have new: "set new = {c. (x, c) \<in> set ps \<and> open_parents ps (insert x D) c = 0}"
    using kd(4) child by (auto simp: np1 ins set_succs)
  have np': "map_of np' = (\<lambda>y. if y \<in> elements ps - insert x D then Some (open_parents ps (insert x D) y) else None)"
    using kd(5) by (auto simp: np1 ins)
  show ?thesis
  proof (cases "succs ps x = []")
    case True
    then have "accept_parent x pending np ch = Inr (pending @ new, np', ch)"
      using del kd(1) assms(1) by (simp add: accept_parent_def counts_ok_def has_key_def)
    moreover have "counts_ok ps (insert x D) np' ch"
      using assms(1) np' kd(2) True by (auto simp: counts_ok_def)
    ultimately show ?thesis using kd(3) new by blast
  next
    case False
    then have "map_of ch x = Some (succs ps x)"
      using assms(1,3) by (simp add: counts_ok_def)
    then have "accept_parent x pending np ch = Inr (pending @ new, np', AList.delete x ch)"
      using del kd(1) by (simp add: accept_parent_def has_key_def dict_get_def dict_del_def)
    moreover have "counts_ok ps (insert x D) np' (AList.delete x ch)"
      using assms(1) np' kd(2) by (auto simp: counts_ok_def delete_conv)
    ultimately show ?thesis using kd(3) new by blast
  qed
qed

section \<open>topsort\<close>

text \<open>Every item of the list comes after all its parents.\<close>

definition parents_first :: "('a \<times> 'a) list \<Rightarrow> 'a list \<Rightarrow> bool" where
  "parents_first ps l \<longleftrightarrow> (\<forall>us c vs. l = us @ c # vs \<longrightarrow> (\<forall>p. (p, c) \<in> set ps \<longrightarrow> p \<in> set us))"

lemma parents_first_Nil [simp]: "parents_first ps []"
  by (simp add: parents_first_def)

lemma parents_first_snoc:
  "parents_first ps l \<Longrightarrow> (\<And>p. (p, x) \<in> set ps \<Longrightarrow> p \<in> set l) \<Longrightarrow> parents_first ps (l @ [x])"
  unfolding parents_first_def
proof (intro allI impI)
  fix us c vs p
  assume *: "\<forall>us c vs. l = us @ c # vs \<longrightarrow> (\<forall>p. (p, c) \<in> set ps \<longrightarrow> p \<in> set us)"
    "\<And>p. (p, x) \<in> set ps \<Longrightarrow> p \<in> set l" "l @ [x] = us @ c # vs" "(p, c) \<in> set ps"
  show "p \<in> set us"
  proof (cases vs rule: rev_cases)
    case Nil
    then show ?thesis using * by simp
  next
    case (snoc vs' v)
    then have "l = us @ c # vs'" using *(3) by simp
    then show ?thesis using *(1,4) by blast
  qed
qed

lemma parents_first_closed: "parents_first ps l \<Longrightarrow> parents_closed ps (set l)"
  unfolding parents_first_def parents_closed_def by (fastforce dest: split_list)

definition free_items :: "('a \<times> 'a) list \<Rightarrow> 'a set \<Rightarrow> 'a set" where
  "free_items ps D = {x \<in> elements ps - D. open_parents ps D x = 0}"

lemma free_items_insert:
  assumes "x \<in> free_items ps D" "parents_closed ps D"
  shows "free_items ps (insert x D) =
    (free_items ps D - {x}) \<union> {c. (x, c) \<in> set ps \<and> open_parents ps (insert x D) c = 0}"
    (is "?l = ?r")
proof -
  have "y \<in> ?l \<longleftrightarrow> y \<in> ?r" for y
  proof -
    have "(x, y) \<in> set ps \<Longrightarrow> y \<in> elements ps" by (force simp: elements_def)
    moreover have "(x, y) \<in> set ps \<Longrightarrow> y \<notin> insert x D"
      using assms by (auto simp: free_items_def open_parents_zero parents_closed_def)
    ultimately show ?thesis
      using assms(1) by (cases "(x, y) \<in> set ps") (auto simp: free_items_def open_parents_zero)
  qed
  then show ?thesis by blast
qed

lemma counts_ok_stuck:
  assumes "free_items ps D = {}" "parents_closed ps D" "x \<in> elements ps - D"
  shows "\<exists>p \<in> elements ps - D. (p, x) \<in> set ps"
proof -
  have "open_parents ps D x \<noteq> 0" using assms(1,3) by (auto simp: free_items_def)
  then obtain p where p: "(p, x) \<in> set ps" "p \<notin> D" by (auto simp: open_parents_zero)
  then have "p \<in> elements ps" by (force simp: elements_def)
  with p show ?thesis by blast
qed

definition blocked :: "('a \<times> 'a) list \<Rightarrow> 'a set \<Rightarrow> bool" where
  "blocked ps R \<longleftrightarrow> R \<noteq> {} \<and> (\<forall>x \<in> R. \<exists>p \<in> R. (p, x) \<in> set ps)"

lemma blocked_cyclic:
  assumes "blocked ps R"
  shows "\<not> acyclic (set ps)"
proof
  assume "acyclic (set ps)"
  then have "wf (set ps)" by (simp add: finite_acyclic_wf)
  moreover obtain x where "x \<in> R" using assms by (auto simp: blocked_def)
  ultimately obtain z where "z \<in> R" "\<And>y. (y, z) \<in> set ps \<Longrightarrow> y \<notin> R" by (rule wfE_min) blast
  then show False using assms by (auto simp: blocked_def)
qed

lemma parents_first_acyclic:
  assumes "parents_first ps l" "elements ps \<subseteq> set l"
  shows "acyclic (set ps)"
proof -
  have tw: "takeWhile (\<lambda>y. y \<noteq> x) (us @ x # vs) = us" if "x \<notin> set us" for x and us vs :: "'a list"
    using that by (induction us) auto
  define pos where "pos x = length (takeWhile (\<lambda>y. y \<noteq> x) l)" for x
  have "pos p < pos c" if "(p, c) \<in> set ps" for p c
  proof -
    have "c \<in> set l" using that assms(2) by (force simp: elements_def)
    then obtain us vs where l: "l = us @ c # vs" "c \<notin> set us" by (meson split_list_first)
    then have p: "p \<in> set us" using that assms(1) by (auto simp: parents_first_def)
    then obtain us1 us2 where us: "us = us1 @ p # us2" "p \<notin> set us1" by (meson split_list_first)
    then have "pos p = length us1"
      using l(1) tw [of p us1 "us2 @ c # vs"] by (simp add: pos_def)
    moreover have "pos c = length us"
      using l tw [of c us vs] by (simp add: pos_def)
    ultimately show ?thesis by (simp add: us(1))
  qed
  then have "set ps \<subseteq> measure pos" by auto
  then show ?thesis by (meson wf_subset wf_measure wf_acyclic)
qed

lemma topsort_loop_result:
  assumes "counts_ok ps (set fin) np ch" "distinct (fin @ pending)" "set fin \<subseteq> elements ps"
    "set pending = free_items ps (set fin)" "parents_first ps fin"
  shows "\<exists>l. distinct l \<and> parents_first ps l \<and> set l \<subseteq> elements ps \<and>
    (topsort_loop fin pending np ch = Inr l \<and> elements ps \<subseteq> set l \<or>
     (\<exists>np' ch'. topsort_loop fin pending np ch = Inl (CycleError l np' ch') \<and>
        counts_ok ps (set l) np' ch' \<and> blocked ps (elements ps - set l)))"
  using assms
proof (induction fin pending np ch rule: topsort_loop.induct)
  case (1 fin np ch)
  then have free: "free_items ps (set fin) = {}" by simp
  show ?case
  proof (cases "np = []")
    case True
    with 1 have "elements ps \<subseteq> set fin" using counts_ok_empty [of ps "set fin" np ch] by simp
    with 1 True show ?thesis by auto
  next
    case False
    then have "blocked ps (elements ps - set fin)"
      using counts_ok_stuck [OF free parents_first_closed] 1 counts_ok_empty [of ps "set fin" np ch]
      by (auto simp: blocked_def)
    with 1 False show ?thesis by auto
  qed
next
  case (2 fin x pending np ch)
  have closed: "parents_closed ps (set fin)" using 2 by (simp add: parents_first_closed)
  have x: "x \<in> free_items ps (set fin)" using 2(5) by (simp add: "2.prems" flip: "2.prems"(4))
  then have x': "x \<in> elements ps - set fin" "open_parents ps (set fin) x = 0" by (auto simp: free_items_def)
  obtain np' ch' new where acc: "accept_parent x pending np ch = Inr (pending @ new, np', ch')"
    "counts_ok ps (insert x (set fin)) np' ch'" "distinct new"
    "set new = {c. (x, c) \<in> set ps \<and> open_parents ps (insert x (set fin)) c = 0}"
    using accept_parent_step [OF "2.prems"(1) closed x', of pending] by blast
  have pend: "set pending = free_items ps (set fin) - {x}"
    using "2.prems"(2,4) by auto
  have sub: "set new \<subseteq> free_items ps (insert x (set fin))"
    using free_items_insert [OF x closed] acc(4) by simp
  have "set pending \<inter> set new = {}"
    using acc(4) pend x' by (auto simp: free_items_def open_parents_zero)
  then have "distinct ((fin @ [x]) @ pending @ new)"
    using "2.prems"(2) acc(3) sub by (auto simp: free_items_def)
  moreover have "set (pending @ new) = free_items ps (set (fin @ [x]))"
    using free_items_insert [OF x closed] pend acc(4) by simp
  moreover have "parents_first ps (fin @ [x])"
    using "2.prems"(5) x'(2) by (intro parents_first_snoc) (auto simp: open_parents_zero)
  moreover have "x \<notin> free_items ps (insert x (set fin))" by (simp add: free_items_def)
  ultimately show ?case
    using "2.IH" [OF acc(1) refl refl] acc(1,2) "2.prems"(3) x'(1) by simp
qed

lemma set_orphans:
  assumes "iteration_order ord" "counts_ok ps D np ch"
  shows "set (orphans ord np) = free_items ps D" "distinct (orphans ord np)"
proof -
  have ord: "dict_iteration ord" using assms(1) by (simp add: iteration_order_locale)
  show "set (orphans ord np) = free_items ps D"
    using counts_ok_keys [OF assms(2)] assms(2)
    by (auto simp: orphans_def dict_iteration.ord_set [OF ord] free_items_def counts_ok_def)
  show "distinct (orphans ord np)"
    using assms(2) by (auto simp: orphans_def dict_iteration.ord_distinct [OF ord] counts_ok_def
        dict_ok_def dict_keys_def)
qed

lemma topsort_result:
  assumes "iteration_order ord"
  shows "\<exists>l. distinct l \<and> parents_first ps l \<and> set l \<subseteq> elements ps \<and>
    (topsort ord ps = Inr l \<and> elements ps \<subseteq> set l \<or>
     (\<exists>np ch. topsort ord ps = Inl (CycleError l np ch) \<and> counts_ok ps (set l) np ch \<and>
        blocked ps (elements ps - set l)))"
proof -
  obtain np ch where c: "count_parents ps = Inr (np, ch)" "counts_ok ps {} np ch"
    using count_parents_ok by blast
  with topsort_loop_result [of ps "[]" np ch "orphans ord np"] set_orphans [OF assms c(2)]
  show ?thesis by (simp add: topsort_def)
qed

section \<open>topsort_levels\<close>

lemma retire_level_result:
  assumes "counts_ok ps D np ch" "parents_closed ps D" "set xs \<subseteq> free_items ps D" "distinct xs"
  shows "\<exists>np' ch'. retire_level xs np ch = Inr (np', ch') \<and> counts_ok ps (D \<union> set xs) np' ch' \<and>
    parents_closed ps (D \<union> set xs)"
  using assms
proof (induction xs arbitrary: D np ch)
  case (Cons x xs)
  have x: "x \<in> elements ps - D" "open_parents ps D x = 0"
    using Cons.prems(3) by (auto simp: free_items_def)
  obtain np1 ch1 new where acc: "accept_parent x [] np ch = Inr (new, np1, ch1)"
    "counts_ok ps (insert x D) np1 ch1"
    using accept_parent_step [OF Cons.prems(1,2) x, of "[]"] by auto
  have "parents_closed ps (insert x D)"
    using Cons.prems(2) x(2) by (auto simp: parents_closed_def open_parents_zero)
  moreover have "set xs \<subseteq> free_items ps (insert x D)"
    using Cons.prems(3,4) by (auto simp: free_items_def open_parents_zero)
  ultimately obtain np' ch' where "retire_level xs np1 ch1 = Inr (np', ch')"
    "counts_ok ps (insert x D \<union> set xs) np' ch'" "parents_closed ps (insert x D \<union> set xs)"
    using Cons.IH [OF acc(2)] Cons.prems(4) by auto
  then show ?case
    by (simp add: retire_level_accept acc(1) del: retire_level.simps)
qed simp

text \<open>
  The levels are determined by the pairs: each level holds exactly the items, not yet listed, whose
  parents all are in earlier levels.
\<close>

fun layered :: "('a \<times> 'a) list \<Rightarrow> 'a set \<Rightarrow> 'a list list \<Rightarrow> bool" where
  "layered ps D [] \<longleftrightarrow> True"
| "layered ps D (l # ls) \<longleftrightarrow>
     l \<noteq> [] \<and> distinct l \<and> set l = free_items ps D \<and> layered ps (D \<union> free_items ps D) ls"

lemma topsort_levels_core_result:
  assumes "iteration_order ord" "counts_ok ps D np ch" "parents_closed ps D"
  shows "\<exists>ls out. topsort_levels_core ord np ch = (ls, out) \<and> layered ps D ls \<and>
     (out = StopIteration \<and> elements ps \<subseteq> D \<union> set (concat ls) \<or>
      (\<exists>np' ch'. out = LevelsCycle np' ch' \<and> counts_ok ps (D \<union> set (concat ls)) np' ch' \<and>
         blocked ps (elements ps - (D \<union> set (concat ls)))))"
  using assms
proof (induction ord np ch arbitrary: D rule: topsort_levels_core.induct)
  case (1 ord np ch)
  note orph = set_orphans [OF "1.prems"(1,2)]
  show ?case
  proof (cases "orphans ord np = []")
    case True
    then have res: "topsort_levels_core ord np ch =
        ([], if np \<noteq> [] then LevelsCycle np ch else StopIteration)"
      by (subst topsort_levels_core.simps) simp
    have "free_items ps D = {}" using True orph(1) by simp
    then have "blocked ps (elements ps - D)" if "np \<noteq> []"
      using counts_ok_stuck [of ps D] "1.prems"(3) counts_ok_empty [OF "1.prems"(2)] that
      by (auto simp: blocked_def)
    then show ?thesis
      using res "1.prems"(2) counts_ok_empty [OF "1.prems"(2)] by auto
  next
    case False
    let ?l = "orphans ord np"
    obtain np1 ch1 where r: "retire_level ?l np ch = Inr (np1, ch1)"
      "counts_ok ps (D \<union> set ?l) np1 ch1" "parents_closed ps (D \<union> set ?l)"
      using retire_level_result [OF "1.prems"(2,3), of ?l] orph by auto
    have step: "topsort_levels_core ord np ch = apfst ((#) ?l) (topsort_levels_core ord np1 ch1)"
      using False r(1) by (subst topsort_levels_core.simps) (simp add: Let_def)
    obtain ls out where IH: "topsort_levels_core ord np1 ch1 = (ls, out)" "layered ps (D \<union> set ?l) ls"
      "out = StopIteration \<and> elements ps \<subseteq> (D \<union> set ?l) \<union> set (concat ls) \<or>
      (\<exists>np' ch'. out = LevelsCycle np' ch' \<and> counts_ok ps ((D \<union> set ?l) \<union> set (concat ls)) np' ch' \<and>
         blocked ps (elements ps - ((D \<union> set ?l) \<union> set (concat ls))))"
      using "1.IH" [OF refl False r(1) refl "1.prems"(1) r(2,3)] by blast
    have "layered ps D (?l # ls)" using IH(2) False orph by simp
    moreover have "D \<union> set (concat (?l # ls)) = (D \<union> set ?l) \<union> set (concat ls)" by auto
    moreover have "topsort_levels_core ord np ch = (?l # ls, out)" using step IH(1) by simp
    ultimately show ?thesis using IH(3) by (metis (no_types, lifting))
  qed
qed

lemma layered_nth:
  "layered ps D ls \<Longrightarrow> k < length ls \<Longrightarrow> set (ls ! k) = free_items ps (D \<union> set (concat (take k ls)))"
proof (induction ps D ls arbitrary: k rule: layered.induct)
  case (2 ps D l ls)
  show ?case
  proof (cases k)
    case 0
    then show ?thesis using "2.prems" by simp
  next
    case (Suc j)
    then have "set (ls ! j) = free_items ps ((D \<union> set l) \<union> set (concat (take j ls)))"
      using "2.IH" [of j] "2.prems" by simp
    then show ?thesis using Suc by (simp add: Un_assoc del: set_concat)
  qed
qed simp

lemma layered_distinct:
  "layered ps D ls \<Longrightarrow> distinct (concat ls) \<and> set (concat ls) \<subseteq> elements ps - D"
proof (induction ps D ls rule: layered.induct)
  case (2 ps D l ls)
  then have IH: "distinct (concat ls)" "set (concat ls) \<subseteq> elements ps - (D \<union> set l)" by simp_all
  have "distinct l" "set l \<subseteq> elements ps - D" using "2.prems" by (auto simp: free_items_def)
  with IH show ?case unfolding concat.simps distinct_append set_append by blast
qed simp

lemma layered_nonempty: "layered ps D ls \<Longrightarrow> [] \<notin> set ls"
  by (induction ps D ls rule: layered.induct) auto

lemma topsort_levels_result:
  assumes "iteration_order ord"
  shows "\<exists>ls out. topsort_levels ord ps = (ls, out) \<and> layered ps {} ls \<and>
     (out = StopIteration \<and> elements ps \<subseteq> set (concat ls) \<or>
      (\<exists>np ch. out = LevelsCycle np ch \<and> counts_ok ps (set (concat ls)) np ch \<and>
         blocked ps (elements ps - set (concat ls))))"
proof -
  obtain np ch where "count_parents ps = Inr (np, ch)" "counts_ok ps {} np ch"
    using count_parents_ok by blast
  then show ?thesis
    using topsort_levels_core_result [of ord ps "{}" np ch] assms
    by (simp add: topsort_levels_def parents_closed_def)
qed

lemma append_split:
  assumes "us @ c # vs = xs @ ys"
  shows "(\<exists>ws. xs = us @ c # ws) \<or> (\<exists>ws. us = xs @ ws \<and> ys = ws @ c # vs)"
proof -
  from assms consider w where "us = xs @ w" "w @ c # vs = ys" | w where "us @ w = xs" "c # vs = w @ ys"
    unfolding append_eq_append_conv2 by blast
  then show ?thesis by cases (simp, auto simp: Cons_eq_append_conv)
qed

lemma layered_parents_first:
  "layered ps D ls \<Longrightarrow> parents_closed ps D \<Longrightarrow> us @ c # vs = concat ls \<Longrightarrow> (p, c) \<in> set ps \<Longrightarrow> p \<in> D \<union> set us"
proof (induction ps D ls arbitrary: us rule: layered.induct)
  case (2 ps D l ls)
  have l: "p \<in> D" if "x \<in> set l" "(p, x) \<in> set ps" for p x
    using that 2(2) by (auto simp: free_items_def open_parents_zero)
  then have closed: "parents_closed ps (D \<union> set l)"
    using 2(3) by (auto simp: parents_closed_def)
  from 2(4) consider ws where "l = us @ c # ws" | ws where "us = l @ ws" "concat ls = ws @ c # vs"
    using append_split [of us c vs l "concat ls"] by auto
  then show ?case
  proof cases
    case 1
    then show ?thesis using l [of c p] 2(5) by simp
  next
    case (2 ws)
    then show ?thesis using "2.IH" [of ws] "2.prems" closed by auto
  qed
qed simp

section \<open>find_cycles\<close>

definition edge :: "('a, 'a list) dict \<Rightarrow> 'a \<Rightarrow> 'a \<Rightarrow> bool" where
  "edge g x y \<longleftrightarrow> (\<exists>cs. map_of g x = Some cs \<and> y \<in> set cs)"

definition simple_path :: "('a, 'a list) dict \<Rightarrow> 'a list \<Rightarrow> bool" where
  "simple_path g path \<longleftrightarrow> path \<noteq> [] \<and> distinct path \<and> successively (edge g) path"

definition simple_cycle :: "('a, 'a list) dict \<Rightarrow> 'a list \<Rightarrow> bool" where
  "simple_cycle g cyc \<longleftrightarrow> simple_path g cyc \<and> edge g (last cyc) (hd cyc)"

definition rotation :: "'a list \<Rightarrow> 'a list \<Rightarrow> bool" where
  "rotation a b \<longleftrightarrow> (\<exists>n. b = rotate n a)"

lemma rotation_refl [simp]: "rotation a a"
  unfolding rotation_def by (rule exI [of _ 0]) simp

lemma rotation_sym: "rotation a b \<Longrightarrow> rotation b a"
proof -
  assume "rotation a b"
  then obtain n where "b = rotate n a" by (auto simp: rotation_def)
  then have b: "b = rotate (n mod length a) a" by (metis rotate_conv_mod)
  show "rotation b a"
  proof (cases "a = []")
    case False
    then have "rotate (length a - n mod length a) b = rotate (length a) a"
      unfolding b rotate_rotate by (simp add: less_imp_le)
    then show ?thesis unfolding rotation_def by (metis rotate_id mod_self)
  qed (simp add: b)
qed

lemma rotation_trans: "rotation a b \<Longrightarrow> rotation b c \<Longrightarrow> rotation a c"
  by (auto simp: rotation_def rotate_rotate)

lemma is_dup_result:
  "cyc \<noteq> [] \<Longrightarrow> is_dup cs cyc = Inr (\<exists>c \<in> set cs. rotation c cyc)"
  by (induction cs) (auto simp: is_rotated_nonempty rotation_def)

lemma dropWhile_from: "child \<in> set path \<Longrightarrow> \<exists>us vs. path = us @ child # vs \<and> child \<notin> set us \<and>
    dropWhile (\<lambda>x. x \<noteq> child) path = child # vs"
proof -
  assume "child \<in> set path"
  then obtain us vs where p: "path = us @ child # vs" "child \<notin> set us" by (meson split_list_first)
  then have "dropWhile (\<lambda>x. x \<noteq> child) path = child # vs" by (auto simp: dropWhile_append)
  with p show ?thesis by blast
qed

lemma simple_cycle_dropWhile:
  assumes "simple_path g path" "edge g (last path) child" "child \<in> set path"
  shows "simple_cycle g (dropWhile (\<lambda>x. x \<noteq> child) path)"
proof -
  obtain us vs where "path = us @ child # vs" "dropWhile (\<lambda>x. x \<noteq> child) path = child # vs"
    using dropWhile_from [OF assms(3)] by blast
  then show ?thesis
    using assms(1,2) by (auto simp: simple_cycle_def simple_path_def successively_append_iff)
qed

lemma simple_path_snoc:
  "simple_path g path \<Longrightarrow> edge g (last path) c \<Longrightarrow> c \<notin> set path \<Longrightarrow> simple_path g (path @ [c])"
  by (auto simp: simple_path_def successively_append_iff)

definition cycles_ok :: "('a, 'a list) dict \<Rightarrow> 'a list list \<Rightarrow> bool" where
  "cycles_ok g cs \<longleftrightarrow> (\<forall>c \<in> set cs. simple_cycle g c) \<and> sorted_wrt (\<lambda>a b. \<not> rotation a b) cs"

definition found :: "'a list list \<Rightarrow> 'a list \<Rightarrow> bool" where
  "found cs cyc \<longleftrightarrow> (\<exists>c \<in> set cs. rotation c cyc)"

lemma found_mono: "found cs cyc \<Longrightarrow> set cs \<subseteq> set cs' \<Longrightarrow> found cs' cyc"
  by (auto simp: found_def)

lemma found_rotation: "found cs a \<Longrightarrow> rotation a b \<Longrightarrow> found cs b"
  unfolding found_def using rotation_trans by blast

lemma visit_child_result:
  assumes "simple_path g path" "edge g (last path) child" "cycles_ok g (cycles st)"
  shows "\<exists>st'. visit_child path child st = Inr st' \<and> cycles_ok g (cycles st') \<and>
    set (cycles st) \<subseteq> set (cycles st') \<and>
    (child \<in> set path \<longrightarrow> found (cycles st') (dropWhile (\<lambda>x. x \<noteq> child) path)) \<and>
    visited_nodes st' \<subseteq> insert child (visited_nodes st)"
proof (cases "child \<in> set path")
  case False
  then show ?thesis using assms(3) by (auto simp: visit_child_def)
next
  case True
  define cyc where "cyc = dropWhile (\<lambda>x. x \<noteq> child) path"
  have cyc: "simple_cycle g cyc"
    unfolding cyc_def using assms(1,2) True by (rule simple_cycle_dropWhile)
  then have "cyc \<noteq> []" by (simp add: simple_cycle_def simple_path_def)
  then have res: "visit_child path child st =
      Inr (if found (cycles st) cyc then st else st\<lparr>cycles := cycles st @ [cyc]\<rparr>)"
    using True by (simp add: visit_child_def is_dup_result found_def flip: cyc_def)
  show ?thesis
  proof (cases "found (cycles st) cyc")
    case True
    then show ?thesis using res assms(3) by (auto simp flip: cyc_def)
  next
    case False
    then have "cycles_ok g (cycles st @ [cyc])"
      using assms(3) cyc by (auto simp: cycles_ok_def sorted_wrt_append found_def)
    then show ?thesis
      using res False by (auto simp: found_def simp flip: cyc_def)
  qed
qed

lemma visit_children_result:
  assumes "simple_path g path" "\<And>c. c \<in> set cs \<Longrightarrow> edge g (last path) c" "cycles_ok g (cycles st)"
  shows "\<exists>st'. rfold (visit_child path) cs st = Inr st' \<and> cycles_ok g (cycles st') \<and>
    set (cycles st) \<subseteq> set (cycles st') \<and>
    (\<forall>c \<in> set cs \<inter> set path. found (cycles st') (dropWhile (\<lambda>x. x \<noteq> c) path)) \<and>
    visited_nodes st' \<subseteq> set cs \<union> visited_nodes st"
  using assms(2,3)
proof (induction cs arbitrary: st)
  case (Cons c cs)
  have "edge g (last path) c" using Cons.prems(1) by simp
  with visit_child_result [OF assms(1) this Cons.prems(2)] obtain st1 where
    st1: "visit_child path c st = Inr st1" "cycles_ok g (cycles st1)" "set (cycles st) \<subseteq> set (cycles st1)"
      "c \<in> set path \<longrightarrow> found (cycles st1) (dropWhile (\<lambda>x. x \<noteq> c) path)"
      "visited_nodes st1 \<subseteq> insert c (visited_nodes st)"
    by blast
  with Cons.IH [of st1] Cons.prems(1) obtain st' where
    st': "rfold (visit_child path) cs st1 = Inr st'" "cycles_ok g (cycles st')"
      "set (cycles st1) \<subseteq> set (cycles st')"
      "\<forall>c \<in> set cs \<inter> set path. found (cycles st') (dropWhile (\<lambda>x. x \<noteq> c) path)"
      "visited_nodes st' \<subseteq> set cs \<union> visited_nodes st1"
    by auto
  have "c \<in> set path \<Longrightarrow> found (cycles st') (dropWhile (\<lambda>x. x \<noteq> c) path)"
    using st1(4) st'(3) found_mono by blast
  with st1 st' show ?case by auto
qed simp

lemma visit_path_result:
  assumes "simple_path g path" "cycles_ok g (cycles st)"
  shows "\<exists>st'. visit_path g path st = Inr st' \<and> cycles_ok g (cycles st') \<and>
    set (cycles st) \<subseteq> set (cycles st') \<and>
    (\<forall>c \<in> set path. edge g (last path) c \<longrightarrow> found (cycles st') (dropWhile (\<lambda>x. x \<noteq> c) path)) \<and>
    set (paths st') = set (paths st) \<union> {path @ [c] | c. edge g (last path) c \<and> c \<notin> set path} \<and>
    visited_nodes st' \<subseteq> visited_nodes st \<union> {c. edge g (last path) c}"
proof -
  have last: "py_nth path (- 1) = Inr (last path)"
    using assms(1) by (simp add: simple_path_def py_nth_neg1)
  show ?thesis
  proof (cases "map_of g (last path)")
    case None
    then show ?thesis using last assms(2) by (auto simp: visit_path_def edge_def)
  next
    case (Some cs)
    then have e: "edge g (last path) c \<longleftrightarrow> c \<in> set cs" for c by (auto simp: edge_def)
    obtain st' where st': "rfold (visit_child path) cs st = Inr st'" "cycles_ok g (cycles st')"
      "set (cycles st) \<subseteq> set (cycles st')"
      "\<forall>c \<in> set cs \<inter> set path. found (cycles st') (dropWhile (\<lambda>x. x \<noteq> c) path)"
      "visited_nodes st' \<subseteq> set cs \<union> visited_nodes st"
      using visit_children_result [OF assms(1) _ assms(2), of cs] e by blast
    have "set (paths st') = set (paths st) \<union> {path @ [c] | c. c \<in> set cs \<and> c \<notin> set path}"
      using visit_children_paths [OF st'(1)] by auto
    moreover have "visit_path g path st = Inr st'"
      using last Some st'(1) by (simp add: visit_path_def)
    ultimately show ?thesis using st' unfolding e by (intro exI [of _ st']) auto
  qed
qed

text \<open>
  Every way to extend \<open>path\<close> to a simple path that closes a cycle leads to a cycle that is found.
\<close>

definition explored :: "('a, 'a list) dict \<Rightarrow> 'a list list \<Rightarrow> 'a list \<Rightarrow> bool" where
  "explored g cs path \<longleftrightarrow>
     (\<forall>ext c. simple_path g (path @ ext) \<longrightarrow> edge g (last (path @ ext)) c \<longrightarrow> c \<in> set (path @ ext) \<longrightarrow>
        found cs (dropWhile (\<lambda>x. x \<noteq> c) (path @ ext)))"

lemma explored_mono: "explored g cs path \<Longrightarrow> set cs \<subseteq> set cs' \<Longrightarrow> explored g cs' path"
  unfolding explored_def using found_mono by blast

lemma explored_step:
  assumes "path \<noteq> []"
    and "\<And>c. c \<in> set path \<Longrightarrow> edge g (last path) c \<Longrightarrow> found cs (dropWhile (\<lambda>x. x \<noteq> c) path)"
    and "\<And>c. edge g (last path) c \<Longrightarrow> c \<notin> set path \<Longrightarrow> explored g cs (path @ [c])"
  shows "explored g cs path"
  unfolding explored_def
proof (intro allI impI)
  fix ext c
  assume ext: "simple_path g (path @ ext)" "edge g (last (path @ ext)) c" "c \<in> set (path @ ext)"
  show "found cs (dropWhile (\<lambda>x. x \<noteq> c) (path @ ext))"
  proof (cases ext)
    case Nil
    then show ?thesis using ext assms(2) by simp
  next
    case (Cons d ext')
    have "edge g (last path) d" "d \<notin> set path"
      using ext(1) assms(1) by (auto simp: Cons simple_path_def successively_append_iff)
    then have "explored g cs (path @ [d])" by (rule assms(3))
    then show ?thesis using ext unfolding explored_def Cons by (metis append.assoc append_Cons append_Nil)
  qed
qed

lemma visit_paths_result:
  assumes "\<forall>path \<in> set (paths st). simple_path g path" "cycles_ok g (cycles st)"
  shows "\<exists>st'. visit_paths g st = Inr st' \<and> cycles_ok g (cycles st') \<and>
    set (cycles st) \<subseteq> set (cycles st') \<and>
    (\<forall>path \<in> set (paths st). explored g (cycles st') path) \<and>
    visited_nodes st' \<subseteq> visited_nodes st \<union> {y. \<exists>path \<in> set (paths st). (edge g)\<^sup>*\<^sup>* (last path) y}"
  using assms
proof (induction g st rule: visit_paths.induct)
  case (1 g st)
  show ?case
  proof (cases "paths st")
    case Nil
    then have "visit_paths g st = Inr st" by (simp add: visit_paths.simps)
    then show ?thesis using "1.prems"(2) Nil by (intro exI [of _ st]) simp
  next
    case (Cons path rest)
    have path: "simple_path g path" using "1.prems"(1) Cons by simp
    obtain st1 where st1: "visit_path g path (st\<lparr>paths := rest\<rparr>) = Inr st1" "cycles_ok g (cycles st1)"
      "set (cycles st) \<subseteq> set (cycles st1)"
      "\<forall>c \<in> set path. edge g (last path) c \<longrightarrow> found (cycles st1) (dropWhile (\<lambda>x. x \<noteq> c) path)"
      "set (paths st1) = set rest \<union> {path @ [c] | c. edge g (last path) c \<and> c \<notin> set path}"
      "visited_nodes st1 \<subseteq> visited_nodes st \<union> {c. edge g (last path) c}"
      using visit_path_result [OF path, of "st\<lparr>paths := rest\<rparr>"] "1.prems"(2) by auto
    have "\<forall>path \<in> set (paths st1). simple_path g path"
      using "1.prems"(1) st1(5) Cons simple_path_snoc [OF path] by auto
    with "1.IH" [OF Cons st1(1)] st1(2) obtain st' where st': "visit_paths g st1 = Inr st'"
      "cycles_ok g (cycles st')" "set (cycles st1) \<subseteq> set (cycles st')"
      "\<forall>path \<in> set (paths st1). explored g (cycles st') path"
      "visited_nodes st' \<subseteq> visited_nodes st1 \<union> {y. \<exists>path \<in> set (paths st1). (edge g)\<^sup>*\<^sup>* (last path) y}"
      by blast
    have "explored g (cycles st') path"
    proof (rule explored_step)
      show "path \<noteq> []" using path by (simp add: simple_path_def)
      show "found (cycles st') (dropWhile (\<lambda>x. x \<noteq> c) path)" if "c \<in> set path" "edge g (last path) c" for c
        using st1(4) st'(3) found_mono that by metis
      show "explored g (cycles st') (path @ [c])" if "edge g (last path) c" "c \<notin> set path" for c
        using st1(5) st'(4) that by simp
    qed
    moreover have "visited_nodes st' \<subseteq> visited_nodes st \<union> {y. \<exists>path \<in> set (paths st). (edge g)\<^sup>*\<^sup>* (last path) y}"
    proof
      fix y
      assume "y \<in> visited_nodes st'"
      then have "y \<in> visited_nodes st \<or> edge g (last path) y \<or>
          (\<exists>p \<in> set (paths st1). (edge g)\<^sup>*\<^sup>* (last p) y)"
        using st'(5) st1(6) by blast
      then consider "y \<in> visited_nodes st" | "edge g (last path) y"
        | p where "p \<in> set rest" "(edge g)\<^sup>*\<^sup>* (last p) y"
        | c where "edge g (last path) c" "(edge g)\<^sup>*\<^sup>* c y"
        unfolding st1(5) by auto
      then show "y \<in> visited_nodes st \<union> {y. \<exists>path \<in> set (paths st). (edge g)\<^sup>*\<^sup>* (last path) y}"
        using Cons by cases (auto intro: converse_rtranclp_into_rtranclp)
    qed
    moreover have "visit_paths g st = Inr st'"
      using Cons st1(1) st'(1) by (simp add: visit_paths.simps [of g st])
    ultimately show ?thesis
      using st1(3,5) st'(2-4) Cons by auto
  qed
qed

text \<open>A node from which a cycle can be reached starts a simple path that runs into the cycle.\<close>

lemma simple_path_to:
  assumes "(edge g)\<^sup>*\<^sup>* s c" "c \<in> C"
  shows "\<exists>us d. simple_path g (us @ [d]) \<and> hd (us @ [d]) = s \<and> d \<in> C \<and> set us \<inter> C = {}"
  using assms
proof (induction rule: converse_rtranclp_induct)
  case base
  then show ?case by (intro exI [of _ "[]"] exI [of _ c]) (simp add: simple_path_def)
next
  case (step s s')
  obtain us d where us: "simple_path g (us @ [d])" "hd (us @ [d]) = s'" "d \<in> C" "set us \<inter> C = {}"
    using step by blast
  consider "s \<in> C" | "s \<notin> C" "s \<in> set us" | "s \<notin> C" "s \<notin> set (us @ [d])"
    using us(3) by auto
  then show ?case
  proof cases
    case 1
    then show ?thesis by (intro exI [of _ "[]"] exI [of _ s]) (simp add: simple_path_def)
  next
    case 2
    then obtain vs ws where "us = vs @ s # ws" by (meson split_list)
    then show ?thesis
      using us by (intro exI [of _ "s # ws"] exI [of _ d])
        (auto simp: simple_path_def successively_append_iff)
  next
    case 3
    have "simple_path g (s # us @ [d])"
      using us(1,2) step(1) 3 by (cases us) (auto simp: simple_path_def)
    then show ?thesis
      using us(3,4) 3 by (intro exI [of _ "s # us"] exI [of _ d]) auto
  qed
qed

lemma simple_cycle_rotate1: "simple_cycle g c \<Longrightarrow> simple_cycle g (rotate1 c)"
  by (cases c; cases "tl c = []")
     (auto simp: simple_cycle_def simple_path_def successively_append_iff successively_Cons)

lemma simple_cycle_rotate: "simple_cycle g c \<Longrightarrow> simple_cycle g (rotate n c)"
  by (induction n) (auto simp: simple_cycle_rotate1)

lemma simple_cycle_from:
  assumes "simple_cycle g cyc" "d \<in> set cyc"
  shows "\<exists>vs. simple_cycle g (d # vs) \<and> rotation (d # vs) cyc"
proof -
  obtain us vs where cyc: "cyc = us @ d # vs" using assms(2) by (meson split_list)
  then have "rotate (length us) cyc = d # vs @ us" by (simp add: rotate_append)
  then show ?thesis
    using simple_cycle_rotate [OF assms(1), of "length us"] rotation_sym [of cyc "d # vs @ us"]
    unfolding rotation_def by metis
qed

definition covered :: "('a, 'a list) dict \<Rightarrow> 'a list list \<Rightarrow> 'a \<Rightarrow> bool" where
  "covered g cs x \<longleftrightarrow>
     (\<forall>cyc y. simple_cycle g cyc \<and> y \<in> set cyc \<and> (edge g)\<^sup>*\<^sup>* x y \<longrightarrow> found cs cyc)"

lemma covered_mono: "covered g cs x \<Longrightarrow> set cs \<subseteq> set cs' \<Longrightarrow> covered g cs' x"
  unfolding covered_def using found_mono by blast

lemma covered_reachable: "covered g cs x \<Longrightarrow> (edge g)\<^sup>*\<^sup>* x y \<Longrightarrow> covered g cs y"
  unfolding covered_def using rtranclp_trans by metis

lemma explored_covered:
  assumes "explored g cs [s]"
  shows "covered g cs s"
  unfolding covered_def
proof (intro allI impI)
  fix cyc y
  assume *: "simple_cycle g cyc \<and> y \<in> set cyc \<and> (edge g)\<^sup>*\<^sup>* s y"
  obtain us d where us: "simple_path g (us @ [d])" "hd (us @ [d]) = s" "d \<in> set cyc" "set us \<inter> set cyc = {}"
    using simple_path_to [of g s y "set cyc"] * by blast
  obtain vs where vs: "simple_cycle g (d # vs)" "rotation (d # vs) cyc"
    using simple_cycle_from [of g cyc d] * us(3) by blast
  have same: "set (d # vs) = set cyc" using vs(2) by (auto simp: rotation_def)
  have "simple_path g (us @ d # vs)"
    using us(1,4) vs(1) same
    by (auto simp: simple_cycle_def simple_path_def successively_append_iff successively_Cons)
  moreover obtain ext where ext: "us @ d # vs = [s] @ ext"
    using us(2) by (cases us) auto
  moreover have "edge g (last ([s] @ ext)) d"
    using vs(1) unfolding ext [symmetric] by (simp add: simple_cycle_def)
  moreover have "d \<in> set ([s] @ ext)" unfolding ext [symmetric] by simp
  ultimately have "found cs (dropWhile (\<lambda>x. x \<noteq> d) (us @ d # vs))"
    using assms unfolding explored_def by metis
  moreover have "d \<notin> set us" using us(1) by (simp add: simple_path_def)
  then have "dropWhile (\<lambda>x. x \<noteq> d) (us @ d # vs) = d # vs" by (induction us) auto
  ultimately show "found cs cyc" using vs(2) found_rotation by metis
qed

definition search_ok :: "('a, 'a list) dict \<Rightarrow> 'a set \<Rightarrow> 'a cycle_state \<Rightarrow> bool" where
  "search_ok g K st \<longleftrightarrow> cycles_ok g (cycles st) \<and> (\<forall>x \<in> K \<union> visited_nodes st. covered g (cycles st) x)"

lemma visit_start_result:
  assumes "search_ok g K st"
  shows "\<exists>st'. visit_start g x st = Inr st' \<and> search_ok g (insert x K) st'"
proof (cases "x \<in> visited_nodes st")
  case True
  then show ?thesis using assms by (auto simp: visit_start_def search_ok_def)
next
  case False
  have "\<forall>path \<in> set (paths (st\<lparr>paths := [[x]]\<rparr>)). simple_path g path" by (simp add: simple_path_def)
  moreover have "cycles_ok g (cycles (st\<lparr>paths := [[x]]\<rparr>))" using assms by (simp add: search_ok_def)
  ultimately obtain st' where st': "visit_paths g (st\<lparr>paths := [[x]]\<rparr>) = Inr st'" "cycles_ok g (cycles st')"
    "set (cycles st) \<subseteq> set (cycles st')" "explored g (cycles st') [x]"
    "visited_nodes st' \<subseteq> visited_nodes st \<union> {y. (edge g)\<^sup>*\<^sup>* x y}"
    using visit_paths_result [of "st\<lparr>paths := [[x]]\<rparr>" g] by auto
  have x: "covered g (cycles st') x" using st'(4) by (rule explored_covered)
  have old: "covered g (cycles st') y" if "y \<in> K \<union> visited_nodes st" for y
  proof -
    have "covered g (cycles st) y" using that assms by (simp add: search_ok_def)
    then show ?thesis using st'(3) by (rule covered_mono)
  qed
  have "covered g (cycles st') y" if "y \<in> insert x K \<union> visited_nodes st'" for y
    using that x old covered_reachable [OF x] st'(5) by blast
  then show ?thesis using False st'(1,2) by (auto simp: visit_start_def search_ok_def)
qed

lemma visit_starts_result:
  "search_ok g K st \<Longrightarrow> \<exists>st'. rfold (visit_start g) xs st = Inr st' \<and> search_ok g (K \<union> set xs) st'"
proof (induction xs arbitrary: K st)
  case (Cons x xs)
  obtain st1 where "visit_start g x st = Inr st1" "search_ok g (insert x K) st1"
    using visit_start_result [OF Cons.prems] by blast
  with Cons.IH [of "insert x K" st1] show ?case by simp
qed simp

lemma simple_cycle_key: "simple_cycle g cyc \<Longrightarrow> y \<in> set cyc \<Longrightarrow> y \<in> set (dict_keys g)"
proof -
  assume *: "simple_cycle g cyc" "y \<in> set cyc"
  obtain vs where "simple_cycle g (y # vs)" using simple_cycle_from [OF *] by blast
  then obtain z where "edge g y z"
    by (cases vs) (auto simp: simple_cycle_def simple_path_def)
  then obtain cs where "map_of g y = Some cs" by (auto simp: edge_def)
  then show ?thesis by (metis dict_keys_def dom_map_of_conv_image_fst domI list.set_map)
qed

section \<open>Properties\<close>

text \<open>C25. For every list of pairs and every order of the dictionary keys, \<^verbatim>\<open>topsort\<close> returns a list exactly
  when the pairs are acyclic; the list holds every element once, each after all its parents.\<close>

theorem topsort_correct:
  assumes "iteration_order ord"
  shows "(acyclic (set ps) \<longleftrightarrow> (\<exists>l. topsort ord ps = Inr l)) \<and>
    (\<forall>l. topsort ord ps = Inr l \<longrightarrow> distinct l \<and> set l = elements ps \<and>
       (\<forall>us c vs. l = us @ c # vs \<longrightarrow> (\<forall>p. (p, c) \<in> set ps \<longrightarrow> p \<in> set us)))"
proof -
  obtain l where l: "distinct l" "parents_first ps l" "set l \<subseteq> elements ps"
    "topsort ord ps = Inr l \<and> elements ps \<subseteq> set l \<or>
     (\<exists>np ch. topsort ord ps = Inl (CycleError l np ch)) \<and> blocked ps (elements ps - set l)"
    using topsort_result [OF assms, of ps] by blast
  then consider "topsort ord ps = Inr l" "elements ps \<subseteq> set l" "acyclic (set ps)"
    | np ch where "topsort ord ps = Inl (CycleError l np ch)" "\<not> acyclic (set ps)"
    using parents_first_acyclic blocked_cyclic by blast
  then show ?thesis
    using l(1-3) by cases (auto simp: parents_first_def)
qed

text \<open>C27. When the pairs have a cycle, \<^verbatim>\<open>topsort\<close> raises \<^verbatim>\<open>CycleError\<close> and never a \<^verbatim>\<open>KeyError\<close>: the
  reported \<^verbatim>\<open>num_parents\<close> holds exactly the elements that are not in the reported answer, each with
  its number of parents among them, which is positive.\<close>

theorem topsort_cycle_error:
  assumes "iteration_order ord" "\<not> acyclic (set ps)"
  shows "\<exists>answer np ch. topsort ord ps = Inl (CycleError answer np ch) \<and> np \<noteq> [] \<and>
    (\<forall>x. map_of np x = (if x \<in> elements ps - set answer
       then Some (int (length (filter (\<lambda>(p, c). c = x \<and> p \<notin> set answer) ps))) else None)) \<and>
    (\<forall>x n. map_of np x = Some n \<longrightarrow> 0 < n)"
proof -
  obtain l where l: "parents_first ps l" "topsort ord ps = Inr l \<and> elements ps \<subseteq> set l \<or>
     (\<exists>np ch. topsort ord ps = Inl (CycleError l np ch) \<and> counts_ok ps (set l) np ch \<and>
        blocked ps (elements ps - set l))"
    using topsort_result [OF assms(1), of ps] by blast
  with assms(2) parents_first_acyclic obtain np ch where
    e: "topsort ord ps = Inl (CycleError l np ch)" "counts_ok ps (set l) np ch" "blocked ps (elements ps - set l)"
    by blast
  have np: "map_of np x = (if x \<in> elements ps - set l then Some (open_parents ps (set l) x) else None)" for x
    using e(2) by (simp add: counts_ok_def)
  have "open_parents ps (set l) x \<noteq> 0" if "x \<in> elements ps - set l" for x
    using e(3) that by (auto simp: blocked_def open_parents_zero)
  then have "0 < open_parents ps (set l) x" if "x \<in> elements ps - set l" for x
    using that open_parents_nonneg [of ps "set l" x] by (simp add: order_less_le)
  then have "\<forall>x n. map_of np x = Some n \<longrightarrow> 0 < n" by (simp add: np)
  moreover have "np \<noteq> []" using e(3) counts_ok_empty [OF e(2)] by (auto simp: blocked_def)
  moreover have "open_parents ps (set l) x = int (length (filter (\<lambda>(p, c). c = x \<and> p \<notin> set l) ps))" for x
    by (simp add: open_parents_def case_prod_beta')
  ultimately show ?thesis using e(1) np by auto
qed

text \<open>C26. \<^verbatim>\<open>topsort_levels\<close> ends normally exactly when the pairs are acyclic, and then its levels hold every
  element once. In every case no level is empty and level \<open>k\<close> holds exactly the elements, not in an
  earlier level, all of whose parents are in earlier levels; a cycle is reported, never a \<^verbatim>\<open>KeyError\<close>.\<close>

theorem topsort_levels_correct:
  assumes "iteration_order ord" "topsort_levels ord ps = (ls, out)"
  shows "(\<forall>k < length ls. ls ! k \<noteq> [] \<and> set (ls ! k) =
      {x \<in> elements ps - set (concat (take k ls)). \<forall>p. (p, x) \<in> set ps \<longrightarrow> p \<in> set (concat (take k ls))}) \<and>
    distinct (concat ls) \<and>
    (if acyclic (set ps) then out = StopIteration \<and> set (concat ls) = elements ps
     else \<exists>np ch. out = LevelsCycle np ch \<and> set (dict_keys np) = elements ps - set (concat ls))"
proof -
  have lay: "layered ps {} ls" and out: "out = StopIteration \<and> elements ps \<subseteq> set (concat ls) \<or>
      (\<exists>np ch. out = LevelsCycle np ch \<and> counts_ok ps (set (concat ls)) np ch \<and>
         blocked ps (elements ps - set (concat ls)))"
    using topsort_levels_result [OF assms(1), of ps] assms(2) by auto
  have "parents_first ps (concat ls)"
    using layered_parents_first [OF lay] by (auto simp: parents_first_def parents_closed_def)
  with out parents_first_acyclic [of ps "concat ls"] blocked_cyclic [of ps]
  consider "acyclic (set ps)" "out = StopIteration" "elements ps \<subseteq> set (concat ls)"
    | np ch where "\<not> acyclic (set ps)" "out = LevelsCycle np ch" "counts_ok ps (set (concat ls)) np ch"
    by blast
  then have "if acyclic (set ps) then out = StopIteration \<and> set (concat ls) = elements ps
     else \<exists>np ch. out = LevelsCycle np ch \<and> set (dict_keys np) = elements ps - set (concat ls)"
    using layered_distinct [OF lay] counts_ok_keys [of ps "set (concat ls)"] by cases (simp_all, blast)
  moreover have "ls ! k \<noteq> []" if "k < length ls" for k
    using layered_nonempty [OF lay] that by (metis nth_mem)
  ultimately show ?thesis
    using layered_nth [OF lay] layered_distinct [OF lay]
    by (simp add: free_items_def open_parents_zero set_eq_iff)
qed

text \<open>C21. \<^verbatim>\<open>find_cycles\<close> terminates on every graph without raising. It yields only simple cycles, no two of
  them rotations of each other, and every simple cycle of the graph up to rotation.\<close>

theorem find_cycles_correct:
  assumes "iteration_order ord"
  shows "\<exists>cs. find_cycles ord g = Inr cs \<and> (\<forall>c \<in> set cs. simple_cycle g c) \<and>
    (\<forall>i j. i < j \<longrightarrow> j < length cs \<longrightarrow> \<not> rotation (cs ! i) (cs ! j)) \<and>
    (\<forall>c. simple_cycle g c \<longrightarrow> (\<exists>c' \<in> set cs. rotation c' c))"
proof -
  have ord: "dict_iteration ord" using assms by (simp add: iteration_order_locale)
  have "search_ok g {} \<lparr>paths = [], visited_nodes = {}, cycles = []\<rparr>"
    by (simp add: search_ok_def cycles_ok_def)
  from visit_starts_result [OF this, of "ord (dict_keys g)"] obtain st where
    st: "find_cycles ord g = Inr (cycles st)" "search_ok g (set (dict_keys g)) st"
    by (auto simp: find_cycles_def dict_iteration.ord_set [OF ord])
  have "found (cycles st) c" if c: "simple_cycle g c" for c
  proof -
    have "c \<noteq> []" using c by (simp add: simple_cycle_def simple_path_def)
    then have "hd c \<in> set c" by simp
    with simple_cycle_key [OF c this] st(2) c show ?thesis by (auto simp: search_ok_def covered_def)
  qed
  then show ?thesis
    using st by (auto simp: search_ok_def cycles_ok_def found_def sorted_wrt_iff_nth_less)
qed

section \<open>Concrete instances\<close>

theorem topsort_correct_witness:
  "topsort id [(1, 2), (1, 3), (2, 4), (3, 4 :: int)] = Inr [1, 2, 3, 4] \<and>
   acyclic (set [(1, 2), (1, 3), (2, 4), (3, 4 :: int)])"
proof -
  have "topsort id [(1, 2), (1, 3), (2, 4), (3, 4 :: int)] = Inr [1, 2, 3, 4]" by code_simp
  with topsort_correct [OF iteration_order_id, of "[(1, 2), (1, 3), (2, 4), (3, 4 :: int)]"]
  show ?thesis by blast
qed

theorem topsort_cycle_error_witness:
  "\<exists>answer np ch. topsort id [(1, 2), (2, 3), (3, 2 :: int)] = Inl (CycleError answer np ch) \<and> np \<noteq> []"
proof -
  have "(2, 2) \<in> (set [(1, 2), (2, 3), (3, 2 :: int)])\<^sup>+"
    by (rule trancl_into_trancl [OF r_into_trancl, of 2 3]) simp_all
  then have "\<not> acyclic (set [(1, 2), (2, 3), (3, 2 :: int)])" by (auto simp: acyclic_def)
  from topsort_cycle_error [OF iteration_order_id this] show ?thesis by blast
qed

theorem topsort_levels_correct_witness:
  "topsort_levels id [(1, 2), (1, 3), (2, 3 :: int)] = ([[1], [2], [3]], StopIteration) \<and>
   acyclic (set [(1, 2), (1, 3), (2, 3 :: int)])"
proof -
  have r: "topsort_levels id [(1, 2), (1, 3), (2, 3 :: int)] = ([[1], [2], [3]], StopIteration)"
    by code_simp
  have "acyclic (set [(1, 2), (1, 3), (2, 3 :: int)])"
    using topsort_levels_correct [OF iteration_order_id r] by (auto split: if_splits)
  with r show ?thesis by simp
qed

theorem find_cycles_correct_witness:
  "find_cycles id [(1, [2]), (2, [3, 1]), (3, [2 :: int])] = Inr [[1, 2], [2, 3]] \<and>
   simple_cycle [(1, [2]), (2, [3, 1]), (3, [2 :: int])] [2, 3]"
proof -
  have r: "find_cycles id [(1, [2]), (2, [3, 1]), (3, [2 :: int])] = Inr [[1, 2], [2, 3]]"
    by code_simp
  with find_cycles_correct [OF iteration_order_id, of "[(1, [2]), (2, [3, 1]), (3, [2 :: int])]"]
  show ?thesis by auto
qed

end
