(* ===== verification/GridData.thy ===== *)
theory GridData
  imports PyNum PyString
begin

text \<open>
  The data model of utils/grid.py: \<^verbatim>\<open>DataRange\<close>, the event classes, \<^verbatim>\<open>TimelineDataRange\<close>,
  \<^verbatim>\<open>TimelineEvent\<close>, \<^verbatim>\<open>Timeline\<close>, \<^verbatim>\<open>Timelines\<close>, \<^verbatim>\<open>Colors\<close> and the parser \<^verbatim>\<open>read_data\<close>.
  Times in the data are the integers the parser reads; the bounds a renderer asks for may be floats,
  so the searches take a rational key. The module runs under Python 2 only (\<^verbatim>\<open>has_key\<close>,
  \<^verbatim>\<open>list.sort(cmp)\<close>), whose division of integers floors. A method that returns a reference to an
  element of a list, which its caller then changes, is modelled by the position of that element.
\<close>

section \<open>Sorting with a comparison function\<close>

text \<open>\<^verbatim>\<open>list.sort(cmp)\<close> is stable.\<close>

fun insert_cmp :: "('a \<Rightarrow> 'a \<Rightarrow> int) \<Rightarrow> 'a \<Rightarrow> 'a list \<Rightarrow> 'a list" where
  "insert_cmp cmp x [] = [x]"
| "insert_cmp cmp x (y # ys) = (if cmp x y \<le> 0 then x # y # ys else y # insert_cmp cmp x ys)"

definition sort_cmp :: "('a \<Rightarrow> 'a \<Rightarrow> int) \<Rightarrow> 'a list \<Rightarrow> 'a list" where
  "sort_cmp cmp xs = foldr (insert_cmp cmp) xs []"

lemma insert_cmp_insort_key:
  assumes "\<And>a b. cmp a b \<le> 0 \<longleftrightarrow> f a \<le> f b"
  shows "insert_cmp cmp x ys = insort_key f x ys"
  by (induction ys) (auto simp: assms)

lemma sort_cmp_sort_key:
  assumes "\<And>a b. cmp a b \<le> 0 \<longleftrightarrow> f a \<le> f b"
  shows "sort_cmp cmp xs = sort_key f xs"
proof -
  have "insert_cmp cmp = insort_key f"
    using insert_cmp_insort_key [of cmp f] assms by blast
  then show ?thesis by (simp add: sort_cmp_def sort_key_def)
qed

section \<open>Ranges and events\<close>

record data_range =
  range_start :: int
  range_end :: int
  range_value :: string

text \<open>\<^verbatim>\<open>EventString\<close> and \<^verbatim>\<open>EventInt\<close> differ in the type of the value.\<close>

record 'v event =
  event_at :: int
  event_value :: 'v

definition ranges_cmp :: "data_range \<Rightarrow> data_range \<Rightarrow> int" where
  "ranges_cmp a b =
     (let diff = range_start a - range_start b
      in if diff < 0 then - 1 else if diff > 0 then 1 else 0)"

definition events_cmp :: "'v event \<Rightarrow> 'v event \<Rightarrow> int" where
  "events_cmp a b =
     (let diff = event_at a - event_at b
      in if diff < 0 then - 1 else if diff > 0 then 1 else 0)"

text \<open>
  The loop of both \<^verbatim>\<open>__search\<close> methods: \<open>hit\<close> is the test that returns, \<open>below\<close> the test
  \<^verbatim>\<open>key < ...\<close>. \<open>Inl i\<close> is a hit at \<open>i\<close>; \<open>Inr l\<close> is the end of the loop with the value of \<^verbatim>\<open>l\<close>.
\<close>

function bisect :: "('a \<Rightarrow> bool) \<Rightarrow> ('a \<Rightarrow> bool) \<Rightarrow> 'a list \<Rightarrow> int \<Rightarrow> int \<Rightarrow> int + int" where
  "bisect hit below xs l u =
     (if l \<le> u
      then let i = (l + u) div 2
           in if hit (xs ! nat i) then Inl i
              else if below (xs ! nat i) then bisect hit below xs l (i - 1)
              else bisect hit below xs (i + 1) u
      else Inr l)"
  by pat_completeness auto
termination
  by (relation "measure (\<lambda>(hit, below, xs, l, u). nat (u - l + 1))") auto

declare bisect.simps [simp del]

record timeline_data_range =
  dr_name :: string
  dr_ranges :: "data_range list"

definition new_timeline_data_range :: "string \<Rightarrow> timeline_data_range" where
  "new_timeline_data_range name = \<lparr>dr_name = name, dr_ranges = []\<rparr>"

definition search_ranges :: "timeline_data_range \<Rightarrow> rat \<Rightarrow> int" where
  "search_ranges t key =
     (case bisect (\<lambda>r. of_int (range_start r) \<le> key \<and> key \<le> of_int (range_end r))
             (\<lambda>r. key < of_int (range_start r)) (dr_ranges t) 0 (int (length (dr_ranges t)) - 1) of
        Inl i \<Rightarrow> i
      | Inr _ \<Rightarrow> - 1)"

definition add_range :: "data_range \<Rightarrow> timeline_data_range \<Rightarrow> timeline_data_range" where
  "add_range r t = t\<lparr>dr_ranges := dr_ranges t @ [r]\<rparr>"

definition get_ranges :: "timeline_data_range \<Rightarrow> rat \<Rightarrow> rat \<Rightarrow> data_range list" where
  "get_ranges t start stop =
     (let s = search_ranges t start; e = search_ranges t stop
      in if s = - 1 \<and> e = - 1 then []
         else if s = - 1 then py_slice (dr_ranges t) 0 (e + 1)
         else if e = - 1 then py_slice (dr_ranges t) s (int (length (dr_ranges t)))
         else py_slice (dr_ranges t) s (e + 1))"

definition get_ranges_bounds :: "timeline_data_range \<Rightarrow> rat \<Rightarrow> rat \<Rightarrow> int \<times> int" where
  "get_ranges_bounds t start stop =
     (let s = search_ranges t start; e = search_ranges t stop
      in if s = - 1 \<and> e = - 1 then (0, 0)
         else if s = - 1 then (0, e + 1)
         else if e = - 1 then (s, int (length (dr_ranges t)))
         else (s, e + 1))"

definition sort_ranges :: "timeline_data_range \<Rightarrow> timeline_data_range" where
  "sort_ranges t = t\<lparr>dr_ranges := sort_cmp ranges_cmp (dr_ranges t)\<rparr>"

definition ranges_get_bounds :: "timeline_data_range \<Rightarrow> int \<times> int" where
  "ranges_get_bounds t =
     (if length (dr_ranges t) > 0
      then (range_start (dr_ranges t ! 0), range_end (dr_ranges t ! (length (dr_ranges t) - 1)))
      else (0, 0))"

record 'v timeline_event =
  te_name :: string
  te_events :: "'v event list"

definition new_timeline_event :: "string \<Rightarrow> 'v timeline_event" where
  "new_timeline_event name = \<lparr>te_name = name, te_events = []\<rparr>"

definition search_events :: "'v timeline_event \<Rightarrow> rat \<Rightarrow> int" where
  "search_events t key =
     (case bisect (\<lambda>e. key = of_int (event_at e)) (\<lambda>e. key < of_int (event_at e)) (te_events t)
             0 (int (length (te_events t)) - 1) of
        Inl i \<Rightarrow> i
      | Inr l \<Rightarrow> l)"

definition add_event :: "'v event \<Rightarrow> 'v timeline_event \<Rightarrow> 'v timeline_event" where
  "add_event e t = t\<lparr>te_events := te_events t @ [e]\<rparr>"

definition get_events :: "'v timeline_event \<Rightarrow> rat \<Rightarrow> rat \<Rightarrow> 'v event list" where
  "get_events t start stop =
     py_slice (te_events t) (search_events t start) (search_events t stop + 1)"

definition get_events_bounds :: "'v timeline_event \<Rightarrow> rat \<Rightarrow> rat \<Rightarrow> int \<times> int" where
  "get_events_bounds t start stop = (search_events t start, search_events t stop + 1)"

definition sort_events :: "'v timeline_event \<Rightarrow> 'v timeline_event" where
  "sort_events t = t\<lparr>te_events := sort_cmp events_cmp (te_events t)\<rparr>"

definition events_get_bounds :: "'v timeline_event \<Rightarrow> int \<times> int" where
  "events_get_bounds t =
     (if length (te_events t) > 0
      then (event_at (te_events t ! 0), event_at (te_events t ! (length (te_events t) - 1)))
      else (0, 0))"

section \<open>Timelines\<close>

record timeline =
  tl_name :: string
  tl_ranges :: "timeline_data_range list"
  tl_event_str :: "string timeline_event list"
  tl_event_int :: "int timeline_event list"

definition new_timeline :: "string \<Rightarrow> timeline" where
  "new_timeline name = \<lparr>tl_name = name, tl_ranges = [], tl_event_str = [], tl_event_int = []\<rparr>"

text \<open>
  The loop shared by \<^verbatim>\<open>get_range\<close>, \<^verbatim>\<open>get_event_str\<close>, \<^verbatim>\<open>get_event_int\<close> and \<^verbatim>\<open>Timelines.get\<close>: the first
  element with the given name, or a new one at the end. The result is the position of the element
  and the list it is in.
\<close>

fun find_name :: "('a \<Rightarrow> string) \<Rightarrow> string \<Rightarrow> 'a list \<Rightarrow> nat option" where
  "find_name nm name [] = None"
| "find_name nm name (x # xs) =
     (if nm x = name then Some 0 else map_option Suc (find_name nm name xs))"

definition get_named :: "('a \<Rightarrow> string) \<Rightarrow> (string \<Rightarrow> 'a) \<Rightarrow> string \<Rightarrow> 'a list \<Rightarrow> nat \<times> 'a list" where
  "get_named nm fresh name xs =
     (case find_name nm name xs of
        Some i \<Rightarrow> (i, xs)
      | None \<Rightarrow> (length xs, xs @ [fresh name]))"

definition get_range :: "string \<Rightarrow> timeline \<Rightarrow> nat \<times> timeline" where
  "get_range name t =
     (case get_named dr_name new_timeline_data_range name (tl_ranges t) of
        (i, rs) \<Rightarrow> (i, t\<lparr>tl_ranges := rs\<rparr>))"

definition get_event_str :: "string \<Rightarrow> timeline \<Rightarrow> nat \<times> timeline" where
  "get_event_str name t =
     (case get_named te_name new_timeline_event name (tl_event_str t) of
        (i, es) \<Rightarrow> (i, t\<lparr>tl_event_str := es\<rparr>))"

definition get_event_int :: "string \<Rightarrow> timeline \<Rightarrow> nat \<times> timeline" where
  "get_event_int name t =
     (case get_named te_name new_timeline_event name (tl_event_int t) of
        (i, es) \<Rightarrow> (i, t\<lparr>tl_event_int := es\<rparr>))"

definition sort_timeline :: "timeline \<Rightarrow> timeline" where
  "sort_timeline t =
     t\<lparr>tl_ranges := map sort_ranges (tl_ranges t),
       tl_event_int := map sort_events (tl_event_int t),
       tl_event_str := map sort_events (tl_event_str t)\<rparr>"

definition widen :: "int \<times> int \<Rightarrow> int \<times> int \<Rightarrow> int \<times> int" where
  "widen inner acc =
     (if fst inner < fst acc then fst inner else fst acc,
      if snd inner > snd acc then snd inner else snd acc)"

definition timeline_get_bounds :: "timeline \<Rightarrow> int \<times> int" where
  "timeline_get_bounds t =
     fold (\<lambda>e. widen (events_get_bounds e)) (tl_event_int t)
       (fold (\<lambda>e. widen (events_get_bounds e)) (tl_event_str t)
         (fold (\<lambda>r. widen (ranges_get_bounds r)) (tl_ranges t) (0, 0)))"

type_synonym timelines = "timeline list"

definition timelines_get :: "string \<Rightarrow> timelines \<Rightarrow> nat \<times> timelines" where
  "timelines_get name ts = get_named tl_name new_timeline name ts"

definition sort_timelines :: "timelines \<Rightarrow> timelines" where
  "sort_timelines ts = map sort_timeline ts"

definition timelines_get_bounds :: "timelines \<Rightarrow> int \<times> int" where
  "timelines_get_bounds ts = fold (\<lambda>t. widen (timeline_get_bounds t)) ts (0, 0)"

definition get_all_range_values :: "(string list \<Rightarrow> string list) \<Rightarrow> timelines \<Rightarrow> string list" where
  "get_all_range_values ord ts =
     ord (dict_keys
       (fold (\<lambda>t. fold (\<lambda>rs. fold (\<lambda>r. dict_set (range_value r) (1 :: int)) (dr_ranges rs)) (tl_ranges t))
          ts []))"

section \<open>Colors\<close>

text \<open>
  Components are numbers; \<^verbatim>\<open>default_colors\<close> is an attribute of the class, so it is shared by all
  instances: it is part of the state here, and \<^verbatim>\<open>pop\<close> takes its last element.
\<close>

record color =
  color_r :: int
  color_g :: int
  color_b :: int

definition new_color :: "int \<Rightarrow> int \<Rightarrow> int \<Rightarrow> color" where
  "new_color r g b = \<lparr>color_r = r, color_g = g, color_b = b\<rparr>"

definition set_color :: "int \<Rightarrow> int \<Rightarrow> int \<Rightarrow> color \<Rightarrow> color" where
  "set_color r g b c = c\<lparr>color_r := r, color_g := g, color_b := b\<rparr>"

record colors =
  color_table :: "(string, color) dict"
  default_colors :: "color list"

definition class_default_colors :: "color list" where
  "class_default_colors =
     [new_color 1 0 0, new_color 0 1 0, new_color 0 0 1, new_color 1 1 0, new_color 1 0 1, new_color 0 1 1]"

definition new_colors :: "color list \<Rightarrow> colors" where
  "new_colors defaults = \<lparr>color_table = [], default_colors = defaults\<rparr>"

definition colors_add :: "string \<Rightarrow> color \<Rightarrow> colors \<Rightarrow> colors" where
  "colors_add name c cs = cs\<lparr>color_table := dict_set name c (color_table cs)\<rparr>"

definition colors_lookup :: "string \<Rightarrow> colors \<Rightarrow> (color \<times> colors) res" where
  "colors_lookup name cs =
     rbind
       (if \<not> has_key (color_table cs) name
        then (if default_colors cs = [] then Inl IndexError
              else Inr (colors_add name (last (default_colors cs))
                          (cs\<lparr>default_colors := butlast (default_colors cs)\<rparr>)))
        else Inr cs)
       (\<lambda>cs. rbind (dict_get (color_table cs) name) (\<lambda>c. Inr (c, cs)))"

section \<open>read_data\<close>

text \<open>
  The four regular expressions. \<^verbatim>\<open>[^ ]+\<close> and \<^verbatim>\<open>[0-9]+\<close> are greedy and what follows each of them cannot
  match a character they accept, so the match is the maximal run and nothing is gained by
  backtracking. \<^verbatim>\<open>match\<close> ignores what follows the pattern.
\<close>

definition match_literal :: "string \<Rightarrow> string \<Rightarrow> string option" where
  "match_literal lit s = (if startswith s lit then Some (drop (length lit) s) else None)"

definition match_run :: "(char \<Rightarrow> bool) \<Rightarrow> string \<Rightarrow> (string \<times> string) option" where
  "match_run P s =
     (if takeWhile P s = [] then None else Some (takeWhile P s, dropWhile P s))"

definition match_field :: "(char \<Rightarrow> bool) \<Rightarrow> string \<Rightarrow> (string \<times> string) option" where
  "match_field P s =
     Option.bind (match_run P s)
       (\<lambda>(w, rest). Option.bind (match_literal '' '' rest) (\<lambda>rest. Some (w, rest)))"

definition not_blank :: "char \<Rightarrow> bool" where
  "not_blank c \<longleftrightarrow> c \<noteq> CHR '' ''"

definition is_hex :: "char \<Rightarrow> bool" where
  "is_hex c \<longleftrightarrow> c \<in> set ''0123456789abcdefABCDEF''"

definition match_hex2 :: "string \<Rightarrow> (string \<times> string) option" where
  "match_hex2 s = (if length s \<ge> 2 \<and> is_hex (s ! 0) \<and> is_hex (s ! 1) then Some (take 2 s, drop 2 s) else None)"

definition match_m1 :: "string \<Rightarrow> (string \<times> string \<times> string \<times> string \<times> string) option" where
  "match_m1 s =
     Option.bind (match_literal ''range '' s)
       (\<lambda>s. Option.bind (match_field not_blank s)
       (\<lambda>(g1, s). Option.bind (match_field not_blank s)
       (\<lambda>(g2, s). Option.bind (match_field not_blank s)
       (\<lambda>(g3, s). Option.bind (match_field is_digit s)
       (\<lambda>(g4, s). Option.bind (match_run is_digit s)
       (\<lambda>(g5, s). Some (g1, g2, g3, g4, g5)))))))"

definition match_m2 :: "string \<Rightarrow> (string \<times> string \<times> string \<times> string) option" where
  "match_m2 s =
     Option.bind (match_literal ''event-str '' s)
       (\<lambda>s. Option.bind (match_field not_blank s)
       (\<lambda>(g1, s). Option.bind (match_field not_blank s)
       (\<lambda>(g2, s). Option.bind (match_field not_blank s)
       (\<lambda>(g3, s). Option.bind (match_run is_digit s)
       (\<lambda>(g4, s). Some (g1, g2, g3, g4))))))"

definition match_m3 :: "string \<Rightarrow> (string \<times> string \<times> string \<times> string) option" where
  "match_m3 s =
     Option.bind (match_literal ''event-int '' s)
       (\<lambda>s. Option.bind (match_field not_blank s)
       (\<lambda>(g1, s). Option.bind (match_field not_blank s)
       (\<lambda>(g2, s). Option.bind (match_field is_digit s)
       (\<lambda>(g3, s). Option.bind (match_run is_digit s)
       (\<lambda>(g4, s). Some (g1, g2, g3, g4))))))"

definition match_m4 :: "string \<Rightarrow> (string \<times> string \<times> string \<times> string) option" where
  "match_m4 s =
     Option.bind (match_literal ''color '' s)
       (\<lambda>s. Option.bind (match_field not_blank s)
       (\<lambda>(g1, s). Option.bind (match_literal ''#'' s)
       (\<lambda>s. Option.bind (match_hex2 s)
       (\<lambda>(g2, s). Option.bind (match_hex2 s)
       (\<lambda>(g3, s). Option.bind (match_hex2 s)
       (\<lambda>(g4, s). Some (g1, g2, g3, g4)))))))"

datatype grid_line =
    RangeLine string string data_range
  | EventStrLine string string "string event"
  | EventIntLine string string "int event"
  | ColorLine string color
  | OtherLine

definition parse_line :: "string \<Rightarrow> grid_line res" where
  "parse_line line =
     (case match_m1 line of
        Some (g1, g2, g3, g4, g5) \<Rightarrow>
          rbind (py_int 10 g4) (\<lambda>s. rbind (py_int 10 g5)
            (\<lambda>e. Inr (RangeLine g1 g2 \<lparr>range_start = s, range_end = e, range_value = g3\<rparr>)))
      | None \<Rightarrow>
     (case match_m2 line of
        Some (g1, g2, g3, g4) \<Rightarrow>
          rbind (py_int 10 g4) (\<lambda>a. Inr (EventStrLine g1 g2 \<lparr>event_at = a, event_value = g3\<rparr>))
      | None \<Rightarrow>
     (case match_m3 line of
        Some (g1, g2, g3, g4) \<Rightarrow>
          rbind (py_int 10 g3) (\<lambda>v. rbind (py_int 10 g4)
            (\<lambda>a. Inr (EventIntLine g1 g2 \<lparr>event_at = a, event_value = v\<rparr>)))
      | None \<Rightarrow>
     (case match_m4 line of
        Some (g1, g2, g3, g4) \<Rightarrow>
          rbind (py_int 16 g2) (\<lambda>r. rbind (py_int 16 g3) (\<lambda>g. rbind (py_int 16 g4)
            (\<lambda>b. Inr (ColorLine g1 (new_color (r div 255) (g div 255) (b div 255))))))
      | None \<Rightarrow> Inr OtherLine))))"

definition add_range_line :: "string \<Rightarrow> string \<Rightarrow> data_range \<Rightarrow> timelines \<Rightarrow> timelines" where
  "add_range_line g1 g2 r ts =
     (case timelines_get g1 ts of (i, ts) \<Rightarrow>
      case get_range g2 (ts ! i) of (j, t) \<Rightarrow>
        ts[i := t\<lparr>tl_ranges := (tl_ranges t)[j := add_range r (tl_ranges t ! j)]\<rparr>])"

definition add_event_str_line :: "string \<Rightarrow> string \<Rightarrow> string event \<Rightarrow> timelines \<Rightarrow> timelines" where
  "add_event_str_line g1 g2 e ts =
     (case timelines_get g1 ts of (i, ts) \<Rightarrow>
      case get_event_str g2 (ts ! i) of (j, t) \<Rightarrow>
        ts[i := t\<lparr>tl_event_str := (tl_event_str t)[j := add_event e (tl_event_str t ! j)]\<rparr>])"

definition add_event_int_line :: "string \<Rightarrow> string \<Rightarrow> int event \<Rightarrow> timelines \<Rightarrow> timelines" where
  "add_event_int_line g1 g2 e ts =
     (case timelines_get g1 ts of (i, ts) \<Rightarrow>
      case get_event_int g2 (ts ! i) of (j, t) \<Rightarrow>
        ts[i := t\<lparr>tl_event_int := (tl_event_int t)[j := add_event e (tl_event_int t ! j)]\<rparr>])"

fun apply_line :: "grid_line \<Rightarrow> colors \<times> timelines \<Rightarrow> colors \<times> timelines" where
  "apply_line (RangeLine g1 g2 r) (cs, ts) = (cs, add_range_line g1 g2 r ts)"
| "apply_line (EventStrLine g1 g2 e) (cs, ts) = (cs, add_event_str_line g1 g2 e ts)"
| "apply_line (EventIntLine g1 g2 e) (cs, ts) = (cs, add_event_int_line g1 g2 e ts)"
| "apply_line (ColorLine g1 c) (cs, ts) = (colors_add g1 c cs, ts)"
| "apply_line OtherLine st = st"

definition read_line :: "string \<Rightarrow> colors \<times> timelines \<Rightarrow> (colors \<times> timelines) res" where
  "read_line line st = rbind (parse_line line) (\<lambda>l. Inr (apply_line l st))"

definition read_data :: "string list \<Rightarrow> (colors \<times> timelines) res" where
  "read_data lines =
     rbind (rfold read_line lines (new_colors class_default_colors, []))
       (\<lambda>(cs, ts). Inr (cs, sort_timelines ts))"

section \<open>Binary search\<close>

text \<open>
  What the bisection needs of the list: the elements for which the search must go left form a final
  segment, those for which it must go right an initial one.
\<close>

locale sorted_search =
  fixes hit below :: "'a \<Rightarrow> bool" and xs :: "'a list"
  assumes below_up: "i < j \<Longrightarrow> j < length xs \<Longrightarrow> below (xs ! i) \<Longrightarrow> \<not> hit (xs ! i) \<Longrightarrow>
      below (xs ! j) \<and> \<not> hit (xs ! j)"
    and above_down: "i < j \<Longrightarrow> j < length xs \<Longrightarrow> \<not> below (xs ! j) \<Longrightarrow> \<not> hit (xs ! j) \<Longrightarrow>
      \<not> below (xs ! i) \<and> \<not> hit (xs ! i)"
begin

definition right_of :: "int \<Rightarrow> bool" where
  "right_of u \<longleftrightarrow> (\<forall>i < length xs. u < int i \<longrightarrow> below (xs ! i) \<and> \<not> hit (xs ! i))"

definition left_of :: "int \<Rightarrow> bool" where
  "left_of l \<longleftrightarrow> (\<forall>i < length xs. int i < l \<longrightarrow> \<not> below (xs ! i) \<and> \<not> hit (xs ! i))"

lemma right_of_step:
  "0 \<le> i \<Longrightarrow> i < int (length xs) \<Longrightarrow> below (xs ! nat i) \<Longrightarrow> \<not> hit (xs ! nat i) \<Longrightarrow> right_of (i - 1)"
  unfolding right_of_def
proof (intro allI impI)
  fix j
  assume i: "0 \<le> i" "i < int (length xs)" "below (xs ! nat i)" "\<not> hit (xs ! nat i)"
    and j: "j < length xs" "i - 1 < int j"
  then have "j = nat i \<or> nat i < j" by linarith
  then show "below (xs ! j) \<and> \<not> hit (xs ! j)" using i j below_up [of "nat i" j] by auto
qed

lemma left_of_step:
  "0 \<le> i \<Longrightarrow> i < int (length xs) \<Longrightarrow> \<not> below (xs ! nat i) \<Longrightarrow> \<not> hit (xs ! nat i) \<Longrightarrow> left_of (i + 1)"
  unfolding left_of_def
proof (intro allI impI)
  fix j
  assume i: "0 \<le> i" "i < int (length xs)" "\<not> below (xs ! nat i)" "\<not> hit (xs ! nat i)"
    and j: "j < length xs" "int j < i + 1"
  then have "j = nat i \<or> j < nat i" "nat i < length xs" by linarith+
  then show "\<not> below (xs ! j) \<and> \<not> hit (xs ! j)" using i above_down [of j "nat i"] by auto
qed

lemma bisect_range:
  assumes "0 \<le> l" "u < int (length xs)" "l \<le> u + 1" "left_of l" "right_of u"
  shows "case bisect hit below xs l u of
      Inl i \<Rightarrow> 0 \<le> i \<and> i < int (length xs) \<and> hit (xs ! nat i)
    | Inr m \<Rightarrow> 0 \<le> m \<and> m \<le> int (length xs) \<and> left_of m \<and> right_of (m - 1)"
  using assms
proof (induction "nat (u - l + 1)" arbitrary: l u rule: less_induct)
  case less
  define i where "i = (l + u) div 2"
  show ?case
  proof (cases "l \<le> u")
    case False
    then have "u = l - 1" using less.prems by linarith
    then show ?thesis using less.prems by (simp add: bisect.simps)
  next
    case True
    then have i: "l \<le> i" "i \<le> u" by (auto simp: i_def)
    then have bounds: "0 \<le> i" "i < int (length xs)" using less.prems by auto
    consider "hit (xs ! nat i)" | "\<not> hit (xs ! nat i)" "below (xs ! nat i)"
      | "\<not> hit (xs ! nat i)" "\<not> below (xs ! nat i)" by blast
    then show ?thesis
    proof cases
      case 1
      then show ?thesis using True bounds by (simp add: bisect.simps [of _ _ _ l u] flip: i_def)
    next
      case 2
      then have "bisect hit below xs l u = bisect hit below xs l (i - 1)"
        using True by (simp add: bisect.simps [of _ _ _ l u] flip: i_def)
      then show ?thesis
        using less.hyps [of "i - 1" l] less.prems i right_of_step [OF bounds] 2 True by auto
    next
      case 3
      then have "bisect hit below xs l u = bisect hit below xs (i + 1) u"
        using True by (simp add: bisect.simps [of _ _ _ l u] flip: i_def)
      then show ?thesis
        using less.hyps [of u "i + 1"] less.prems i left_of_step [OF bounds] 3 True by auto
    qed
  qed
qed

lemma bisect_result:
  "case bisect hit below xs 0 (int (length xs) - 1) of
      Inl i \<Rightarrow> 0 \<le> i \<and> i < int (length xs) \<and> hit (xs ! nat i)
    | Inr m \<Rightarrow> 0 \<le> m \<and> m \<le> int (length xs) \<and>
        (\<forall>i < length xs. \<not> hit (xs ! i) \<and> (below (xs ! i) \<longleftrightarrow> m \<le> int i))"
proof -
  have "left_of 0" "right_of (int (length xs) - 1)" by (auto simp: left_of_def right_of_def)
  from bisect_range [OF _ _ _ this] show ?thesis
    by (auto simp: left_of_def right_of_def not_le split: sum.splits)
qed

end

lemma ranges_cmp_start: "ranges_cmp a b \<le> 0 \<longleftrightarrow> range_start a \<le> range_start b"
  by (simp add: ranges_cmp_def Let_def)

lemma events_cmp_at: "events_cmp a b \<le> 0 \<longleftrightarrow> event_at a \<le> event_at b"
  by (simp add: events_cmp_def Let_def)

lemma sort_ranges_simps [simp]:
  "dr_name (sort_ranges t) = dr_name t"
  "dr_ranges (sort_ranges t) = sort_key range_start (dr_ranges t)"
  by (simp_all add: sort_ranges_def sort_cmp_sort_key [OF ranges_cmp_start])

lemma sort_events_simps [simp]:
  "te_name (sort_events t) = te_name t"
  "te_events (sort_events t) = sort_key event_at (te_events t)"
  by (simp_all add: sort_events_def sort_cmp_sort_key [OF events_cmp_at])

lemma sorted_search_events:
  assumes "sorted (map event_at es)"
  shows "sorted_search (\<lambda>e. k = rat_of_int (event_at e)) (\<lambda>e. k < rat_of_int (event_at e)) es"
proof
  fix i j
  assume ij: "i < j" "j < length es"
  then have "event_at (es ! i) \<le> event_at (es ! j)"
    using sorted_nth_mono [OF assms, of i j] by simp
  then have le: "rat_of_int (event_at (es ! i)) \<le> rat_of_int (event_at (es ! j))" by simp
  show "k < rat_of_int (event_at (es ! j)) \<and> k \<noteq> rat_of_int (event_at (es ! j))"
    if "k < rat_of_int (event_at (es ! i))"
    using that le by linarith
  show "\<not> k < rat_of_int (event_at (es ! i)) \<and> k \<noteq> rat_of_int (event_at (es ! i))"
    if "\<not> k < rat_of_int (event_at (es ! j))" "k \<noteq> rat_of_int (event_at (es ! j))"
    using that le by linarith
qed

interpretation event_search: sorted_search
    "\<lambda>e. k = rat_of_int (event_at e)" "\<lambda>e. k < rat_of_int (event_at e)" "te_events (sort_events t)" for k t
  by (rule sorted_search_events) simp

text \<open>Ranges that follow each other without overlap.\<close>

definition ranges_ok :: "data_range list \<Rightarrow> bool" where
  "ranges_ok rs \<longleftrightarrow>
     (\<forall>r \<in> set rs. range_start r \<le> range_end r) \<and> sorted_wrt (\<lambda>a b. range_end a < range_start b) rs"

definition contains :: "data_range \<Rightarrow> rat \<Rightarrow> bool" where
  "contains r k \<longleftrightarrow> of_int (range_start r) \<le> k \<and> k \<le> of_int (range_end r)"

lemma ranges_ok_nth:
  assumes "ranges_ok rs" "i < j" "j < length rs"
  shows "range_start (rs ! i) \<le> range_end (rs ! i)" "range_end (rs ! i) < range_start (rs ! j)"
    "range_start (rs ! j) \<le> range_end (rs ! j)"
  using assms by (auto simp: ranges_ok_def sorted_wrt_iff_nth_less)

lemma sorted_search_ranges:
  assumes "ranges_ok rs"
  shows "sorted_search (\<lambda>r. contains r k) (\<lambda>r. k < rat_of_int (range_start r)) rs"
proof
  fix i j
  assume ij: "i < j" "j < length rs"
  note facts = ranges_ok_nth [OF assms ij]
  then have le: "rat_of_int (range_start (rs ! i)) \<le> of_int (range_end (rs ! i))"
    "rat_of_int (range_end (rs ! i)) < of_int (range_start (rs ! j))"
    "rat_of_int (range_start (rs ! j)) \<le> of_int (range_end (rs ! j))"
    by simp_all
  show "k < rat_of_int (range_start (rs ! j)) \<and> \<not> contains (rs ! j) k"
    if "k < rat_of_int (range_start (rs ! i))"
    using that le unfolding contains_def by linarith
  show "\<not> k < rat_of_int (range_start (rs ! i)) \<and> \<not> contains (rs ! i) k"
    if "\<not> k < rat_of_int (range_start (rs ! j))" "\<not> contains (rs ! j) k"
    using that le unfolding contains_def by linarith
qed


section \<open>What the searches return\<close>

lemma filter_segment:
  assumes "\<And>i. i < length xs \<Longrightarrow> P (xs ! i) \<longleftrightarrow> lo \<le> i \<and> i < hi"
  shows "filter P xs = drop lo (take hi xs)"
  using assms
proof (induction xs arbitrary: lo hi)
  case (Cons x xs)
  have x: "P x \<longleftrightarrow> lo = 0 \<and> 0 < hi" using Cons.prems [of 0] by simp
  have "filter P xs = drop (lo - 1) (take (hi - 1) xs)" if "0 < hi"
  proof (rule Cons.IH)
    show "P (xs ! i) \<longleftrightarrow> lo - 1 \<le> i \<and> i < hi - 1" if "i < length xs" for i
      using Cons.prems [of "Suc i"] that \<open>0 < hi\<close> by auto
  qed
  moreover have "filter P xs = []" if "hi = 0"
    using Cons.prems that by (force simp: filter_empty_conv in_set_conv_nth)
  ultimately show ?case
    using x by (cases hi; cases lo) auto
qed simp

lemma search_ranges_result:
  assumes "ranges_ok (dr_ranges t)"
  shows "search_ranges t k = - 1 \<and> (\<forall>r \<in> set (dr_ranges t). \<not> contains r k) \<or>
    (\<exists>i < length (dr_ranges t). search_ranges t k = int i \<and> contains (dr_ranges t ! i) k)"
proof -
  have "search_ranges t k =
      (case bisect (\<lambda>r. contains r k) (\<lambda>r. k < of_int (range_start r)) (dr_ranges t) 0
          (int (length (dr_ranges t)) - 1) of Inl i \<Rightarrow> i | Inr _ \<Rightarrow> - 1)"
    by (simp add: search_ranges_def contains_def)
  with sorted_search.bisect_result [OF sorted_search_ranges [OF assms, of k]] show ?thesis
    by (auto simp: in_set_conv_nth split: sum.splits intro!: exI [of _ "nat _"])
qed

lemma contains_unique:
  assumes "ranges_ok rs" "i < length rs" "contains (rs ! i) k" "j < length rs"
  shows "of_int (range_start (rs ! j)) \<le> k \<longleftrightarrow> j \<le> i" "k \<le> of_int (range_end (rs ! j)) \<longleftrightarrow> i \<le> j"
proof -
  consider "j = i" | "j < i" | "i < j" by linarith
  then have "(of_int (range_start (rs ! j)) \<le> k \<longleftrightarrow> j \<le> i) \<and> (k \<le> of_int (range_end (rs ! j)) \<longleftrightarrow> i \<le> j)"
  proof cases
    case 1
    then show ?thesis using assms(3) by (simp add: contains_def)
  next
    case 2
    then have "rat_of_int (range_start (rs ! j)) \<le> of_int (range_end (rs ! j))"
      "rat_of_int (range_end (rs ! j)) < of_int (range_start (rs ! i))"
      using ranges_ok_nth [OF assms(1) 2 assms(2)] by simp_all
    with 2 assms(3) show ?thesis unfolding contains_def by linarith
  next
    case 3
    then have "rat_of_int (range_start (rs ! j)) \<le> of_int (range_end (rs ! j))"
      "rat_of_int (range_end (rs ! i)) < of_int (range_start (rs ! j))"
      using ranges_ok_nth [OF assms(1) 3 assms(4)] by simp_all
    with 3 assms(3) show ?thesis unfolding contains_def by linarith
  qed
  then show "of_int (range_start (rs ! j)) \<le> k \<longleftrightarrow> j \<le> i" "k \<le> of_int (range_end (rs ! j)) \<longleftrightarrow> i \<le> j"
    by blast+
qed

lemma get_ranges_slice:
  "get_ranges t a b = (case get_ranges_bounds t a b of (lo, hi) \<Rightarrow> py_slice (dr_ranges t) lo hi)"
  by (simp add: get_ranges_def get_ranges_bounds_def Let_def py_slice_def)

lemma sort_events_strict:
  assumes "distinct (map event_at (te_events t))" "i < j" "j < length (te_events t)"
  shows "event_at (te_events (sort_events t) ! i) < event_at (te_events (sort_events t) ! j)"
proof -
  let ?es = "te_events (sort_events t)"
  have "mset (map event_at ?es) = mset (map event_at (te_events t))" by simp
  then have "distinct (map event_at ?es)" using assms(1) mset_eq_imp_distinct_iff by blast
  moreover have "sorted (map event_at ?es)" by simp
  ultimately have "sorted_wrt (<) (map event_at ?es)" by (simp only: strict_sorted_iff)
  then show ?thesis
    using sorted_wrt_nth_less [of "(<)" "map event_at ?es" i j] assms(2,3)
    by (simp only: length_map nth_map sort_events_simps length_sort order_less_trans)
qed

lemma search_events_result:
  assumes "distinct (map event_at (te_events t))"
  shows "\<exists>m \<le> length (te_events t). search_events (sort_events t) k = int m \<and>
    (\<forall>i < length (te_events t). of_int (event_at (te_events (sort_events t) ! i)) < k \<longleftrightarrow> i < m)"
proof -
  let ?es = "te_events (sort_events t)"
  have len: "length ?es = length (te_events t)" by simp
  have lt: "event_at (?es ! i) < event_at (?es ! j) \<longleftrightarrow> i < j"
    if "i < length (te_events t)" "j < length (te_events t)" for i j
    using sort_events_strict [OF assms, of i j] sort_events_strict [OF assms, of j i] that
    by (cases i j rule: linorder_cases) auto
  show ?thesis
    using event_search.bisect_result [of t k] lt unfolding search_events_def len
    by (auto simp del: sort_events_simps split: sum.splits intro!: exI [of _ "nat _"])
qed

section \<open>Named elements\<close>

text \<open>
  The lists of timelines, ranges and events are searched by name and extended on a miss. As maps from
  names to elements: \<open>get_named\<close> gives the element of the name, a fresh one on a miss, and changing
  that element changes the map at that name only.
\<close>

definition named_lookup :: "('a \<Rightarrow> string) \<Rightarrow> 'a list \<Rightarrow> string \<Rightarrow> 'a option" where
  "named_lookup nm xs name = map_of (map (\<lambda>x. (nm x, x)) xs) name"

lemma named_lookup_Nil [simp]: "named_lookup nm [] name = None"
  by (simp add: named_lookup_def)

lemma named_lookup_Cons [simp]:
  "named_lookup nm (x # xs) name = (if nm x = name then Some x else named_lookup nm xs name)"
  by (simp add: named_lookup_def)

lemma named_lookup_map:
  "(\<And>x. nm (f x) = nm x) \<Longrightarrow> named_lookup nm (map f xs) name = map_option f (named_lookup nm xs name)"
  by (induction xs) auto

locale named_list =
  fixes nm :: "'a \<Rightarrow> string" and fresh :: "string \<Rightarrow> 'a"
  assumes nm_fresh [simp]: "nm (fresh name) = name"
begin

lemma find_name_Some:
  "find_name nm name xs = Some i \<Longrightarrow> i < length xs \<and> named_lookup nm xs name = Some (xs ! i)"
  by (induction xs arbitrary: i) (auto split: if_splits)

lemma find_name_None:
  "find_name nm name xs = None \<longleftrightarrow> named_lookup nm xs name = None"
  by (induction xs) auto

lemma find_name_update:
  "find_name nm name xs = Some i \<Longrightarrow> nm z = name \<Longrightarrow>
     named_lookup nm (xs[i := z]) = (named_lookup nm xs)(name \<mapsto> z)"
proof (induction xs arbitrary: i)
  case (Cons x xs)
  show ?case
  proof (cases "nm x = name")
    case False
    then obtain j where "find_name nm name xs = Some j" "i = Suc j" using Cons.prems(1) by auto
    with Cons.IH [of j] Cons.prems(2) False show ?thesis by (auto simp: fun_eq_iff)
  qed (use Cons.prems in \<open>auto simp: fun_eq_iff\<close>)
qed simp

lemma named_lookup_snoc:
  "named_lookup nm xs (nm z) = None \<Longrightarrow> named_lookup nm (xs @ [z]) = (named_lookup nm xs)(nm z \<mapsto> z)"
  by (induction xs) (auto simp: fun_eq_iff split: if_splits)

lemma get_named_update:
  assumes "get_named nm fresh name xs = (i, ys)"
  shows "i < length ys \<and> ys ! i = (case named_lookup nm xs name of None \<Rightarrow> fresh name | Some x \<Rightarrow> x) \<and>
    (\<forall>z. nm z = name \<longrightarrow> named_lookup nm (ys[i := z]) = (named_lookup nm xs)(name \<mapsto> z))"
proof (cases "find_name nm name xs")
  case None
  then have "i = length xs" "ys = xs @ [fresh name]" using assms by (auto simp: get_named_def)
  moreover have "named_lookup nm xs name = None" using None by (simp add: find_name_None)
  ultimately show ?thesis using named_lookup_snoc [of xs] by auto
next
  case (Some j)
  then have "i = j" "ys = xs" using assms by (auto simp: get_named_def)
  with Some find_name_Some [OF Some] find_name_update [OF Some] show ?thesis by auto
qed

lemma get_named_names:
  assumes "get_named nm fresh name xs = (i, ys)" "distinct (map nm xs)" "nm z = name"
  shows "distinct (map nm (ys[i := z]))"
proof (cases "find_name nm name xs")
  case None
  then have "name \<notin> nm ` set xs"
    using find_name_None [of name xs] by (force simp: named_lookup_def map_of_eq_None_iff)
  then show ?thesis using None assms by (auto simp: get_named_def)
next
  case (Some j)
  then have "nm (xs ! j) = name" "j < length xs"
    using find_name_Some [OF Some] by (auto simp: named_lookup_def dest!: map_of_SomeD)
  then have "map nm (xs[j := z]) = map nm xs"
    using assms(3) by (simp add: map_update list_update_same_conv)
  then show ?thesis using Some assms by (auto simp: get_named_def)
qed

end

lemma new_names [simp]:
  "dr_name (new_timeline_data_range name) = name"
  "te_name (new_timeline_event name) = name"
  "tl_name (new_timeline name) = name"
  by (simp_all add: new_timeline_data_range_def new_timeline_event_def new_timeline_def)

interpretation ranges_by_name: named_list dr_name new_timeline_data_range
  by unfold_locales simp

interpretation events_by_name: named_list te_name new_timeline_event
  by unfold_locales simp

interpretation timelines_by_name: named_list tl_name new_timeline
  by unfold_locales simp

section \<open>What read_data collects\<close>

definition named_item :: "('a \<Rightarrow> string) \<Rightarrow> (string \<Rightarrow> 'a) \<Rightarrow> 'a list \<Rightarrow> string \<Rightarrow> 'a" where
  "named_item nm fresh xs name = (case named_lookup nm xs name of None \<Rightarrow> fresh name | Some x \<Rightarrow> x)"

lemma named_item_update:
  "named_lookup nm ys = (named_lookup nm xs)(name \<mapsto> x) \<Longrightarrow>
     named_item nm fresh ys n = (if n = name then x else named_item nm fresh xs n)"
  by (simp add: named_item_def)

text \<open>The data under a timeline name and a range or event name; nothing when there is no such name.\<close>

definition ranges_at :: "timelines \<Rightarrow> string \<Rightarrow> string \<Rightarrow> data_range list" where
  "ranges_at ts tn n = dr_ranges
     (named_item dr_name new_timeline_data_range (tl_ranges (named_item tl_name new_timeline ts tn)) n)"

definition event_strs_at :: "timelines \<Rightarrow> string \<Rightarrow> string \<Rightarrow> string event list" where
  "event_strs_at ts tn n = te_events
     (named_item te_name new_timeline_event (tl_event_str (named_item tl_name new_timeline ts tn)) n)"

definition event_ints_at :: "timelines \<Rightarrow> string \<Rightarrow> string \<Rightarrow> int event list" where
  "event_ints_at ts tn n = te_events
     (named_item te_name new_timeline_event (tl_event_int (named_item tl_name new_timeline ts tn)) n)"

lemmas contents_at_defs = ranges_at_def event_strs_at_def event_ints_at_def

lemma new_timeline_simps [simp]:
  "tl_ranges (new_timeline n) = []" "tl_event_str (new_timeline n) = []" "tl_event_int (new_timeline n) = []"
  "dr_ranges (new_timeline_data_range n) = []" "te_events (new_timeline_event n) = []"
  by (simp_all add: new_timeline_def new_timeline_data_range_def new_timeline_event_def)

context named_list
begin

lemma nm_named_item [simp]: "nm (named_item nm fresh xs name) = name"
  by (auto simp: named_item_def named_lookup_def split: option.splits dest!: map_of_SomeD)

lemma get_named_change:
  assumes "get_named nm fresh name xs = (i, ys)" "\<And>x. nm (f x) = nm x"
  shows "ys ! i = named_item nm fresh xs name"
    "named_lookup nm (ys[i := f (ys ! i)]) = (named_lookup nm xs)(name \<mapsto> f (named_item nm fresh xs name))"
proof -
  note * = get_named_update [OF assms(1)]
  show item: "ys ! i = named_item nm fresh xs name" using * by (simp add: named_item_def)
  note * = conjunct2 [OF conjunct2 [OF *]]
  show "named_lookup nm (ys[i := f (ys ! i)]) = (named_lookup nm xs)(name \<mapsto> f (named_item nm fresh xs name))"
    using * assms(2) by (simp add: item)
qed

end

text \<open>A line changes one element of one timeline.\<close>

lemma add_range_line_lookup:
  "\<exists>f. named_lookup tl_name (add_range_line g1 g2 r ts) =
     (named_lookup tl_name ts)(g1 \<mapsto> f (named_item tl_name new_timeline ts g1)) \<and>
     (\<forall>t. tl_event_str (f t) = tl_event_str t \<and> tl_event_int (f t) = tl_event_int t \<and>
        named_lookup dr_name (tl_ranges (f t)) = (named_lookup dr_name (tl_ranges t))
          (g2 \<mapsto> add_range r (named_item dr_name new_timeline_data_range (tl_ranges t) g2)))"
proof -
  define f where "f t = (case get_range g2 t of (j, t) \<Rightarrow>
      t\<lparr>tl_ranges := (tl_ranges t)[j := add_range r (tl_ranges t ! j)]\<rparr>)" for t
  obtain i ts1 where ts1: "timelines_get g1 ts = (i, ts1)" by force
  have "add_range_line g1 g2 r ts = ts1[i := f (ts1 ! i)]"
    by (simp add: add_range_line_def ts1 f_def split: prod.splits)
  moreover have "tl_name (f t) = tl_name t" for t by (simp add: f_def get_range_def split: prod.splits)
  ultimately show ?thesis
    using timelines_by_name.get_named_change(2) [OF ts1 [unfolded timelines_get_def], of f]
      ranges_by_name.get_named_change(2) [of g2 _ _ _ "add_range r"]
    by (intro exI [of _ f]) (auto simp: f_def get_range_def add_range_def split: prod.splits)
qed

lemma add_event_str_line_lookup:
  "\<exists>f. named_lookup tl_name (add_event_str_line g1 g2 e ts) =
     (named_lookup tl_name ts)(g1 \<mapsto> f (named_item tl_name new_timeline ts g1)) \<and>
     (\<forall>t. tl_ranges (f t) = tl_ranges t \<and> tl_event_int (f t) = tl_event_int t \<and>
        named_lookup te_name (tl_event_str (f t)) = (named_lookup te_name (tl_event_str t))
          (g2 \<mapsto> add_event e (named_item te_name new_timeline_event (tl_event_str t) g2)))"
proof -
  define f where "f t = (case get_event_str g2 t of (j, t) \<Rightarrow>
      t\<lparr>tl_event_str := (tl_event_str t)[j := add_event e (tl_event_str t ! j)]\<rparr>)" for t
  obtain i ts1 where ts1: "timelines_get g1 ts = (i, ts1)" by force
  have "add_event_str_line g1 g2 e ts = ts1[i := f (ts1 ! i)]"
    by (simp add: add_event_str_line_def ts1 f_def split: prod.splits)
  moreover have "tl_name (f t) = tl_name t" for t by (simp add: f_def get_event_str_def split: prod.splits)
  ultimately show ?thesis
    using timelines_by_name.get_named_change(2) [OF ts1 [unfolded timelines_get_def], of f]
      events_by_name.get_named_change(2) [of g2 _ _ _ "add_event e"]
    by (intro exI [of _ f]) (auto simp: f_def get_event_str_def add_event_def split: prod.splits)
qed

lemma add_event_int_line_lookup:
  "\<exists>f. named_lookup tl_name (add_event_int_line g1 g2 e ts) =
     (named_lookup tl_name ts)(g1 \<mapsto> f (named_item tl_name new_timeline ts g1)) \<and>
     (\<forall>t. tl_ranges (f t) = tl_ranges t \<and> tl_event_str (f t) = tl_event_str t \<and>
        named_lookup te_name (tl_event_int (f t)) = (named_lookup te_name (tl_event_int t))
          (g2 \<mapsto> add_event e (named_item te_name new_timeline_event (tl_event_int t) g2)))"
proof -
  define f where "f t = (case get_event_int g2 t of (j, t) \<Rightarrow>
      t\<lparr>tl_event_int := (tl_event_int t)[j := add_event e (tl_event_int t ! j)]\<rparr>)" for t
  obtain i ts1 where ts1: "timelines_get g1 ts = (i, ts1)" by force
  have "add_event_int_line g1 g2 e ts = ts1[i := f (ts1 ! i)]"
    by (simp add: add_event_int_line_def ts1 f_def split: prod.splits)
  moreover have "tl_name (f t) = tl_name t" for t by (simp add: f_def get_event_int_def split: prod.splits)
  ultimately show ?thesis
    using timelines_by_name.get_named_change(2) [OF ts1 [unfolded timelines_get_def], of f]
      events_by_name.get_named_change(2) [of g2 _ _ _ "add_event e"]
    by (intro exI [of _ f]) (auto simp: f_def get_event_int_def add_event_def split: prod.splits)
qed

lemma add_range_line_result:
  "ranges_at (add_range_line g1 g2 r ts) a b = ranges_at ts a b @ (if a = g1 \<and> b = g2 then [r] else [])"
  "event_strs_at (add_range_line g1 g2 r ts) a b = event_strs_at ts a b"
  "event_ints_at (add_range_line g1 g2 r ts) a b = event_ints_at ts a b"
  using add_range_line_lookup [of g1 g2 r ts]
  by (auto simp: contents_at_defs named_item_update add_range_def)

lemma add_event_str_line_result:
  "event_strs_at (add_event_str_line g1 g2 e ts) a b = event_strs_at ts a b @ (if a = g1 \<and> b = g2 then [e] else [])"
  "ranges_at (add_event_str_line g1 g2 e ts) a b = ranges_at ts a b"
  "event_ints_at (add_event_str_line g1 g2 e ts) a b = event_ints_at ts a b"
  using add_event_str_line_lookup [of g1 g2 e ts]
  by (auto simp: contents_at_defs named_item_update add_event_def)

lemma add_event_int_line_result:
  "event_ints_at (add_event_int_line g1 g2 e ts) a b = event_ints_at ts a b @ (if a = g1 \<and> b = g2 then [e] else [])"
  "ranges_at (add_event_int_line g1 g2 e ts) a b = ranges_at ts a b"
  "event_strs_at (add_event_int_line g1 g2 e ts) a b = event_strs_at ts a b"
  using add_event_int_line_lookup [of g1 g2 e ts]
  by (auto simp: contents_at_defs named_item_update add_event_def)

lemma named_item_map:
  "(\<And>x. nm (f x) = nm x) \<Longrightarrow> f (fresh n) = fresh n \<Longrightarrow>
     named_item nm fresh (map f xs) n = f (named_item nm fresh xs n)"
  by (simp add: named_item_def named_lookup_map split: option.splits)

lemma sort_fresh [simp]:
  "sort_ranges (new_timeline_data_range n) = new_timeline_data_range n"
  "sort_events (new_timeline_event n) = new_timeline_event n"
  "sort_timeline (new_timeline n) = new_timeline n"
  by (simp_all add: sort_ranges_def sort_events_def sort_timeline_def sort_cmp_def
      new_timeline_data_range_def new_timeline_event_def new_timeline_def)

lemma sort_timeline_simps [simp]:
  "tl_name (sort_timeline t) = tl_name t"
  "tl_ranges (sort_timeline t) = map sort_ranges (tl_ranges t)"
  "tl_event_str (sort_timeline t) = map sort_events (tl_event_str t)"
  "tl_event_int (sort_timeline t) = map sort_events (tl_event_int t)"
  by (simp_all add: sort_timeline_def)

lemma contents_at_sort:
  "ranges_at (sort_timelines ts) a b = sort_key range_start (ranges_at ts a b)"
  "event_strs_at (sort_timelines ts) a b = sort_key event_at (event_strs_at ts a b)"
  "event_ints_at (sort_timelines ts) a b = sort_key event_at (event_ints_at ts a b)"
  by (simp_all add: contents_at_defs sort_timelines_def named_item_map)

text \<open>The integers the regular expressions let through are always read.\<close>

lemma hex_char_facts:
  assumes "c \<in> set ''0123456789abcdefABCDEF''"
  shows "\<not> is_space c \<and> c \<noteq> CHR ''-'' \<and> c \<noteq> CHR ''+'' \<and> c \<noteq> CHR ''x'' \<and> c \<noteq> CHR ''X'' \<and>
     (\<exists>v < 16. digit_val c = Some v)"
proof -
  have "list_all (\<lambda>c. \<not> is_space c \<and> c \<noteq> CHR ''-'' \<and> c \<noteq> CHR ''+'' \<and> c \<noteq> CHR ''x'' \<and> c \<noteq> CHR ''X'' \<and>
      (case digit_val c of None \<Rightarrow> False | Some v \<Rightarrow> v < 16)) ''0123456789abcdefABCDEF''"
    by code_simp
  then have "\<not> is_space c \<and> c \<noteq> CHR ''-'' \<and> c \<noteq> CHR ''+'' \<and> c \<noteq> CHR ''x'' \<and> c \<noteq> CHR ''X'' \<and>
      (case digit_val c of None \<Rightarrow> False | Some v \<Rightarrow> v < 16)"
    using assms unfolding list_all_iff by (rule bspec)
  then show ?thesis by (cases "digit_val c") simp_all
qed

lemma digit_char_facts: "is_digit c \<Longrightarrow> c \<in> set ''0123456789abcdefABCDEF'' \<and> (\<exists>v < 10. digit_val c = Some v)"
proof -
  have "list_all (\<lambda>c. case digit_val c of None \<Rightarrow> False | Some v \<Rightarrow> v < 10) ''0123456789''" by code_simp
  moreover assume "is_digit c"
  ultimately show ?thesis by (fastforce simp: list_all_iff is_digit_def split: option.splits)
qed

lemma dropWhile_none: "(\<And>c. c \<in> set s \<Longrightarrow> \<not> P c) \<Longrightarrow> dropWhile P s = s"
  by (cases s) auto

lemma py_int_plain:
  assumes "\<forall>c \<in> set s. c \<in> set ''0123456789abcdefABCDEF''" "b \<noteq> 2" "parse_digits b s = Some n"
  shows "py_int b s = Inr (int n)"
proof -
  note facts = hex_char_facts [OF bspec [OF assms(1)]]
  have "dropWhile is_space s = s" "dropWhile is_space (rev s) = rev s"
    using facts by (auto intro!: dropWhile_none)
  then have "strip s = s" by (simp add: strip_def lstrip_def rstrip_def)
  moreover have "CHR ''-'' \<notin> set s" "CHR ''+'' \<notin> set s" "CHR ''x'' \<notin> set s" "CHR ''X'' \<notin> set s"
    using facts by blast+
  then have "\<not> startswith s ''-''" "\<not> startswith s ''+''" "drop_prefix b s = s"
    using assms(2) by (auto simp: startswith_iff drop_prefix_def)
  ultimately show ?thesis using assms(3) by (simp add: py_int_def Let_def)
qed

lemma parse_digits_ok:
  assumes "s \<noteq> []" "\<forall>c \<in> set s. \<exists>v < b. digit_val c = Some v"
  shows "\<exists>n. parse_digits b s = Some n"
  using assms by (auto simp: parse_digits_def list_all_iff Let_def)

definition run_of :: "(char \<Rightarrow> bool) \<Rightarrow> string \<Rightarrow> bool" where
  "run_of P s \<longleftrightarrow> s \<noteq> [] \<and> (\<forall>c \<in> set s. P c)"

lemma py_int_digits:
  assumes "run_of is_digit s"
  shows "\<exists>n. py_int 10 s = Inr (int n)"
proof -
  have "\<forall>c \<in> set s. c \<in> set ''0123456789abcdefABCDEF''" "\<forall>c \<in> set s. \<exists>v < 10. digit_val c = Some v"
    using assms digit_char_facts unfolding run_of_def by blast+
  moreover from this assms obtain n where "parse_digits 10 s = Some n"
    using parse_digits_ok [of s 10] unfolding run_of_def by blast
  ultimately show ?thesis using py_int_plain [of s 10 n] by simp
qed

lemma py_int_hex:
  assumes "run_of is_hex s"
  shows "\<exists>n. py_int 16 s = Inr (int n)"
proof -
  have "\<forall>c \<in> set s. c \<in> set ''0123456789abcdefABCDEF''" "\<forall>c \<in> set s. \<exists>v < 16. digit_val c = Some v"
    using assms hex_char_facts unfolding run_of_def is_hex_def by blast+
  moreover from this assms obtain n where "parse_digits 16 s = Some n"
    using parse_digits_ok [of s 16] unfolding run_of_def by blast
  ultimately show ?thesis using py_int_plain [of s 16 n] by simp
qed

lemma match_run_run: "match_run P s = Some (w, r) \<Longrightarrow> run_of P w"
  by (auto simp: match_run_def run_of_def split: if_splits dest: set_takeWhileD)

lemma match_field_run: "match_field P s = Some (w, r) \<Longrightarrow> run_of P w"
  by (auto simp: match_field_def bind_eq_Some_conv dest: match_run_run)

lemma match_hex2_run: "match_hex2 s = Some (w, r) \<Longrightarrow> run_of is_hex w"
  by (cases s; cases "tl s") (auto simp: match_hex2_def run_of_def split: if_splits)

lemmas match_runs = match_run_run match_field_run match_hex2_run

lemma match_m1_ints:
  "match_m1 s = Some (g1, g2, g3, g4, g5) \<Longrightarrow> run_of is_digit g4 \<and> run_of is_digit g5"
  by (auto simp: match_m1_def bind_eq_Some_conv split: prod.splits dest: match_runs)

lemma match_m2_ints: "match_m2 s = Some (g1, g2, g3, g4) \<Longrightarrow> run_of is_digit g4"
  by (auto simp: match_m2_def bind_eq_Some_conv split: prod.splits dest: match_runs)

lemma match_m3_ints: "match_m3 s = Some (g1, g2, g3, g4) \<Longrightarrow> run_of is_digit g3 \<and> run_of is_digit g4"
  by (auto simp: match_m3_def bind_eq_Some_conv split: prod.splits dest: match_runs)

lemma match_m4_ints:
  "match_m4 s = Some (g1, g2, g3, g4) \<Longrightarrow> run_of is_hex g2 \<and> run_of is_hex g3 \<and> run_of is_hex g4"
  by (auto simp: match_m4_def bind_eq_Some_conv split: prod.splits dest: match_runs)

lemma parse_line_total: "\<exists>l. parse_line line = Inr l"
  unfolding parse_line_def
  by (auto split: option.splits dest!: match_m1_ints match_m2_ints match_m3_ints match_m4_ints
      py_int_digits py_int_hex)

text \<open>What a list of parsed lines says, read off directly.\<close>

definition lines_ranges :: "grid_line list \<Rightarrow> string \<Rightarrow> string \<Rightarrow> data_range list" where
  "lines_ranges ls a b = concat (map (\<lambda>l. case l of
     RangeLine g1 g2 r \<Rightarrow> if a = g1 \<and> b = g2 then [r] else [] | _ \<Rightarrow> []) ls)"

definition lines_event_strs :: "grid_line list \<Rightarrow> string \<Rightarrow> string \<Rightarrow> string event list" where
  "lines_event_strs ls a b = concat (map (\<lambda>l. case l of
     EventStrLine g1 g2 e \<Rightarrow> if a = g1 \<and> b = g2 then [e] else [] | _ \<Rightarrow> []) ls)"

definition lines_event_ints :: "grid_line list \<Rightarrow> string \<Rightarrow> string \<Rightarrow> int event list" where
  "lines_event_ints ls a b = concat (map (\<lambda>l. case l of
     EventIntLine g1 g2 e \<Rightarrow> if a = g1 \<and> b = g2 then [e] else [] | _ \<Rightarrow> []) ls)"

definition lines_color :: "grid_line list \<Rightarrow> string \<Rightarrow> color option" where
  "lines_color ls n = fold (\<lambda>l acc. case l of ColorLine g c \<Rightarrow> if g = n then Some c else acc | _ \<Rightarrow> acc) ls None"

lemmas lines_defs = lines_ranges_def lines_event_strs_def lines_event_ints_def lines_color_def
lemmas line_results = add_range_line_result add_event_str_line_result add_event_int_line_result

lemma apply_lines:
  assumes "fold apply_line ls (cs, ts) = (cs', ts')"
  shows "ranges_at ts' a b = ranges_at ts a b @ lines_ranges ls a b"
    "event_strs_at ts' a b = event_strs_at ts a b @ lines_event_strs ls a b"
    "event_ints_at ts' a b = event_ints_at ts a b @ lines_event_ints ls a b"
    "map_of (color_table cs') n =
       fold (\<lambda>l acc. case l of ColorLine g c \<Rightarrow> if g = n then Some c else acc | _ \<Rightarrow> acc) ls (map_of (color_table cs) n)"
    "default_colors cs' = default_colors cs"
  using assms
proof (induction ls arbitrary: cs ts)
  case (Cons l ls)
  case 1 with Cons.IH(1) show ?case by (cases l) (auto simp: lines_defs line_results)
next
  case (Cons l ls)
  case 2 with Cons.IH(2) show ?case by (cases l) (auto simp: lines_defs line_results)
next
  case (Cons l ls)
  case 3 with Cons.IH(3) show ?case by (cases l) (auto simp: lines_defs line_results)
next
  case (Cons l ls)
  case 4 with Cons.IH(4) show ?case by (cases l) (auto simp: colors_add_def)
next
  case (Cons l ls)
  case 5 with Cons.IH(5) show ?case by (cases l) (auto simp: colors_add_def)
qed (simp_all add: lines_defs)

lemma rfold_read_line:
  "map parse_line lines = map Inr ls \<Longrightarrow> rfold read_line lines st = Inr (fold apply_line ls st)"
proof (induction lines arbitrary: ls st)
  case (Cons l lines)
  then show ?case by (cases ls) (auto simp: read_line_def)
qed simp

lemma parse_lines_total: "\<exists>ls. map parse_line lines = map Inr ls"
proof (induction lines)
  case (Cons l lines)
  then obtain ls where "map parse_line lines = map Inr ls" by blast
  moreover obtain x where "parse_line l = Inr x" using parse_line_total by blast
  ultimately have "map parse_line (l # lines) = map Inr (x # ls)" by simp
  then show ?case by blast
qed simp

lemma read_data_total: "\<exists>cs ts. read_data lines = Inr (cs, ts)"
proof -
  obtain ls where ls: "map parse_line lines = map Inr ls" using parse_lines_total by blast
  obtain cs ts where "fold apply_line ls (new_colors class_default_colors, []) = (cs, ts)" by force
  with rfold_read_line [OF ls] show ?thesis by (simp add: read_data_def)
qed

section \<open>Properties\<close>

text \<open>C37. \<^verbatim>\<open>read_data\<close> never raises once the file is open. Under every timeline and range or event name it
  returns exactly the ranges, string events and integer events of the matching lines, stably sorted by
  time, and under every color name the color of its last line.\<close>

theorem read_data_correct:
  "\<exists>ls cs ts. map parse_line lines = map Inr ls \<and> read_data lines = Inr (cs, ts) \<and>
     (\<forall>a b. ranges_at ts a b = sort_key range_start (lines_ranges ls a b) \<and>
        event_strs_at ts a b = sort_key event_at (lines_event_strs ls a b) \<and>
        event_ints_at ts a b = sort_key event_at (lines_event_ints ls a b)) \<and>
     (\<forall>n. map_of (color_table cs) n = lines_color ls n)"
proof -
  obtain ls where ls: "map parse_line lines = map Inr ls" using parse_lines_total by blast
  obtain cs ts where st: "fold apply_line ls (new_colors class_default_colors, []) = (cs, ts)" by force
  have "ranges_at [] a b = []" "event_strs_at [] a b = []" "event_ints_at [] a b = []" for a b
    by (simp_all add: contents_at_defs named_item_def)
  with apply_lines [OF st] have
    "ranges_at (sort_timelines ts) a b = sort_key range_start (lines_ranges ls a b)"
    "event_strs_at (sort_timelines ts) a b = sort_key event_at (lines_event_strs ls a b)"
    "event_ints_at (sort_timelines ts) a b = sort_key event_at (lines_event_ints ls a b)"
    "map_of (color_table cs) n = lines_color ls n" for a b n
    by (simp_all add: contents_at_sort lines_color_def new_colors_def)
  moreover have "read_data lines = Inr (cs, sort_timelines ts)"
    using rfold_read_line [OF ls] st by (simp add: read_data_def)
  ultimately show ?thesis using ls by blast
qed

text \<open>On ranges that follow each other without overlap, \<^verbatim>\<open>get_ranges\<close> returns exactly the ranges that
  meet the interval from start to end when both ends fall in a range; an end that falls in no range
  does not limit the result, and when neither end falls in a range the result is empty.\<close>

theorem get_ranges_correct:
  assumes "ranges_ok (dr_ranges t)"
  shows "get_ranges t a b =
    (let in_a = (\<exists>r \<in> set (dr_ranges t). contains r a); in_b = (\<exists>r \<in> set (dr_ranges t). contains r b)
     in if \<not> in_a \<and> \<not> in_b then []
        else filter (\<lambda>r. (in_a \<longrightarrow> a \<le> of_int (range_end r)) \<and> (in_b \<longrightarrow> of_int (range_start r) \<le> b)) (dr_ranges t))"
proof -
  let ?rs = "dr_ranges t"
  note U = contains_unique [OF assms]
  have seg: "drop lo (take hi ?rs) = filter P ?rs"
    if "\<And>i. i < length ?rs \<Longrightarrow> P (?rs ! i) \<longleftrightarrow> lo \<le> i \<and> i < hi" for P lo hi
    using filter_segment [of ?rs P lo hi] that by simp
  consider (none) "search_ranges t a = - 1" "search_ranges t b = - 1"
      "\<forall>r \<in> set ?rs. \<not> contains r a" "\<forall>r \<in> set ?rs. \<not> contains r b"
    | (right) j where "j < length ?rs" "search_ranges t a = - 1" "search_ranges t b = int j"
      "\<forall>r \<in> set ?rs. \<not> contains r a" "contains (?rs ! j) b"
    | (left) i where "i < length ?rs" "search_ranges t a = int i" "search_ranges t b = - 1"
      "contains (?rs ! i) a" "\<forall>r \<in> set ?rs. \<not> contains r b"
    | (both) i j where "i < length ?rs" "j < length ?rs" "search_ranges t a = int i" "search_ranges t b = int j"
      "contains (?rs ! i) a" "contains (?rs ! j) b"
    using search_ranges_result [OF assms, of a] search_ranges_result [OF assms, of b] by blast
  then show ?thesis
  proof cases
    case none
    then show ?thesis by (simp add: get_ranges_def)
  next
    case right
    then have "get_ranges t a b = drop 0 (take (Suc j) ?rs)"
      using py_slice_of_nat [of ?rs 0 "Suc j"] by (simp add: get_ranges_def add.commute)
    also have "\<dots> = filter (\<lambda>r. of_int (range_start r) \<le> b) ?rs"
      by (rule seg) (use U [OF right(1,5)] in auto)
    finally show ?thesis using right by (auto simp: Let_def)
  next
    case left
    then have "get_ranges t a b = drop i (take (length ?rs) ?rs)"
      using py_slice_of_nat [of ?rs i "length ?rs"] by (simp add: get_ranges_def)
    also have "\<dots> = filter (\<lambda>r. a \<le> of_int (range_end r)) ?rs"
      by (rule seg) (use U [OF left(1,4)] in auto)
    finally show ?thesis using left by (auto simp: Let_def)
  next
    case both
    then have "get_ranges t a b = drop i (take (Suc j) ?rs)"
      using py_slice_of_nat [of ?rs i "Suc j"] by (simp add: get_ranges_def add.commute)
    also have "\<dots> = filter (\<lambda>r. a \<le> of_int (range_end r) \<and> of_int (range_start r) \<le> b) ?rs"
      by (rule seg) (use U [OF both(1,5)] U [OF both(2,6)] in auto)
    moreover have "\<exists>r \<in> set ?rs. contains r a" "\<exists>r \<in> set ?rs. contains r b"
      using nth_mem [OF both(1)] nth_mem [OF both(2)] both(5,6) by blast+
    ultimately show ?thesis by (simp add: Let_def)
  qed
qed


text \<open>On events with distinct times, sorted as \<^verbatim>\<open>read_data\<close> leaves them, \<^verbatim>\<open>get_events\<close> returns the events
  of the interval in order, followed by at most one event, which is after the end.\<close>

theorem get_events_correct:
  assumes "distinct (map event_at (te_events t))" "a \<le> b"
  shows "\<exists>extra. get_events (sort_events t) a b =
      filter (\<lambda>e. a \<le> of_int (event_at e) \<and> of_int (event_at e) \<le> b) (te_events (sort_events t)) @ extra \<and>
    length extra \<le> 1 \<and> (\<forall>e \<in> set extra. b < of_int (event_at e))"
proof -
  define es where "es = te_events (sort_events t)"
  have len: "length es = length (te_events t)" by (simp add: es_def)
  obtain m where m: "m \<le> length es" "search_events (sort_events t) a = int m"
    "\<And>i. i < length es \<Longrightarrow> of_int (event_at (es ! i)) < a \<longleftrightarrow> i < m"
    using search_events_result [OF assms(1), of a] unfolding es_def by auto
  obtain n where n: "n \<le> length es" "search_events (sort_events t) b = int n"
    "\<And>i. i < length es \<Longrightarrow> of_int (event_at (es ! i)) < b \<longleftrightarrow> i < n"
    using search_events_result [OF assms(1), of b] unfolding es_def by auto
  have "m \<le> n"
    using m(1,3) n(3) assms(2) by (metis le_eq_less_or_eq less_le_trans linorder_not_le order_less_irrefl)
  have get: "get_events (sort_events t) a b = drop m (take (Suc n) es)"
    using py_slice_of_nat [of es m "Suc n"] m(2) n(2)
    by (simp add: get_events_def add.commute del: sort_events_simps flip: es_def)
  define hi where "hi = (if n < length es \<and> of_int (event_at (es ! n)) = b then Suc n else n)"
  have upto: "rat_of_int (event_at (es ! i)) \<le> b \<longleftrightarrow> i < hi" if i: "i < length es" for i
  proof (cases i n rule: linorder_cases)
    case greater
    then have "rat_of_int (event_at (es ! n)) < of_int (event_at (es ! i))"
      using sort_events_strict [OF assms(1), of n i] i len by (simp del: sort_events_simps add: es_def)
    moreover have "b \<le> rat_of_int (event_at (es ! n))" using n(3) [of n] greater i by simp
    ultimately show ?thesis using greater by (simp add: hi_def)
  qed (use n(3) [OF i] i in \<open>auto simp: hi_def\<close>)
  have "filter (\<lambda>e. a \<le> of_int (event_at e) \<and> of_int (event_at e) \<le> b) es = drop m (take hi es)"
  proof (rule filter_segment)
    fix i
    assume i: "i < length es"
    show "(a \<le> rat_of_int (event_at (es ! i)) \<and> rat_of_int (event_at (es ! i)) \<le> b) \<longleftrightarrow> m \<le> i \<and> i < hi"
      using upto [OF i] m(3) [OF i] by linarith
  qed
  moreover have "drop m (take (Suc n) es) = drop m (take hi es) @ drop hi (take (Suc n) es)"
    using \<open>m \<le> n\<close> by (cases "n < length es") (auto simp: hi_def take_Suc_conv_app_nth)
  moreover have "length (drop hi (take (Suc n) es)) \<le> 1" by (auto simp: hi_def)
  moreover have "b < of_int (event_at e)" if e: "e \<in> set (drop hi (take (Suc n) es))" for e
  proof -
    obtain k where "k < length (drop hi (take (Suc n) es))" "drop hi (take (Suc n) es) ! k = e"
      using e by (auto simp: in_set_conv_nth)
    moreover from this have "hi \<le> length (take (Suc n) es)" by auto
    ultimately have "hi + k < length es" "e = es ! (hi + k)" by (auto simp: nth_drop)
    then show ?thesis using upto [of "hi + k"] by (simp add: not_le)
  qed
  ultimately show ?thesis using get unfolding es_def by metis
qed


text \<open>\<open>in_bounds x (lo, hi)\<close>: the interval holds \<open>x\<close>.\<close>

definition in_bounds :: "int \<Rightarrow> int \<times> int \<Rightarrow> bool" where
  "in_bounds x bs \<longleftrightarrow> fst bs \<le> x \<and> x \<le> snd bs"

definition inside :: "int \<times> int \<Rightarrow> int \<times> int \<Rightarrow> bool" where
  "inside b c \<longleftrightarrow> fst c \<le> fst b \<and> snd b \<le> snd c"

lemma in_bounds_inside: "in_bounds x b \<Longrightarrow> inside b c \<Longrightarrow> in_bounds x c"
  by (auto simp: in_bounds_def inside_def)

lemma inside_trans: "inside a b \<Longrightarrow> inside b c \<Longrightarrow> inside a c"
  by (auto simp: inside_def)

lemma inside_widen: "inside b (widen b acc)" "inside acc (widen b acc)"
  by (auto simp: inside_def widen_def)

lemma inside_widen_fold_acc: "inside acc (fold (\<lambda>x. widen (f x)) xs acc)"
proof (induction xs arbitrary: acc)
  case (Cons x xs)
  show ?case using inside_trans [OF inside_widen(2) Cons.IH] by simp
qed (simp add: inside_def)

lemma inside_widen_fold: "x \<in> set xs \<Longrightarrow> inside (f x) (fold (\<lambda>x. widen (f x)) xs acc)"
proof (induction xs arbitrary: acc)
  case (Cons y xs)
  show ?case
  proof (cases "x = y")
    case True
    then show ?thesis using inside_trans [OF inside_widen(1) inside_widen_fold_acc] by simp
  next
    case False
    then show ?thesis using Cons by simp
  qed
qed simp

lemma timeline_bounds_inside:
  "r \<in> set (tl_ranges t) \<Longrightarrow> inside (ranges_get_bounds r) (timeline_get_bounds t)"
  "es \<in> set (tl_event_str t) \<Longrightarrow> inside (events_get_bounds es) (timeline_get_bounds t)"
  "ei \<in> set (tl_event_int t) \<Longrightarrow> inside (events_get_bounds ei) (timeline_get_bounds t)"
  unfolding timeline_get_bounds_def
  by (rule inside_trans [OF inside_widen_fold inside_trans [OF inside_widen_fold_acc inside_widen_fold_acc]], assumption)
     (rule inside_trans [OF inside_widen_fold inside_widen_fold_acc], assumption,
      rule inside_widen_fold, assumption)

lemma timelines_bounds_inside:
  "t \<in> set ts \<Longrightarrow> inside (timeline_get_bounds t) (timelines_get_bounds ts)"
  "in_bounds 0 (timelines_get_bounds ts)"
  unfolding timelines_get_bounds_def
  by (erule inside_widen_fold)
     (rule in_bounds_inside [OF _ inside_widen_fold_acc], simp add: in_bounds_def)

lemma events_bounds_hold:
  assumes "sorted (map event_at (te_events es))" "e \<in> set (te_events es)"
  shows "in_bounds (event_at e) (events_get_bounds es)"
proof -
  obtain i where i: "i < length (te_events es)" "te_events es ! i = e" using assms(2) by (auto simp: in_set_conv_nth)
  then show ?thesis
    using sorted_nth_mono [OF assms(1), of 0 i] sorted_nth_mono [OF assms(1), of i "length (te_events es) - 1"]
    by (auto simp: in_bounds_def events_get_bounds_def)
qed


lemma ranges_bounds_hold:
  assumes "sorted (map range_start (dr_ranges t))" "r \<in> set (dr_ranges t)"
  shows "fst (ranges_get_bounds t) \<le> range_start r"
    "ranges_ok (dr_ranges t) \<Longrightarrow> range_end r \<le> snd (ranges_get_bounds t)"
proof -
  obtain i where i: "i < length (dr_ranges t)" "dr_ranges t ! i = r" using assms(2) by (auto simp: in_set_conv_nth)
  then show "fst (ranges_get_bounds t) \<le> range_start r"
    using sorted_nth_mono [OF assms(1), of 0 i] by (auto simp: ranges_get_bounds_def)
  show "range_end r \<le> snd (ranges_get_bounds t)" if "ranges_ok (dr_ranges t)"
  proof (cases "i = length (dr_ranges t) - 1")
    case False
    then have "i < length (dr_ranges t) - 1" "length (dr_ranges t) - 1 < length (dr_ranges t)" using i by auto
    from ranges_ok_nth [OF that this] i show ?thesis by (auto simp: ranges_get_bounds_def)
  qed (use i in \<open>auto simp: ranges_get_bounds_def\<close>)
qed

text \<open>After \<^verbatim>\<open>sort\<close>, the bounds of all timelines contain 0, every event time and every range start, and
  every range end when the ranges of the timelines do not overlap.\<close>

theorem get_bounds_correct:
  assumes "timelines_get_bounds (sort_timelines ts) = (lo, hi)" "t \<in> set (sort_timelines ts)"
  shows "lo \<le> 0 \<and> 0 \<le> hi \<and>
    (\<forall>es \<in> set (tl_event_str t). \<forall>e \<in> set (te_events es). lo \<le> event_at e \<and> event_at e \<le> hi) \<and>
    (\<forall>es \<in> set (tl_event_int t). \<forall>e \<in> set (te_events es). lo \<le> event_at e \<and> event_at e \<le> hi) \<and>
    (\<forall>rs \<in> set (tl_ranges t). \<forall>r \<in> set (dr_ranges rs).
       lo \<le> range_start r \<and> (ranges_ok (dr_ranges rs) \<longrightarrow> range_end r \<le> hi))"
proof -
  have t: "inside (timeline_get_bounds t) (lo, hi)"
    using timelines_bounds_inside(1) [OF assms(2)] by (simp only: assms(1))
  obtain t0 where t0: "t = sort_timeline t0" using assms(2) by (auto simp: sort_timelines_def)
  have "in_bounds (event_at e) (lo, hi)" if "es \<in> set (tl_event_str t)" "e \<in> set (te_events es)" for es e
  proof -
    have "sorted (map event_at (te_events es))" using that(1) by (auto simp: t0)
    from events_bounds_hold [OF this that(2)] show ?thesis
      using timeline_bounds_inside(2) [OF that(1)] t in_bounds_inside inside_trans by blast
  qed
  moreover have "in_bounds (event_at e) (lo, hi)" if "es \<in> set (tl_event_int t)" "e \<in> set (te_events es)" for es e
  proof -
    have "sorted (map event_at (te_events es))" using that(1) by (auto simp: t0)
    from events_bounds_hold [OF this that(2)] show ?thesis
      using timeline_bounds_inside(3) [OF that(1)] t in_bounds_inside inside_trans by blast
  qed
  moreover have "lo \<le> range_start r \<and> (ranges_ok (dr_ranges rs) \<longrightarrow> range_end r \<le> hi)"
    if "rs \<in> set (tl_ranges t)" "r \<in> set (dr_ranges rs)" for rs r
  proof -
    have "sorted (map range_start (dr_ranges rs))" using that(1) by (auto simp: t0)
    moreover have "inside (ranges_get_bounds rs) (lo, hi)"
      using timeline_bounds_inside(1) [OF that(1)] t inside_trans by blast
    ultimately show ?thesis using ranges_bounds_hold [of rs r] that(2) by (fastforce simp: inside_def)
  qed
  moreover have "in_bounds 0 (lo, hi)"
    using timelines_bounds_inside(2) [of "sort_timelines ts"] by (simp only: assms(1))
  ultimately show ?thesis by (simp add: in_bounds_def)
qed

text \<open>The loop of \<^verbatim>\<open>main\<close> that looks up the color of every range value.\<close>

fun lookup_range_colors :: "string list \<Rightarrow> colors \<Rightarrow> (color list \<times> colors) res" where
  "lookup_range_colors [] cs = Inr ([], cs)"
| "lookup_range_colors (name # range_values) cs =
     rbind (colors_lookup name cs)
       (\<lambda>(c, cs). rbind (lookup_range_colors range_values cs)
          (\<lambda>(range_colors, cs). Inr (c # range_colors, cs)))"

lemma colors_lookup_cases:
  "colors_lookup n cs =
     (case map_of (color_table cs) n of
        Some c \<Rightarrow> Inr (c, cs)
      | None \<Rightarrow> if default_colors cs = [] then Inl IndexError
               else Inr (last (default_colors cs),
                    colors_add n (last (default_colors cs)) (cs\<lparr>default_colors := butlast (default_colors cs)\<rparr>)))"
  by (simp add: colors_lookup_def has_key_def dict_get_def colors_add_def split: option.splits)

lemma lookup_range_colors_keeps:
  "lookup_range_colors ns cs = Inr (l, cs') \<Longrightarrow> map_of (color_table cs) n = Some c \<Longrightarrow>
     map_of (color_table cs') n = Some c"
proof (induction ns arbitrary: cs l)
  case (Cons m ns)
  obtain d cs1 l1 where "colors_lookup m cs = Inr (d, cs1)" "lookup_range_colors ns cs1 = Inr (l1, cs')"
    using Cons.prems(1) by (auto simp: rbind_eq_Inr_iff)
  moreover from this(1) Cons.prems(2) have "map_of (color_table cs1) n = Some c"
    by (auto simp: colors_lookup_cases colors_add_def split: option.splits if_splits)
  ultimately show ?case using Cons.IH by blast
qed simp

lemma lookup_range_colors_defaults:
  assumes "distinct ns" "\<forall>n \<in> set ns. map_of (color_table cs) n = None"
  shows "if length ns \<le> length (default_colors cs)
    then \<exists>cs'. lookup_range_colors ns cs = Inr (take (length ns) (rev (default_colors cs)), cs') \<and>
           map (map_of (color_table cs')) ns = map Some (take (length ns) (rev (default_colors cs)))
    else lookup_range_colors ns cs = Inl IndexError"
  using assms
proof (induction ns arbitrary: cs)
  case (Cons n ns)
  show ?case
  proof (cases "default_colors cs" rule: rev_cases)
    case Nil
    then show ?thesis using Cons.prems by (simp add: colors_lookup_cases)
  next
    case (snoc ds d)
    define cs1 where "cs1 = colors_add n d (cs\<lparr>default_colors := ds\<rparr>)"
    have step: "colors_lookup n cs = Inr (d, cs1)"
      using Cons.prems snoc by (simp add: colors_lookup_cases cs1_def)
    have IH: "if length ns \<le> length ds
      then \<exists>cs'. lookup_range_colors ns cs1 = Inr (take (length ns) (rev ds), cs') \<and>
           map (map_of (color_table cs')) ns = map Some (take (length ns) (rev ds))
      else lookup_range_colors ns cs1 = Inl IndexError"
    proof -
      have "\<forall>m \<in> set ns. map_of (color_table cs1) m = None" "default_colors cs1 = ds"
        using Cons.prems by (auto simp: cs1_def colors_add_def)
      with Cons.IH [of cs1] Cons.prems(1) show ?thesis by (simp split: if_splits)
    qed
    have "map_of (color_table cs1) n = Some d" by (simp add: cs1_def colors_add_def)
    then have "map_of (color_table cs') n = Some d" if "lookup_range_colors ns cs1 = Inr (l, cs')" for l cs'
      using lookup_range_colors_keeps [OF that] by simp
    then show ?thesis using IH by (auto simp: step snoc)
  qed
qed simp

text \<open>Looking up different names that have no color yet hands out the default colors, one each from
  the last one on, and later lookups of a name give the same color; with more names than default
  colors the lookup raises \<^verbatim>\<open>IndexError\<close>.\<close>

theorem colors_lookup_correct:
  assumes "distinct ns" "\<forall>n \<in> set ns. map_of (color_table cs) n = None"
  shows "if length ns \<le> length (default_colors cs)
    then \<exists>l cs'. lookup_range_colors ns cs = Inr (l, cs') \<and> l = take (length ns) (rev (default_colors cs)) \<and>
           (\<forall>i < length ns. colors_lookup (ns ! i) cs' = Inr (l ! i, cs'))
    else lookup_range_colors ns cs = Inl IndexError"
proof (cases "length ns \<le> length (default_colors cs)")
  case True
  then obtain cs' where cs': "lookup_range_colors ns cs = Inr (take (length ns) (rev (default_colors cs)), cs')"
    "map (map_of (color_table cs')) ns = map Some (take (length ns) (rev (default_colors cs)))"
    using lookup_range_colors_defaults [OF assms] by auto
  have "map_of (color_table cs') (ns ! i) = Some (take (length ns) (rev (default_colors cs)) ! i)"
    if "i < length ns" for i
    using arg_cong [OF cs'(2), of "\<lambda>l. l ! i"] that True by simp
  then show ?thesis using True cs'(1) by (simp add: colors_lookup_cases)
next
  case False
  then show ?thesis using lookup_range_colors_defaults [OF assms] by simp
qed

text \<open>Two ranges lie inside the interval, and the search finds neither of its ends.\<close>

theorem get_ranges_gap:
  "get_ranges \<lparr>dr_name = ''r'', dr_ranges = [\<lparr>range_start = 2, range_end = 3, range_value = ''A''\<rparr>,
      \<lparr>range_start = 5, range_end = 6, range_value = ''B''\<rparr>]\<rparr> 0 9 = []"
  by code_simp

text \<open>Two events at time 4: the search lands on the second one and the first is dropped.\<close>

theorem get_events_duplicate:
  "map event_value (get_events \<lparr>te_name = ''e'', te_events =
      [\<lparr>event_at = 4, event_value = (1 :: int)\<rparr>, \<lparr>event_at = 4, event_value = 2\<rparr>,
       \<lparr>event_at = 5, event_value = 3\<rparr>]\<rparr> 4 4) = [2]"
  by code_simp

section \<open>Concrete instances\<close>

theorem get_ranges_correct_witness:
  "get_ranges \<lparr>dr_name = ''r'', dr_ranges = [\<lparr>range_start = 0, range_end = 3, range_value = ''A''\<rparr>,
      \<lparr>range_start = 5, range_end = 6, range_value = ''B''\<rparr>, \<lparr>range_start = 8, range_end = 9, range_value = ''C''\<rparr>]\<rparr> 1 5 =
    [\<lparr>range_start = 0, range_end = 3, range_value = ''A''\<rparr>, \<lparr>range_start = 5, range_end = 6, range_value = ''B''\<rparr>]"
  by (subst get_ranges_correct) (simp_all add: ranges_ok_def contains_def)

theorem get_events_correct_witness:
  "\<exists>extra. get_events (sort_events \<lparr>te_name = ''e'', te_events =
      [\<lparr>event_at = 7, event_value = (1 :: int)\<rparr>, \<lparr>event_at = 4, event_value = 2\<rparr>]\<rparr>) 3 5 =
      [\<lparr>event_at = 4, event_value = 2\<rparr>] @ extra \<and> length extra \<le> 1"
  using get_events_correct [of "\<lparr>te_name = ''e'', te_events =
      [\<lparr>event_at = 7, event_value = (1 :: int)\<rparr>, \<lparr>event_at = 4, event_value = 2\<rparr>]\<rparr>" 3 5]
  by auto

theorem get_bounds_correct_witness:
  "timelines_get_bounds (sort_timelines [\<lparr>tl_name = ''t'', tl_ranges = [], tl_event_str = [],
      tl_event_int = [\<lparr>te_name = ''e'', te_events = [\<lparr>event_at = 7, event_value = 1\<rparr>]\<rparr>]\<rparr>]) = (0, 7) \<and> (7 :: int) \<le> 7"
proof -
  let ?t = "\<lparr>tl_name = ''t'', tl_ranges = [], tl_event_str = [],
      tl_event_int = [\<lparr>te_name = ''e'', te_events = [\<lparr>event_at = 7, event_value = 1 :: int\<rparr>]\<rparr>]\<rparr>"
  have b: "timelines_get_bounds (sort_timelines [?t]) = (0, 7)" by code_simp
  have "?t \<in> set (sort_timelines [?t])"
    by (simp add: sort_timelines_def sort_timeline_def sort_events_def sort_cmp_def)
  from get_bounds_correct [OF b this] b show ?thesis by simp
qed

theorem colors_lookup_correct_witness:
  "\<exists>cs'. lookup_range_colors [''a'', ''b''] (new_colors class_default_colors) =
     Inr ([new_color 0 1 1, new_color 1 0 1], cs')"
  using colors_lookup_correct [of "[''a'', ''b'']" "new_colors class_default_colors"]
  by (auto simp: new_colors_def class_default_colors_def)

end
