(* ===== verification/GridRender.thy ===== *)
theory GridRender
  imports GridData
begin

text \<open>
  The renderers of utils/grid.py: \<^verbatim>\<open>TopLegendRenderer\<close>, \<^verbatim>\<open>TimelinesRenderer\<close> and \<^verbatim>\<open>ScaleRenderer\<close>.
  Drawing is the list of the calls made on the cairo context, in order. What cairo computes, the
  extents of a text, is a parameter (\<open>font\<close>). Attributes that a class does not set in its
  constructor are an option, \<open>None\<close> until they are assigned: reading one before is an
  \<^verbatim>\<open>AttributeError\<close>.
\<close>

section \<open>The drawing context\<close>

record font_metrics =
  text_width :: "string \<Rightarrow> rat"
  text_height :: "string \<Rightarrow> rat"
  text_y_bearing :: "string \<Rightarrow> rat"

datatype ctx_op =
    Rectangle pynum pynum pynum pynum
  | MoveTo pynum pynum
  | LineTo pynum pynum
  | RelLineTo pynum pynum
  | ClosePath
  | SetSourceRgb pynum pynum pynum
  | SetLineWidth pynum
  | SetOperatorSource
  | SetDash "pynum list" pynum
  | Stroke
  | StrokePreserve
  | Fill
  | ShowText string
  | Save
  | Restore
  | Translate pynum pynum
  | Clip
  | SetSourceSurface
  | Paint

definition attr :: "'a option \<Rightarrow> 'a res" where
  "attr x = (case x of None \<Rightarrow> Inl AttributeError | Some v \<Rightarrow> Inr v)"

lemma attr_simps [simp]: "attr None = Inl AttributeError" "attr (Some v) = Inr v"
  by (simp_all add: attr_def)

definition set_source_color :: "color \<Rightarrow> ctx_op" where
  "set_source_color c = SetSourceRgb (PInt (color_r c)) (PInt (color_g c)) (PInt (color_b c))"

section \<open>TopLegendRenderer\<close>

record legend_renderer =
  lr_padding :: pynum
  lr_legends :: "(string list \<times> color list) option"
  lr_width :: "pynum option"
  lr_height :: "pynum option"

definition new_legend_renderer :: legend_renderer where
  "new_legend_renderer = \<lparr>lr_padding = 10, lr_legends = None, lr_width = None, lr_height = None\<rparr>"

definition legend_set_padding :: "pynum \<Rightarrow> legend_renderer \<Rightarrow> legend_renderer" where
  "legend_set_padding padding lr = lr\<lparr>lr_padding := padding\<rparr>"

definition legend_set_legends :: "string list \<Rightarrow> color list \<Rightarrow> legend_renderer \<Rightarrow> legend_renderer" where
  "legend_set_legends legends cs lr = lr\<lparr>lr_legends := Some (legends, cs)\<rparr>"

text \<open>The state of the loops of \<^verbatim>\<open>layout\<close> and \<^verbatim>\<open>draw\<close>, and their common step for one legend.\<close>

record legend_state =
  ls_line_height :: pynum
  ls_total_height :: pynum
  ls_line_used :: pynum

definition legend_start :: "pynum \<Rightarrow> legend_state" where
  "legend_start padding = \<lparr>ls_line_height = 0, ls_total_height = padding, ls_line_used = padding\<rparr>"

definition item_width :: "font_metrics \<Rightarrow> pynum \<Rightarrow> string \<Rightarrow> pynum" where
  "item_width font padding legend = padding + padding + PFloat (text_width font legend) + padding"

definition item_height :: "font_metrics \<Rightarrow> pynum \<Rightarrow> string \<Rightarrow> pynum" where
  "item_height font padding legend = PFloat (text_height font legend) + padding"

definition legend_step :: "font_metrics \<Rightarrow> pynum \<Rightarrow> pynum \<Rightarrow> string \<Rightarrow> legend_state \<Rightarrow> legend_state" where
  "legend_step font padding width legend st =
     (let iw = item_width font padding legend;
          ih = item_height font padding legend;
          line_height = (if ih > ls_line_height st then ih else ls_line_height st)
      in if ls_line_used st + iw > width
         then \<lparr>ls_line_height = line_height, ls_total_height = ls_total_height st + line_height,
               ls_line_used = padding + iw\<rparr>
         else \<lparr>ls_line_height = line_height, ls_total_height = ls_total_height st,
               ls_line_used = ls_line_used st + iw\<rparr>)"

definition legend_layout :: "font_metrics \<Rightarrow> pynum \<Rightarrow> legend_renderer \<Rightarrow> legend_renderer res" where
  "legend_layout font width lr =
     rbind (attr (lr_legends lr))
       (\<lambda>(legends, cs).
          let st = fold (legend_step font (lr_padding lr) width) legends (legend_start (lr_padding lr))
          in Inr (lr\<lparr>lr_width := Some width,
                     lr_height := Some (ls_total_height st + ls_line_height st)\<rparr>))"

definition legend_get_height :: "legend_renderer \<Rightarrow> pynum res" where
  "legend_get_height lr = attr (lr_height lr)"

definition legend_item_x :: "font_metrics \<Rightarrow> pynum \<Rightarrow> string \<Rightarrow> legend_state \<Rightarrow> pynum" where
  "legend_item_x font padding legend st = ls_line_used st - item_width font padding legend"

definition legend_item_ops :: "font_metrics \<Rightarrow> pynum \<Rightarrow> string \<Rightarrow> color \<Rightarrow> legend_state \<Rightarrow> ctx_op list" where
  "legend_item_ops font padding legend c st =
     (let x = legend_item_x font padding legend st
      in [Rectangle x (ls_total_height st) padding padding, SetSourceRgb 0 0 0, SetLineWidth 2,
          StrokePreserve, set_source_color c, Fill,
          MoveTo (x + padding * 2) (ls_total_height st + PFloat (text_height font legend)),
          SetSourceRgb 0 0 0, ShowText legend])"

fun legend_draw_loop ::
    "font_metrics \<Rightarrow> pynum \<Rightarrow> pynum \<Rightarrow> string list \<Rightarrow> color list \<Rightarrow> nat \<Rightarrow> legend_state \<Rightarrow> ctx_op list res"
where
  "legend_draw_loop font padding width [] cs i st = Inr []"
| "legend_draw_loop font padding width (legend # legends) cs i st =
     (let st = legend_step font padding width legend st
      in rbind (py_nth cs (int i))
           (\<lambda>c. rbind (legend_draw_loop font padding width legends cs (i + 1) st)
              (\<lambda>ops. Inr (legend_item_ops font padding legend c st @ ops))))"

definition legend_draw :: "font_metrics \<Rightarrow> legend_renderer \<Rightarrow> ctx_op list res" where
  "legend_draw font lr =
     rbind (attr (lr_legends lr))
       (\<lambda>(legends, cs). if legends = [] then Inr []
          else rbind (attr (lr_width lr))
            (\<lambda>width. legend_draw_loop font (lr_padding lr) width legends cs 0 (legend_start (lr_padding lr))))"

section \<open>ScaleRenderer\<close>

record scale_renderer =
  sr_top :: int
  sr_bounds :: "(pynum \<times> pynum) option"
  sr_delta :: "pynum option"
  sr_width :: "pynum option"
  sr_height :: "pynum option"

definition new_scale_renderer :: scale_renderer where
  "new_scale_renderer =
     \<lparr>sr_top = 0, sr_bounds = None, sr_delta = None, sr_width = None, sr_height = None\<rparr>"

definition scale_set_bounds :: "pynum \<Rightarrow> pynum \<Rightarrow> scale_renderer \<Rightarrow> scale_renderer" where
  "scale_set_bounds lo hi sr = sr\<lparr>sr_bounds := Some (lo, hi)\<rparr>"

definition scale_position :: "pynum \<Rightarrow> pynum \<Rightarrow> pynum \<Rightarrow> pynum \<Rightarrow> pynum res" where
  "scale_position lo hi width x = num_div ((x - lo) * width) (hi - lo)"

definition scale_get_position :: "pynum \<Rightarrow> scale_renderer \<Rightarrow> pynum res" where
  "scale_get_position x sr =
     rbind (attr (sr_bounds sr)) (\<lambda>(lo, hi). rbind (attr (sr_width sr)) (\<lambda>width. scale_position lo hi width x))"

definition scale_set_top :: "scale_renderer \<Rightarrow> scale_renderer" where
  "scale_set_top sr = sr\<lparr>sr_top := 1\<rparr>"

definition scale_set_bot :: "scale_renderer \<Rightarrow> scale_renderer" where
  "scale_set_bot sr = sr\<lparr>sr_top := 0\<rparr>"

text \<open>
  The power of ten of \<^verbatim>\<open>layout\<close>: \<^verbatim>\<open>while (closest*10) < data_delta: closest *= 10\<close>, from 1. That
  \<open>closest\<close> is positive is a fact of the code, tested here so that the loop ends for every argument.
\<close>

function closest_loop :: "pynum \<Rightarrow> int \<Rightarrow> int" where
  "closest_loop data_delta closest =
     (if 0 < closest \<and> PInt (closest * 10) < data_delta then closest_loop data_delta (closest * 10) else closest)"
  by pat_completeness auto
termination
proof (relation "measure (\<lambda>(data_delta, closest). nat (\<lceil>num_val data_delta\<rceil> - closest))", simp)
  fix d :: pynum and c :: int
  assume "0 < c \<and> PInt (c * 10) < d"
  then have "0 < c" "rat_of_int (c * 10) < num_val d" by (simp_all add: num_val_order)
  then have "c * 10 < \<lceil>num_val d\<rceil>" by (simp add: less_ceiling_iff)
  with \<open>0 < c\<close> show "((d, c * 10), (d, c)) \<in> measure (\<lambda>(data_delta, closest). nat (\<lceil>num_val data_delta\<rceil> - closest))"
    by simp
qed

declare closest_loop.simps [simp del]

definition scale_delta :: "pynum \<Rightarrow> pynum \<Rightarrow> pynum res" where
  "scale_delta lo hi =
     (let data_delta = hi - lo; closest = closest_loop data_delta 1
      in rbind (num_div data_delta (PInt closest))
           (\<lambda>q. Inr (if num_eq q 0 then PInt closest
                     else if num_eq q 1 then PInt (closest div 10)
                     else PInt closest)))"

text \<open>The first and the last multiple of \<open>delta\<close> that \<^verbatim>\<open>layout\<close> and \<^verbatim>\<open>draw\<close> compute.\<close>

definition scale_ticks_bounds :: "pynum \<Rightarrow> pynum \<Rightarrow> pynum \<Rightarrow> (pynum \<times> pynum) res" where
  "scale_ticks_bounds lo hi delta =
     rbind (num_mod lo delta)
       (\<lambda>a. rbind (num_mod hi delta) (\<lambda>b. Inr (lo - a + delta, hi - b)))"

definition alphabet_text :: string where
  "alphabet_text = ''ABCDEFGHIJKLMNOPQRSTUVWXYZabcedefghijklmnopqrstuvwxyz0123456789''"

definition scale_layout :: "font_metrics \<Rightarrow> pynum \<Rightarrow> scale_renderer \<Rightarrow> scale_renderer res" where
  "scale_layout font width sr =
     rbind (attr (sr_bounds sr))
       (\<lambda>(lo, hi). rbind (scale_delta lo hi)
          (\<lambda>delta. rbind (scale_ticks_bounds lo hi delta)
             (\<lambda>_. Inr (sr\<lparr>sr_delta := Some delta, sr_width := Some width,
                          sr_height := Some (PFloat (text_height font alphabet_text) + 10)\<rparr>))))"

definition scale_get_height :: "scale_renderer \<Rightarrow> pynum res" where
  "scale_get_height sr = attr (sr_height sr)"

text \<open>Python's \<^verbatim>\<open>range(start, stop, step)\<close>.\<close>

definition py_range :: "int \<Rightarrow> int \<Rightarrow> int \<Rightarrow> int list res" where
  "py_range start stop step =
     (if step = 0 then Inl ValueError
      else if step > 0 then Inr (map (\<lambda>k. start + int k * step) [0..<nat ((stop - start + step - 1) div step)])
      else Inr (map (\<lambda>k. start + int k * step) [0..<nat ((start - stop - step - 1) div (- step))]))"

fun rmap :: "('a \<Rightarrow> 'b res) \<Rightarrow> 'a list \<Rightarrow> 'b list res" where
  "rmap f [] = Inr []"
| "rmap f (x # xs) = rbind (f x) (\<lambda>y. rbind (rmap f xs) (\<lambda>ys. Inr (y # ys)))"

definition scale_tick_ops ::
    "font_metrics \<Rightarrow> int \<Rightarrow> pynum \<Rightarrow> pynum \<Rightarrow> pynum \<Rightarrow> int \<Rightarrow> int \<Rightarrow> ctx_op list res"
where
  "scale_tick_ops font is_top lo hi width s x =
     rbind (scale_position lo hi width (PInt x))
       (\<lambda>real_x.
          let text = str_of_int x;
              text_delta = (if is_top \<noteq> 0 then PFloat (text_height font text) + PFloat (text_y_bearing font text)
                            else PFloat (- text_y_bearing font text))
          in Inr [MoveTo real_x 0, LineTo real_x (5 * PInt s), ClosePath, Stroke,
                  MoveTo (real_x - PFloat (text_width font text / 2)) ((5 + 5 + text_delta) * PInt s),
                  ShowText text])"

definition scale_subtick_ops :: "pynum \<Rightarrow> pynum \<Rightarrow> pynum \<Rightarrow> int \<Rightarrow> int \<Rightarrow> ctx_op list res" where
  "scale_subtick_ops lo hi width s x =
     rbind (scale_position lo hi width (PInt x))
       (\<lambda>real_x. Inr [MoveTo real_x 0, LineTo real_x (3 * PInt s), ClosePath, Stroke])"

definition scale_draw :: "font_metrics \<Rightarrow> scale_renderer \<Rightarrow> ctx_op list res" where
  "scale_draw font sr =
     rbind (attr (sr_delta sr)) (\<lambda>delta.
     rbind (attr (sr_bounds sr)) (\<lambda>(lo, hi).
     rbind (scale_ticks_bounds lo hi delta) (\<lambda>(start, stop).
     let s = (if sr_top sr = 1 then - 1 else 1) in
     rbind (py_range (num_int start) (num_int (stop + delta)) (num_int delta)) (\<lambda>ticks.
     rbind (attr (sr_width sr)) (\<lambda>width.
     rbind (rmap (scale_tick_ops font (sr_top sr) lo hi width s) ticks) (\<lambda>tick_ops.
     rbind (num_div delta 10) (\<lambda>delta.
     rbind
       (if delta > 0
        then rbind (scale_ticks_bounds lo hi delta) (\<lambda>(start, stop).
             rbind (py_range (num_int start) (num_int (stop + delta)) (num_int delta)) (\<lambda>ticks.
             rmap (scale_subtick_ops lo hi width s) ticks))
        else Inr [])
       (\<lambda>subtick_ops.
          Inr ([SetSourceRgb 0 0 0, SetLineWidth (PFloat 1)] @ concat tick_ops @ concat subtick_ops)))))))))"

section \<open>TimelinesRenderer\<close>

record timelines_layout =
  tlay_left_width :: pynum
  tlay_right_width :: pynum
  tlay_max_text_height :: pynum
  tlay_width :: pynum
  tlay_height :: pynum

record timelines_renderer =
  tr_padding :: pynum
  tr_timelines :: "timelines option"
  tr_colors :: "colors option"
  tr_range :: "(pynum \<times> pynum) option"
  tr_layout :: "timelines_layout option"
  tr_grey_background :: "int option"

definition new_timelines_renderer :: timelines_renderer where
  "new_timelines_renderer =
     \<lparr>tr_padding = 10, tr_timelines = None, tr_colors = None, tr_range = None, tr_layout = None,
      tr_grey_background = None\<rparr>"

definition tr_set_timelines :: "timelines \<Rightarrow> colors \<Rightarrow> timelines_renderer \<Rightarrow> timelines_renderer" where
  "tr_set_timelines ts cs tr = tr\<lparr>tr_timelines := Some ts, tr_colors := Some cs\<rparr>"

definition tr_set_render_range :: "pynum \<Rightarrow> pynum \<Rightarrow> timelines_renderer \<Rightarrow> timelines_renderer" where
  "tr_set_render_range start stop tr = tr\<lparr>tr_range := Some (start, stop)\<rparr>"

definition tr_get_height :: "timelines_renderer \<Rightarrow> pynum res" where
  "tr_get_height tr = rbind (attr (tr_layout tr)) (\<lambda>l. Inr (tlay_height l))"

definition tr_get_data_x_start :: "timelines_renderer \<Rightarrow> pynum res" where
  "tr_get_data_x_start tr =
     rbind (attr (tr_layout tr))
       (\<lambda>l. Inr (num_half (tr_padding tr) + tlay_left_width l + tr_padding tr + tlay_right_width l +
                 num_half (tr_padding tr)))"

definition max_width :: "font_metrics \<Rightarrow> string list \<Rightarrow> pynum \<Rightarrow> pynum" where
  "max_width font names acc = fold (\<lambda>name w. num_max w (PFloat (text_width font name))) names acc"

definition timeline_line_names :: "timeline \<Rightarrow> string list" where
  "timeline_line_names t =
     map dr_name (tl_ranges t) @ map te_name (tl_event_int t) @ map te_name (tl_event_str t)"

definition tr_layout_heights :: "font_metrics \<Rightarrow> pynum \<Rightarrow> timelines \<Rightarrow> pynum" where
  "tr_layout_heights font padding ts =
     (let max_text_height = PFloat (text_height font alphabet_text);
          left_n_lines = PInt (int (length ts));
          range_n = PInt (int (sum_list (map (length \<circ> tl_ranges) ts)));
          eventint_n = PInt (int (sum_list (map (length \<circ> tl_event_int) ts)));
          eventstr_n = PInt (int (sum_list (map (length \<circ> tl_event_str) ts)));
          left_height = left_n_lines * max_text_height + (left_n_lines - 1) * padding;
          right_n_lines = range_n + eventint_n + eventstr_n;
          right_height = (right_n_lines - 1) * padding + right_n_lines * max_text_height;
          right_data_height = (eventint_n + eventstr_n) * (max_text_height + 5) + range_n * 10;
          right_data_height = right_data_height + (right_n_lines - 1) * padding
      in num_max (num_max left_height right_height) right_data_height)"

definition tr_do_layout :: "font_metrics \<Rightarrow> pynum \<Rightarrow> timelines_renderer \<Rightarrow> timelines_renderer res" where
  "tr_do_layout font width tr =
     rbind (attr (tr_timelines tr))
       (\<lambda>ts. Inr (tr\<lparr>tr_layout := Some
          \<lparr>tlay_left_width = max_width font (map tl_name ts) 0,
           tlay_right_width = max_width font (concat (map timeline_line_names ts)) 0,
           tlay_max_text_height = PFloat (text_height font alphabet_text),
           tlay_width = width,
           tlay_height = tr_layout_heights font (tr_padding tr) ts + tr_padding tr\<rparr>\<rparr>))"

definition draw_line :: "pynum \<Rightarrow> pynum \<Rightarrow> pynum \<Rightarrow> pynum \<Rightarrow> ctx_op list" where
  "draw_line x y width height =
     [MoveTo x y, RelLineTo width height, ClosePath, SetOperatorSource, SetLineWidth (PFloat 1),
      SetSourceRgb 0 0 0, Stroke]"

definition background_ops :: "pynum \<Rightarrow> int \<Rightarrow> pynum \<Rightarrow> pynum \<Rightarrow> pynum \<Rightarrow> pynum \<Rightarrow> ctx_op list" where
  "background_ops padding grey x y width height =
     (if grey mod 2 = 0
      then [Rectangle x (y - num_half padding) width (height + padding),
            SetSourceRgb (PFloat (9 / 10)) (PFloat (9 / 10)) (PFloat (9 / 10)), Fill]
      else [])"

text \<open>\<^verbatim>\<open>int(x + (at - self.start) * width / (self.end - self.start))\<close>\<close>

definition data_x :: "pynum \<Rightarrow> pynum \<Rightarrow> pynum \<Rightarrow> pynum \<Rightarrow> pynum \<Rightarrow> int res" where
  "data_x start stop x width a =
     rbind (num_div ((a - start) * width) (stop - start)) (\<lambda>q. Inr (num_int (x + q)))"

fun draw_event_loop ::
    "('v \<Rightarrow> string) \<Rightarrow> pynum \<times> pynum \<Rightarrow> pynum \<Rightarrow> pynum \<Rightarrow> pynum \<Rightarrow> pynum \<Rightarrow> 'v event list \<Rightarrow> int \<Rightarrow> ctx_op list res"
where
  "draw_event_loop show_value rng mth x y width [] last_x_drawn = Inr []"
| "draw_event_loop show_value rng mth x y width (e # es) last_x_drawn =
     rbind (data_x (fst rng) (snd rng) x width (PInt (event_at e)))
       (\<lambda>real_x.
          if real_x > last_x_drawn + 2
          then rbind (draw_event_loop show_value rng mth x y width es real_x)
                 (\<lambda>ops. Inr ([Rectangle (PInt real_x) y 1 1, SetSourceRgb 1 0 0, Stroke,
                              MoveTo (PInt real_x) (y + mth), SetSourceRgb 0 0 0,
                              ShowText (show_value (event_value e))] @ ops))
          else draw_event_loop show_value rng mth x y width es last_x_drawn)"

definition draw_events ::
    "('v \<Rightarrow> string) \<Rightarrow> 'v timeline_event \<Rightarrow> pynum \<Rightarrow> pynum \<Rightarrow> pynum \<Rightarrow> pynum \<Rightarrow> timelines_renderer \<Rightarrow>
     (ctx_op list \<times> timelines_renderer) res"
where
  "draw_events show_value events x y width height tr =
     rbind (attr (tr_grey_background tr)) (\<lambda>grey.
     rbind (attr (tr_range tr)) (\<lambda>rng.
     rbind (attr (tr_layout tr)) (\<lambda>lay.
     let (lo, hi) = get_events_bounds events (num_val (fst rng)) (num_val (snd rng)) in
     rbind (draw_event_loop show_value rng (tlay_max_text_height lay) x y width
              (py_slice (te_events events) lo hi) (num_int x))
       (\<lambda>ops. Inr (background_ops (tr_padding tr) grey x y width height @ ops,
                   tr\<lparr>tr_grey_background := Some (grey + 1)\<rparr>)))))"

fun draw_range_loop ::
    "pynum \<times> pynum \<Rightarrow> pynum \<Rightarrow> pynum \<Rightarrow> pynum \<Rightarrow> data_range list \<Rightarrow> int \<Rightarrow> colors \<Rightarrow> (ctx_op list \<times> colors) res"
where
  "draw_range_loop rng x y width [] last_x_drawn cs = Inr ([], cs)"
| "draw_range_loop rng x y width (r # rs) last_x_drawn cs =
     (let s = num_max (PInt (range_start r)) (fst rng);
          e = num_min (PInt (range_end r)) (snd rng)
      in rbind (data_x (fst rng) (snd rng) x width s)
           (\<lambda>x_start. rbind (data_x (fst rng) (snd rng) x width e)
              (\<lambda>x_end.
                 if x_end > last_x_drawn
                 then rbind (colors_lookup (range_value r) cs)
                        (\<lambda>(c, cs). rbind (draw_range_loop rng x y width rs x_end cs)
                           (\<lambda>(ops, cs). Inr ([Rectangle (PInt x_start) y (PInt (x_end - x_start)) 10,
                              SetSourceRgb 0 0 0, StrokePreserve, set_source_color c, Fill] @ ops, cs)))
                 else draw_range_loop rng x y width rs last_x_drawn cs)))"

definition draw_ranges ::
    "timeline_data_range \<Rightarrow> pynum \<Rightarrow> pynum \<Rightarrow> pynum \<Rightarrow> pynum \<Rightarrow> timelines_renderer \<Rightarrow>
     (ctx_op list \<times> timelines_renderer) res"
where
  "draw_ranges ranges x y width height tr =
     rbind (attr (tr_grey_background tr)) (\<lambda>grey.
     rbind (attr (tr_range tr)) (\<lambda>rng.
     rbind (attr (tr_colors tr)) (\<lambda>cs.
     let (lo, hi) = get_ranges_bounds ranges (num_val (fst rng)) (num_val (snd rng)) in
     rbind (draw_range_loop rng x y width (py_slice (dr_ranges ranges) lo hi) (num_int (x - 1)) cs)
       (\<lambda>(ops, cs). Inr (background_ops (tr_padding tr) grey x y width height @ ops,
                         tr\<lparr>tr_grey_background := Some (grey + 1), tr_colors := Some cs\<rparr>)))))"

text \<open>The label of one line of the right column: a timeline, an event list or a range list.\<close>

definition label_ops :: "font_metrics \<Rightarrow> pynum \<Rightarrow> pynum \<Rightarrow> pynum \<Rightarrow> string \<Rightarrow> ctx_op list" where
  "label_ops font x cur_y mth name =
     [MoveTo x (cur_y + mth - (PFloat (text_height font name) + PFloat (text_y_bearing font name))),
      ShowText name]"

text \<open>The horizontal positions \<^verbatim>\<open>draw\<close> computes first.\<close>

record draw_columns =
  dc_left_x_start :: pynum
  dc_left_x_end :: pynum
  dc_right_x_start :: pynum
  dc_right_x_end :: pynum
  dc_data_x_start :: pynum
  dc_data_width :: pynum

definition columns :: "pynum \<Rightarrow> timelines_layout \<Rightarrow> draw_columns" where
  "columns padding lay =
     (let left_x_start = num_half padding;
          left_x_end = left_x_start + tlay_left_width lay;
          right_x_start = left_x_end + padding;
          right_x_end = right_x_start + tlay_right_width lay;
          data_x_start = right_x_end + num_half padding
      in \<lparr>dc_left_x_start = left_x_start, dc_left_x_end = left_x_end, dc_right_x_start = right_x_start,
          dc_right_x_end = right_x_end, dc_data_x_start = data_x_start,
          dc_data_width = tlay_width lay - data_x_start\<rparr>)"

definition separator_ops :: "pynum \<Rightarrow> timelines_layout \<Rightarrow> draw_columns \<Rightarrow> pynum \<Rightarrow> ctx_op list" where
  "separator_ops padding lay dc cur_y =
     draw_line (dc_right_x_start dc - num_half padding) (cur_y - num_half padding)
       (tlay_right_width lay + padding) 0"

text \<open>One pass over the event lists of a timeline, and one over its range lists.\<close>

fun draw_event_lines ::
    "font_metrics \<Rightarrow> ('v \<Rightarrow> string) \<Rightarrow> timelines_layout \<Rightarrow> draw_columns \<Rightarrow> 'v timeline_event list \<Rightarrow>
     pynum \<Rightarrow> timelines_renderer \<Rightarrow> (ctx_op list \<times> pynum \<times> timelines_renderer) res"
where
  "draw_event_lines font show_value lay dc [] cur_y tr = Inr ([], cur_y, tr)"
| "draw_event_lines font show_value lay dc (e # es) cur_y tr =
     (let mth = tlay_max_text_height lay; cur_y' = cur_y + (mth + 5 + tr_padding tr)
      in rbind (draw_events show_value e (dc_data_x_start dc) cur_y (dc_data_width dc) (mth + 5) tr)
           (\<lambda>(ops, tr1). rbind (draw_event_lines font show_value lay dc es cur_y' tr1)
              (\<lambda>(ops', y, tr2). Inr (label_ops font (dc_right_x_start dc) cur_y mth (te_name e) @ ops @
                 separator_ops (tr_padding tr) lay dc cur_y' @ ops', y, tr2))))"

fun draw_range_lines ::
    "font_metrics \<Rightarrow> timelines_layout \<Rightarrow> draw_columns \<Rightarrow> timeline_data_range list \<Rightarrow>
     pynum \<Rightarrow> timelines_renderer \<Rightarrow> (ctx_op list \<times> pynum \<times> timelines_renderer) res"
where
  "draw_range_lines font lay dc [] cur_y tr = Inr ([], cur_y, tr)"
| "draw_range_lines font lay dc (r # rs) cur_y tr =
     (let mth = tlay_max_text_height lay; cur_y' = cur_y + (mth + tr_padding tr)
      in rbind (draw_ranges r (dc_data_x_start dc) cur_y (dc_data_width dc) 10 tr)
           (\<lambda>(ops, tr1). rbind (draw_range_lines font lay dc rs cur_y' tr1)
              (\<lambda>(ops', y, tr2). Inr (label_ops font (dc_right_x_start dc) cur_y mth (dr_name r) @ ops @
                 separator_ops (tr_padding tr) lay dc cur_y' @ ops', y, tr2))))"

fun draw_timelines_loop ::
    "font_metrics \<Rightarrow> timelines_layout \<Rightarrow> draw_columns \<Rightarrow> timelines \<Rightarrow> pynum \<Rightarrow> timelines_renderer \<Rightarrow>
     (ctx_op list \<times> pynum \<times> timelines_renderer) res"
where
  "draw_timelines_loop font lay dc [] cur_y tr = Inr ([], cur_y, tr)"
| "draw_timelines_loop font lay dc (t # ts) cur_y tr =
     rbind (draw_event_lines font str_of_int lay dc (tl_event_int t) cur_y tr) (\<lambda>(ops1, y1, tr1).
     rbind (draw_event_lines font id lay dc (tl_event_str t) y1 tr1) (\<lambda>(ops2, y2, tr2).
     rbind (draw_range_lines font lay dc (tl_ranges t) y2 tr2) (\<lambda>(ops3, y3, tr3).
     rbind (draw_timelines_loop font lay dc ts y3 tr3) (\<lambda>(ops4, y4, tr4).
     Inr (label_ops font (dc_left_x_start dc) cur_y (tlay_max_text_height lay) (tl_name t) @
          ops1 @ ops2 @ ops3 @ draw_line 0 (y3 - num_half (tr_padding tr)) (tlay_width lay) 0 @ ops4, y4, tr4)))))"

definition tr_draw :: "font_metrics \<Rightarrow> timelines_renderer \<Rightarrow> (ctx_op list \<times> timelines_renderer) res" where
  "tr_draw font tr =
     rbind (attr (tr_layout tr)) (\<lambda>lay.
     rbind (attr (tr_timelines tr)) (\<lambda>ts.
     let dc = columns (tr_padding tr) lay in
     rbind (draw_timelines_loop font lay dc ts (num_half (tr_padding tr)) (tr\<lparr>tr_grey_background := Some 1\<rparr>))
       (\<lambda>(ops, cur_y, tr').
          let bot_y = cur_y - num_half (tr_padding tr)
          in Inr (draw_line 0 0 (tlay_width lay) 0 @ ops @
                  draw_line (dc_left_x_end dc + num_half (tr_padding tr)) 0 0 bot_y @
                  draw_line (dc_right_x_end dc + num_half (tr_padding tr)) 0 0 bot_y, tr'))))"

section \<open>The legend\<close>

definition legend_ok :: "pynum \<Rightarrow> legend_state \<Rightarrow> bool" where
  "legend_ok padding st \<longleftrightarrow>
     0 \<le> num_val (ls_line_height st) \<and> num_val padding \<le> num_val (ls_line_used st)"

definition legend_reach :: "legend_state \<Rightarrow> rat" where
  "legend_reach st = num_val (ls_total_height st) + num_val (ls_line_height st)"

lemma legend_step_facts:
  assumes "legend_ok padding st" "0 \<le> num_val padding" "\<And>s. 0 \<le> text_width font s"
    "st' = legend_step font padding width legend st"
  shows "legend_ok padding st'" "legend_reach st \<le> legend_reach st'"
    "num_val (ls_total_height st') + num_val (item_height font padding legend) \<le> legend_reach st'"
    "num_val padding \<le> num_val (legend_item_x font padding legend st')"
  using assms(1,2) assms(3) [of legend] unfolding assms(4)
  by (auto simp: legend_step_def legend_ok_def legend_reach_def legend_item_x_def item_width_def
      Let_def num_val_order)

lemma legend_fold_facts:
  assumes "legend_ok padding st" "0 \<le> num_val padding" "\<And>s. 0 \<le> text_width font s"
  shows "legend_reach st \<le> legend_reach (fold (legend_step font padding width) legends st)"
  using assms(1)
proof (induction legends arbitrary: st)
  case (Cons legend legends)
  note step = legend_step_facts [where width = width and legend = legend, OF Cons.prems assms(2,3) refl]
  show ?case using order_trans [OF step(2) Cons.IH [OF step(1)]] by simp
qed simp

definition op_in_legend :: "pynum \<Rightarrow> rat \<Rightarrow> ctx_op \<Rightarrow> bool" where
  "op_in_legend padding h op = (case op of
     Rectangle x y w t \<Rightarrow> num_val padding \<le> num_val x \<and> num_val y + num_val t \<le> h
   | MoveTo x y \<Rightarrow> num_val padding \<le> num_val x \<and> num_val y \<le> h
   | _ \<Rightarrow> True)"

lemma legend_item_ops_facts:
  assumes "legend_ok padding st" "0 \<le> num_val padding" "\<And>s. 0 \<le> text_width font s" "\<And>s. 0 \<le> text_height font s"
    "st' = legend_step font padding width legend st" "legend_reach st' \<le> h" "op \<in> set (legend_item_ops font padding legend c st')"
  shows "op_in_legend padding h op"
  using legend_step_facts(3,4) [OF assms(1,2,3,5)] assms(2,6,7) assms(4) [of legend]
  by (auto simp: legend_item_ops_def op_in_legend_def Let_def item_height_def set_source_color_def)

lemma legend_draw_loop_facts:
  assumes "legend_ok padding st" "0 \<le> num_val padding" "\<And>s. 0 \<le> text_width font s" "\<And>s. 0 \<le> text_height font s"
    "legend_draw_loop font padding width legends cs i st = Inr ops"
    "legend_reach (fold (legend_step font padding width) legends st) \<le> h" "op \<in> set ops"
  shows "op_in_legend padding h op"
  using assms(1,5-)
proof (induction legends arbitrary: st i ops)
  case (Cons legend legends)
  define st' where "st' = legend_step font padding width legend st"
  note step = legend_step_facts [OF Cons.prems(1) assms(2,3) st'_def]
  obtain c ops' where ops: "legend_draw_loop font padding width legends cs (i + 1) st' = Inr ops'"
    "ops = legend_item_ops font padding legend c st' @ ops'"
    using Cons.prems(2) by (auto simp: Let_def rbind_eq_Inr_iff st'_def)
  have h: "legend_reach (fold (legend_step font padding width) legends st') \<le> h"
    using Cons.prems(3) by (simp add: st'_def)
  have "legend_reach st' \<le> h"
    using order_trans [OF legend_fold_facts [OF step(1) assms(2,3)] h] by blast
  then have "op_in_legend padding h op" if "op \<in> set (legend_item_ops font padding legend c st')"
    using legend_item_ops_facts [OF Cons.prems(1) assms(2-4) st'_def _ that] by blast
  then show ?case using Cons.IH [OF step(1) ops(1) h] Cons.prems(4) ops(2) by auto
qed simp

section \<open>The scale\<close>

lemma closest_loop_spec:
  assumes "c = 10 ^ k" "k = 0 \<or> c < d"
  shows "\<exists>j. closest_loop (PInt d) c = 10 ^ j \<and> d \<le> 10 * 10 ^ j \<and> (j = 0 \<or> 10 ^ j < d)"
  using assms
proof (induction "PInt d" c arbitrary: k rule: closest_loop.induct)
  case (1 c)
  have lt: "PInt (c * 10) < PInt d \<longleftrightarrow> c * 10 < d"
    unfolding num_val_order num_val_simps by (simp only: of_int_less_iff)
  have "0 < c" using 1(2) by simp
  show ?case
  proof (cases "c * 10 < d")
    case True
    then have "closest_loop (PInt d) c = closest_loop (PInt d) (c * 10)"
      using \<open>0 < c\<close> lt by (subst closest_loop.simps) simp
    moreover have "\<exists>j. closest_loop (PInt d) (c * 10) = 10 ^ j \<and> d \<le> 10 * 10 ^ j \<and> (j = 0 \<or> 10 ^ j < d)"
      using "1.hyps" [of "Suc k"] \<open>0 < c\<close> lt True 1(2) by simp
    ultimately show ?thesis by simp
  next
    case False
    then have "closest_loop (PInt d) c = c" using lt by (subst closest_loop.simps) simp
    then show ?thesis using 1(2,3) False by (intro exI [of _ k]) auto
  qed
qed

text \<open>Between two and nineteen steps of the scale fit in an integer span of two or more.\<close>

lemma scale_delta_int:
  assumes "2 \<le> hi - lo"
  shows "\<exists>delta. scale_delta (PInt lo) (PInt hi) = Inr (PInt delta) \<and> 0 < delta \<and>
    2 * delta \<le> hi - lo \<and> hi - lo < 20 * delta"
proof -
  define d where "d = hi - lo"
  obtain j where j: "closest_loop (PInt d) 1 = 10 ^ j" "d \<le> 10 * 10 ^ j" "j = 0 \<or> 10 ^ j < d"
    using closest_loop_spec [of 1 0 d] by auto
  define c where "c = (10 :: int) ^ j"
  have "0 < c" by (simp add: c_def)
  have res: "scale_delta (PInt lo) (PInt hi) =
      Inr (PInt (if d div c = 0 then c else if d div c = 1 then c div 10 else c))"
    using \<open>0 < c\<close> j(1) by (simp add: scale_delta_def Let_def num_eq_def flip: d_def c_def)
  have cd: "c \<le> d" "d \<le> 10 * c" using j(2,3) assms by (auto simp: c_def d_def)
  then have q: "1 \<le> d div c" using \<open>0 < c\<close> by (simp add: pos_imp_zdiv_pos_iff int_one_le_iff_zero_less)
  have split: "d = c * (d div c) + d mod c" "0 \<le> d mod c" "d mod c < c" using \<open>0 < c\<close> by auto
  show ?thesis
  proof (cases "d div c = 1")
    case True
    with split have "c \<le> d" "d < 2 * c" by auto
    moreover have "j \<noteq> 0" using True assms by (intro notI) (simp add: c_def d_def)
    then obtain i where "c = 10 * 10 ^ i" by (cases j) (auto simp: c_def)
    ultimately show ?thesis using res True by (simp add: d_def)
  next
    case False
    then have "2 \<le> d div c" using q by simp
    then have "c * 2 \<le> c * (d div c)" using \<open>0 < c\<close> by (intro mult_left_mono) auto
    then have "2 * c \<le> d" using split by linarith
    then show ?thesis using res False q cd \<open>0 < c\<close> by (simp add: d_def)
  qed
qed

section \<open>The data\<close>

lemma data_x_float:
  assumes "num_val start < num_val stop"
  shows "data_x start stop x (PFloat wd) a =
    Inr (rat_trunc (num_val x + (num_val a - num_val start) * wd / (num_val stop - num_val start)))"
proof -
  have "(a - start) * PFloat wd = PFloat ((num_val a - num_val start) * wd)"
    by (cases a; cases start) simp_all
  then show ?thesis
    using assms by (cases x) (simp_all add: data_x_def num_div_float num_int_value)
qed

text \<open>The left and right edges of the rectangles drawn.\<close>

fun rect_edges :: "ctx_op list \<Rightarrow> (rat \<times> rat) list" where
  "rect_edges [] = []"
| "rect_edges (Rectangle x y w h # ops) = (num_val x, num_val x + num_val w) # rect_edges ops"
| "rect_edges (_ # ops) = rect_edges ops"

lemma draw_range_loop_facts:
  assumes "num_val (fst rng) < num_val (snd rng)" "0 \<le> wd"
    "draw_range_loop rng x y (PFloat wd) rs last_x cs = Inr (ops, cs')"
  shows "sorted_wrt (<) (of_int last_x # map snd (rect_edges ops)) \<and>
    (\<forall>(l, r) \<in> set (rect_edges ops). of_int (rat_trunc (num_val x)) \<le> l \<and> r \<le> of_int (rat_trunc (num_val x + wd)))"
  using assms(3)
proof (induction rs arbitrary: last_x cs ops)
  case (Cons d rs)
  define pos where "pos a = rat_trunc (num_val x + (a - num_val (fst rng)) * wd / (num_val (snd rng) - num_val (fst rng)))" for a
  have mono: "pos a \<le> pos b" if "a \<le> b" for a b
    unfolding pos_def using that assms(1,2)
    by (intro rat_trunc_mono add_left_mono divide_right_mono mult_right_mono) auto
  have ends: "pos (num_val (fst rng)) = rat_trunc (num_val x)" "pos (num_val (snd rng)) = rat_trunc (num_val x + wd)"
    using assms(1) by (simp_all add: pos_def)
  let ?s = "pos (num_val (num_max (PInt (range_start d)) (fst rng)))"
  let ?e = "pos (num_val (num_min (PInt (range_end d)) (snd rng)))"
  have s: "rat_trunc (num_val x) \<le> ?s" using mono [of "num_val (fst rng)"] ends(1) by simp
  have e: "?e \<le> rat_trunc (num_val x + wd)" using mono [of _ "num_val (snd rng)"] ends(2) by simp
  note X = data_x_float [OF assms(1), of x wd, folded pos_def]
  show ?case
  proof (cases "?e > last_x")
    case True
    obtain c cs1 ops1 where "draw_range_loop rng x y (PFloat wd) rs ?e cs1 = Inr (ops1, cs')"
      and ops: "ops = [Rectangle (PInt ?s) y (PInt (?e - ?s)) 10, SetSourceRgb 0 0 0, StrokePreserve,
        set_source_color c, Fill] @ ops1"
      using Cons.prems True by (auto simp: Let_def X rbind_eq_Inr_iff)
    from Cons.IH [OF this(1)] s e True show ?thesis
      by (auto simp: ops set_source_color_def)
  next
    case False
    then show ?thesis using Cons.IH [of last_x cs ops] Cons.prems by (simp add: Let_def X)
  qed
qed simp

section \<open>What drawing keeps\<close>

text \<open>
  The depth of the stack of saved context states after a sequence of calls, \<open>None\<close> when a state is
  restored that was not saved. Only \<^verbatim>\<open>GraphicRenderer.draw\<close> saves and restores.
\<close>

fun ctx_depth :: "ctx_op list \<Rightarrow> nat \<Rightarrow> nat option" where
  "ctx_depth [] n = Some n"
| "ctx_depth (Save # ops) n = ctx_depth ops (Suc n)"
| "ctx_depth (Restore # ops) n = (case n of 0 \<Rightarrow> None | Suc m \<Rightarrow> ctx_depth ops m)"
| "ctx_depth (_ # ops) n = ctx_depth ops n"

definition plain :: "ctx_op list \<Rightarrow> bool" where
  "plain ops \<longleftrightarrow> Save \<notin> set ops \<and> Restore \<notin> set ops"

lemma plain_simps [simp]:
  "plain []" "plain (op # ops) \<longleftrightarrow> op \<noteq> Save \<and> op \<noteq> Restore \<and> plain ops"
  "plain (xs @ ys) \<longleftrightarrow> plain xs \<and> plain ys" "plain (concat xss) \<longleftrightarrow> (\<forall>xs\<in>set xss. plain xs)"
  by (auto simp: plain_def)

lemma ctx_depth_plain [simp]: "plain ops \<Longrightarrow> ctx_depth (ops @ rest) n = ctx_depth rest n"
proof (induction ops)
  case (Cons op ops)
  then show ?case by (cases op) auto
qed simp

text \<open>All that a draw changes of the data renderer is the parity of the background and the colors handed out.\<close>

definition same_view :: "timelines_renderer \<Rightarrow> timelines_renderer \<Rightarrow> bool" where
  "same_view tr tr' \<longleftrightarrow> tr_padding tr' = tr_padding tr \<and> tr_timelines tr' = tr_timelines tr \<and>
     tr_range tr' = tr_range tr \<and> tr_layout tr' = tr_layout tr"

lemma same_view_trans: "same_view a b \<Longrightarrow> same_view b c \<Longrightarrow> same_view a c"
  by (simp add: same_view_def)

lemma set_source_color_plain [simp]: "set_source_color c \<noteq> Save" "set_source_color c \<noteq> Restore"
  by (simp_all add: set_source_color_def)

lemma legend_draw_plain: "legend_draw font lr = Inr ops \<Longrightarrow> plain ops"
proof -
  have "legend_draw_loop font p w ls cs i st = Inr ops \<Longrightarrow> plain ops" for p w ls cs i st ops
    by (induction ls arbitrary: i st ops) (auto simp: rbind_eq_Inr_iff legend_item_ops_def Let_def)
  then show "legend_draw font lr = Inr ops \<Longrightarrow> plain ops"
    by (auto simp: legend_draw_def rbind_eq_Inr_iff split: if_splits)
qed

lemma rmap_all:
  "rmap f xs = Inr ys \<Longrightarrow> (\<And>x y. f x = Inr y \<Longrightarrow> P y) \<Longrightarrow> y \<in> set ys \<Longrightarrow> P y"
  by (induction xs arbitrary: ys) (auto simp: rbind_eq_Inr_iff)

lemma scale_ops_plain:
  "scale_tick_ops font t lo hi w s x = Inr ops \<Longrightarrow> plain ops" "scale_subtick_ops lo hi w s x = Inr ops \<Longrightarrow> plain ops"
  by (auto simp: scale_tick_ops_def scale_subtick_ops_def rbind_eq_Inr_iff Let_def)

lemma scale_draw_plain:
  assumes "scale_draw font sr = Inr ops"
  shows "plain ops"
proof -
  obtain t lo hi w s ticks1 tick_ops ticks2 subtick_ops where
    "rmap (scale_tick_ops font t lo hi w s) ticks1 = Inr tick_ops"
    "rmap (scale_subtick_ops lo hi w s) ticks2 = Inr subtick_ops \<or> subtick_ops = []"
    "ops = [SetSourceRgb 0 0 0, SetLineWidth (PFloat 1)] @ concat tick_ops @ concat subtick_ops"
    using assms unfolding scale_draw_def rbind_eq_Inr_iff
    by (elim exE conjE) (force simp: rbind_eq_Inr_iff Let_def split: if_splits)
  then show ?thesis
    using rmap_all [of "scale_tick_ops font t lo hi w s" ticks1 tick_ops plain]
      rmap_all [of "scale_subtick_ops lo hi w s" ticks2 subtick_ops plain] scale_ops_plain
    by auto
qed

lemma draw_events_keeps:
  assumes "draw_events show_value e x y wd h tr = Inr (ops, tr')"
  shows "plain ops \<and> same_view tr tr'"
proof -
  have loop: "draw_event_loop sv rng mth x y wd es last = Inr ops \<Longrightarrow> plain ops" for sv rng mth es last ops
    by (induction es arbitrary: last ops) (auto simp: rbind_eq_Inr_iff split: if_splits)
  obtain grey rng lay where "tr_grey_background tr = Some grey" "tr_range tr = Some rng" "tr_layout tr = Some lay"
    using assms by (auto simp: draw_events_def rbind_eq_Inr_iff attr_def split: option.splits)
  moreover obtain lo hi where "get_events_bounds e (num_val (fst rng)) (num_val (snd rng)) = (lo, hi)" by force
  ultimately show ?thesis
    using assms by (auto simp: draw_events_def rbind_eq_Inr_iff same_view_def background_ops_def dest: loop)
qed

lemma draw_ranges_keeps:
  assumes "draw_ranges r x y wd h tr = Inr (ops, tr')"
  shows "plain ops \<and> same_view tr tr'"
proof -
  have loop: "draw_range_loop rng x y wd rs last cs = Inr (ops, cs') \<Longrightarrow> plain ops" for rng rs last cs ops cs'
    by (induction rs arbitrary: last cs ops) (auto simp: rbind_eq_Inr_iff Let_def split: if_splits)
  obtain grey rng cs where "tr_grey_background tr = Some grey" "tr_range tr = Some rng" "tr_colors tr = Some cs"
    using assms by (auto simp: draw_ranges_def rbind_eq_Inr_iff attr_def split: option.splits)
  moreover obtain lo hi where "get_ranges_bounds r (num_val (fst rng)) (num_val (snd rng)) = (lo, hi)" by force
  ultimately show ?thesis
    using assms by (auto simp: draw_ranges_def rbind_eq_Inr_iff same_view_def background_ops_def dest: loop)
qed

lemma draw_event_lines_keeps:
  "draw_event_lines font sv lay dc es y tr = Inr (ops, y', tr') \<Longrightarrow> plain ops \<and> same_view tr tr'"
  by (induction es arbitrary: y tr ops)
     (auto simp: rbind_eq_Inr_iff Let_def same_view_def label_ops_def separator_ops_def draw_line_def
        dest!: draw_events_keeps)

lemma draw_range_lines_keeps:
  "draw_range_lines font lay dc rs y tr = Inr (ops, y', tr') \<Longrightarrow> plain ops \<and> same_view tr tr'"
  by (induction rs arbitrary: y tr ops)
     (auto simp: rbind_eq_Inr_iff Let_def same_view_def label_ops_def separator_ops_def draw_line_def
        dest!: draw_ranges_keeps)

lemma draw_timelines_loop_keeps:
  "draw_timelines_loop font lay dc ts y tr = Inr (ops, y', tr') \<Longrightarrow> plain ops \<and> same_view tr tr'"
  by (induction ts arbitrary: y tr ops)
     (auto simp: rbind_eq_Inr_iff same_view_def label_ops_def draw_line_def
        dest!: draw_event_lines_keeps draw_range_lines_keeps)

lemma tr_draw_keeps: "tr_draw font tr = Inr (ops, tr') \<Longrightarrow> plain ops \<and> same_view tr tr'"
  by (auto simp: tr_draw_def rbind_eq_Inr_iff Let_def same_view_def draw_line_def
        dest!: draw_timelines_loop_keeps)

section \<open>Properties\<close>

text \<open>What \<^verbatim>\<open>TopLegendRenderer.draw\<close> draws fits in the height that \<^verbatim>\<open>layout\<close> computed for the same
  width: no box and no text lies to the left of the padding or below that height.\<close>

theorem legend_draw_fits:
  assumes "legend_layout font width lr = Inr lr'" "legend_draw font lr' = Inr ops" "op \<in> set ops"
    and "0 \<le> num_val (lr_padding lr)" "\<And>s. 0 \<le> text_width font s" "\<And>s. 0 \<le> text_height font s"
  shows "\<exists>h. legend_get_height lr' = Inr h \<and> (case op of
     Rectangle x y w t \<Rightarrow> num_val (lr_padding lr) \<le> num_val x \<and> num_val y + num_val t \<le> num_val h
   | MoveTo x y \<Rightarrow> num_val (lr_padding lr) \<le> num_val x \<and> num_val y \<le> num_val h
   | _ \<Rightarrow> True)"
proof -
  obtain legends cs where l: "lr_legends lr = Some (legends, cs)"
    using assms(1) by (auto simp: legend_layout_def rbind_eq_Inr_iff attr_def split: option.splits)
  define st where "st = fold (legend_step font (lr_padding lr) width) legends (legend_start (lr_padding lr))"
  have lr': "lr' = lr\<lparr>lr_width := Some width, lr_height := Some (ls_total_height st + ls_line_height st)\<rparr>"
    using assms(1) l by (simp add: legend_layout_def Let_def st_def)
  have "legend_draw_loop font (lr_padding lr) width legends cs 0 (legend_start (lr_padding lr)) = Inr ops"
    using assms(2,3) l by (auto simp: legend_draw_def lr' split: if_splits)
  moreover have "legend_ok (lr_padding lr) (legend_start (lr_padding lr))"
    by (simp add: legend_ok_def legend_start_def)
  ultimately have "op_in_legend (lr_padding lr) (legend_reach st) op"
    using legend_draw_loop_facts [of "lr_padding lr" "legend_start (lr_padding lr)" font width legends cs 0 ops
        "legend_reach st" op] assms(3-) by (simp add: st_def)
  then show ?thesis
    by (cases op) (simp_all add: legend_get_height_def lr' op_in_legend_def legend_reach_def)
qed

text \<open>On integer bounds at least two apart, \<^verbatim>\<open>ScaleRenderer.layout\<close> succeeds and chooses a positive step
  of which between two and nineteen fit in the span; on bounds one apart it chooses the step 0 and raises
  \<^verbatim>\<open>ZeroDivisionError\<close>.\<close>

theorem scale_layout_step:
  assumes "sr_bounds sr = Some (PInt lo, PInt hi)"
  shows "(2 \<le> hi - lo \<longrightarrow> (\<exists>delta sr'. scale_layout font width sr = Inr sr' \<and> sr_delta sr' = Some (PInt delta) \<and>
        0 < delta \<and> 2 * delta \<le> hi - lo \<and> hi - lo < 20 * delta)) \<and>
    (hi - lo = 1 \<longrightarrow> scale_layout font width sr = Inl ZeroDivisionError)"
proof (intro conjI impI)
  assume "2 \<le> hi - lo"
  from scale_delta_int [OF this] assms
  show "\<exists>delta sr'. scale_layout font width sr = Inr sr' \<and> sr_delta sr' = Some (PInt delta) \<and>
        0 < delta \<and> 2 * delta \<le> hi - lo \<and> hi - lo < 20 * delta"
    by (auto simp: scale_layout_def scale_ticks_bounds_def)
next
  assume "hi - lo = 1"
  then have "closest_loop (PInt (hi - lo)) 1 = 1"
    by (subst closest_loop.simps) (simp add: num_val_order)
  with \<open>hi - lo = 1\<close> assms show "scale_layout font width sr = Inl ZeroDivisionError"
    by (simp add: scale_layout_def scale_delta_def scale_ticks_bounds_def Let_def num_eq_def)
qed

text \<open>The boxes that \<^verbatim>\<open>draw_ranges\<close> draws for a non-empty visible range start within the data area, end
  within it, and their right edges strictly increase, so at most one box ends in a pixel column.\<close>

theorem draw_ranges_inside:
  assumes "draw_ranges ranges x y (PFloat wd) height tr = Inr (ops, tr')"
    and "tr_range tr = Some (start, stop)" "num_val start < num_val stop" "0 \<le> wd"
  shows "\<exists>bg drawn. ops = bg @ drawn \<and> length bg \<le> 3 \<and> sorted_wrt (<) (map snd (rect_edges drawn)) \<and>
    (\<forall>(l, r) \<in> set (rect_edges drawn).
       of_int (rat_trunc (num_val x)) \<le> l \<and> r \<le> of_int (rat_trunc (num_val x + wd)))"
proof -
  obtain lo hi where b: "get_ranges_bounds ranges (num_val start) (num_val stop) = (lo, hi)" by force
  obtain grey cs drawn cs' where
    "draw_range_loop (start, stop) x y (PFloat wd) (py_slice (dr_ranges ranges) lo hi) (num_int (x - 1)) cs = Inr (drawn, cs')"
    "ops = background_ops (tr_padding tr) grey x y (PFloat wd) height @ drawn"
    using assms(1,2) by (auto simp: draw_ranges_def rbind_eq_Inr_iff b)
  moreover have "length (background_ops (tr_padding tr) grey x y (PFloat wd) height) \<le> 3"
    by (simp add: background_ops_def)
  ultimately show ?thesis
    using draw_range_loop_facts [of "(start, stop)" wd x y _ _ _ drawn cs'] assms(3,4)
    by (intro exI [of _ "background_ops (tr_padding tr) grey x y (PFloat wd) height"] exI [of _ drawn]) auto
qed

section \<open>Concrete instances\<close>

definition fixed_font :: font_metrics where
  "fixed_font = \<lparr>text_width = \<lambda>_. 6, text_height = \<lambda>_. 8, text_y_bearing = \<lambda>_. 0\<rparr>"

definition demo_legend :: legend_renderer where
  "demo_legend = legend_set_legends [''a''] [new_color 1 0 0] new_legend_renderer"

theorem legend_draw_fits_witness:
  "\<exists>lr' h. legend_layout fixed_font 100 demo_legend = Inr lr' \<and> legend_get_height lr' = Inr h \<and>
     num_val (lr_padding demo_legend) \<le> 10 \<and> (20 :: rat) \<le> num_val h"
proof -
  have "case legend_layout fixed_font 100 demo_legend of Inl e \<Rightarrow> False | Inr lr' \<Rightarrow>
      (case legend_draw fixed_font lr' of Inl e \<Rightarrow> False | Inr ops \<Rightarrow> Rectangle (PFloat 10) 10 10 10 \<in> set ops)"
    by code_simp
  then obtain lr' ops where l: "legend_layout fixed_font 100 demo_legend = Inr lr'"
    "legend_draw fixed_font lr' = Inr ops" "Rectangle (PFloat 10) 10 10 10 \<in> set ops"
    by (auto split: sum.splits)
  have "0 \<le> num_val (lr_padding demo_legend)" by code_simp
  with legend_draw_fits [OF l] l(1) show ?thesis by (auto simp: fixed_font_def)
qed

theorem scale_layout_step_witness:
  "\<exists>delta sr'. scale_layout fixed_font 100
      (scale_set_bounds 0 25 new_scale_renderer) = Inr sr' \<and> sr_delta sr' = Some (PInt delta) \<and> 2 * delta \<le> 25"
  using scale_layout_step [of "scale_set_bounds 0 25 new_scale_renderer" 0 25 fixed_font 100]
  by (auto simp: scale_set_bounds_def)

definition demo_tr :: timelines_renderer where
  "demo_tr = new_timelines_renderer\<lparr>tr_colors := Some (new_colors class_default_colors), tr_range := Some (0, 10),
     tr_grey_background := Some 1\<rparr>"

definition demo_ranges :: timeline_data_range where
  "demo_ranges = \<lparr>dr_name = ''r'', dr_ranges = [\<lparr>range_start = 0, range_end = 4, range_value = ''A''\<rparr>,
     \<lparr>range_start = 6, range_end = 12, range_value = ''B''\<rparr>]\<rparr>"

theorem draw_ranges_inside_witness:
  "\<exists>bg drawn tr'. draw_ranges demo_ranges 0 0 (PFloat 100) 10 demo_tr = Inr (bg @ drawn, tr') \<and>
     length bg \<le> 3 \<and> (\<forall>(l, r) \<in> set (rect_edges drawn). 0 \<le> l \<and> r \<le> 100)"
proof -
  have "case draw_ranges demo_ranges 0 0 (PFloat 100) 10 demo_tr of Inl e \<Rightarrow> False | Inr _ \<Rightarrow> True"
    by code_simp
  then obtain ops tr' where r: "draw_ranges demo_ranges 0 0 (PFloat 100) 10 demo_tr = Inr (ops, tr')"
    by (cases "draw_ranges demo_ranges 0 0 (PFloat 100) 10 demo_tr") auto
  from draw_ranges_inside [OF r, of 0 10] show ?thesis
    using r by (auto simp: demo_tr_def rat_trunc_def)
qed

end
