(* ===== verification/GridInteraction.thy ===== *)
theory GridInteraction
  imports GridRender
begin

text \<open>
  \<^verbatim>\<open>GraphicRenderer\<close> and \<^verbatim>\<open>GtkGraphicRenderer\<close> of utils/grid.py: the visible range, the layout of the
  whole window, the mouse handlers and the zoom buttons, and \<^verbatim>\<open>main\<close> up to the start of the event
  loop. Gtk delivers events one at a time; a handler is a function from the widget's state and the
  event to the new state and the handler's result, or an exception, which ends the run of the model.
  Redraw requests (\<^verbatim>\<open>queue_draw\<close>) and cursors are not part of the state.
\<close>

section \<open>GraphicRenderer\<close>

record graphic =
  gr_start :: pynum
  gr_end :: pynum
  gr_mid_scale :: scale_renderer
  gr_bot_scale :: scale_renderer
  gr_width :: pynum
  gr_height :: pynum
  gr_range :: "(pynum \<times> pynum) option"
  gr_data :: "timelines_renderer option"
  gr_top_legend :: "legend_renderer option"

definition new_graphic :: "pynum \<Rightarrow> pynum \<Rightarrow> graphic" where
  "new_graphic start stop =
     \<lparr>gr_start = num_float start, gr_end = num_float stop,
      gr_mid_scale = scale_set_top new_scale_renderer,
      gr_bot_scale = scale_set_bot (scale_set_bounds start stop new_scale_renderer),
      gr_width = 1, gr_height = 1, gr_range = None, gr_data = None, gr_top_legend = None\<rparr>"

definition gr_set_data :: "timelines_renderer \<Rightarrow> graphic \<Rightarrow> graphic" where
  "gr_set_data d g = g\<lparr>gr_data := Some d\<rparr>"

definition gr_set_top_legend :: "legend_renderer \<Rightarrow> graphic \<Rightarrow> graphic" where
  "gr_set_top_legend l g = g\<lparr>gr_top_legend := Some l\<rparr>"

definition gr_get_range :: "graphic \<Rightarrow> (pynum \<times> pynum) res" where
  "gr_get_range g = attr (gr_range g)"

definition gr_layout :: "font_metrics \<Rightarrow> pynum \<Rightarrow> pynum \<Rightarrow> graphic \<Rightarrow> graphic res" where
  "gr_layout font width height g =
     rbind (attr (gr_top_legend g)) (\<lambda>l.
     rbind (legend_layout font width l) (\<lambda>l.
     rbind (attr (gr_data g)) (\<lambda>d.
     rbind (tr_do_layout font width d) (\<lambda>d.
     rbind (tr_get_data_x_start d) (\<lambda>x_start.
     rbind (scale_layout font (width - x_start) (gr_mid_scale g)) (\<lambda>mid.
     rbind (scale_layout font width (gr_bot_scale g)) (\<lambda>bot_scale.
     Inr (g\<lparr>gr_width := width, gr_height := height, gr_top_legend := Some l, gr_data := Some d,
            gr_mid_scale := mid, gr_bot_scale := bot_scale\<rparr>))))))))"

definition gr_set_range :: "font_metrics \<Rightarrow> pynum \<Rightarrow> pynum \<Rightarrow> graphic \<Rightarrow> graphic res" where
  "gr_set_range font start stop g =
     (let s = num_min start stop; e = num_max start stop;
          start = num_max (gr_start g) s; stop = num_min (gr_end g) e
      in rbind (attr (gr_data g)) (\<lambda>d.
         gr_layout font (gr_width g) (gr_height g)
           (g\<lparr>gr_range := Some (start, stop), gr_data := Some (tr_set_render_range start stop d),
              gr_mid_scale := scale_set_bounds start stop (gr_mid_scale g)\<rparr>)))"

definition gr_get_data_rectangle :: "graphic \<Rightarrow> (pynum \<times> pynum \<times> pynum \<times> pynum) res" where
  "gr_get_data_rectangle g =
     rbind (attr (gr_top_legend g)) (\<lambda>l. rbind (legend_get_height l) (\<lambda>y_start.
     rbind (attr (gr_data g)) (\<lambda>d. rbind (tr_get_data_x_start d) (\<lambda>x_start.
     rbind (tr_get_height d) (\<lambda>h. Inr (x_start, y_start, gr_width g - x_start, h))))))"

definition gr_scale_data :: "pynum \<Rightarrow> graphic \<Rightarrow> pynum res" where
  "gr_scale_data x g =
     rbind (attr (gr_data g)) (\<lambda>d. rbind (tr_get_data_x_start d) (\<lambda>x_start.
     rbind (num_div x (gr_width g - x_start)) (\<lambda>q.
     rbind (attr (gr_range g)) (\<lambda>(r_start, r_end). Inr (q * (r_end - r_start))))))"

definition gr_get_selection_rectangle :: "graphic \<Rightarrow> (pynum \<times> pynum \<times> pynum \<times> pynum) res" where
  "gr_get_selection_rectangle g =
     rbind (attr (gr_top_legend g)) (\<lambda>l. rbind (legend_get_height l) (\<lambda>lh.
     rbind (attr (gr_data g)) (\<lambda>d. rbind (tr_get_height d) (\<lambda>dh.
     rbind (scale_get_height (gr_mid_scale g)) (\<lambda>mh.
     rbind (scale_get_height (gr_bot_scale g)) (\<lambda>bh.
     rbind (attr (gr_range g)) (\<lambda>(r_start, r_end).
     rbind (scale_get_position r_start (gr_bot_scale g)) (\<lambda>x_start.
     rbind (scale_get_position r_end (gr_bot_scale g)) (\<lambda>x_end.
     Inr (x_start, lh + dh + mh + 20, x_end - x_start, bh + 20))))))))))"

definition gr_scale_selection :: "pynum \<Rightarrow> graphic \<Rightarrow> pynum res" where
  "gr_scale_selection x g =
     rbind (num_div x (gr_width g)) (\<lambda>q. Inr (q * (gr_end g - gr_start g)))"

text \<open>\<^verbatim>\<open>draw\<close>, in the groups of calls its comments name.\<close>

definition grey_ops :: "ctx_op list" where
  "grey_ops = [SetSourceRgb (PFloat (9 / 10)) (PFloat (9 / 10)) (PFloat (9 / 10)), Fill]"

definition rule_ops :: "ctx_op list" where
  "rule_ops = [ClosePath, SetLineWidth 2, SetSourceRgb 0 0 0, Stroke]"

definition connection_ops :: "pynum \<Rightarrow> pynum \<Rightarrow> pynum \<Rightarrow> pynum \<Rightarrow> pynum \<Rightarrow> ctx_op list" where
  "connection_ops width data_x_start height_used select_start select_end =
     [MoveTo 0 height_used, LineTo data_x_start height_used, LineTo select_start (height_used + 20),
      LineTo 0 (height_used + 20), LineTo 0 height_used, SetSourceRgb 0 0 0, SetLineWidth 1, StrokePreserve] @ grey_ops @
     [MoveTo width height_used, LineTo width (height_used + 20), LineTo select_end (height_used + 20),
      LineTo width height_used, SetSourceRgb 0 0 0, SetLineWidth 1, StrokePreserve] @ grey_ops"

definition unused_area_ops :: "pynum \<Rightarrow> pynum \<Rightarrow> pynum \<Rightarrow> pynum \<Rightarrow> pynum \<Rightarrow> ctx_op list" where
  "unused_area_ops width height_used unused_start unused_end unused_height =
     [Rectangle 0 height_used unused_start unused_height,
      Rectangle unused_end height_used (width - unused_end) unused_height] @ grey_ops @
     [MoveTo unused_end height_used, LineTo width height_used, LineTo width (height_used + unused_height),
      LineTo 0 (height_used + unused_height), LineTo 0 height_used, LineTo unused_start height_used] @ rule_ops @
     [MoveTo unused_start height_used, LineTo unused_end height_used, ClosePath, SetLineWidth 1,
      SetSourceRgb (PFloat (9 / 10)) (PFloat (9 / 10)) (PFloat (9 / 10)), Stroke,
      Save, MoveTo (num_max unused_start 2) height_used, RelLineTo 0 unused_height,
      MoveTo (num_min unused_end (width - 2)) height_used, RelLineTo 0 unused_height, SetDash [5] 0,
      SetSourceRgb 0 0 0, SetLineWidth 1, Stroke, Restore]"

definition gr_draw :: "font_metrics \<Rightarrow> graphic \<Rightarrow> (ctx_op list \<times> graphic) res" where
  "gr_draw font g =
     rbind (attr (gr_top_legend g)) (\<lambda>l.
     rbind (legend_draw font l) (\<lambda>legend_ops.
     rbind (legend_get_height l) (\<lambda>top_legend_height.
     rbind (attr (gr_data g)) (\<lambda>d.
     rbind (tr_draw font d) (\<lambda>(data_ops, d).
     rbind (tr_get_data_x_start d) (\<lambda>data_x_start.
     rbind (tr_get_height d) (\<lambda>data_height.
     rbind (scale_get_height (gr_mid_scale g)) (\<lambda>mid_height.
     rbind (scale_draw font (gr_mid_scale g)) (\<lambda>mid_ops.
     rbind (attr (gr_range g)) (\<lambda>(r_start, r_end).
     rbind (scale_get_position r_start (gr_bot_scale g)) (\<lambda>select_start.
     rbind (scale_get_position r_end (gr_bot_scale g)) (\<lambda>select_end.
     rbind (scale_get_height (gr_bot_scale g)) (\<lambda>bot_height.
     rbind (scale_draw font (gr_bot_scale g)) (\<lambda>bot_ops.
     let width = gr_width g; height_used = top_legend_height + data_height + mid_height in
     Inr ([Save, SetSourceRgb 1 1 1, SetOperatorSource, Rectangle 0 0 width (gr_height g), Fill] @
          [Save] @ legend_ops @ [Restore] @
          [MoveTo 0 top_legend_height, LineTo width top_legend_height] @ rule_ops @
          [Save, Translate 0 top_legend_height] @ data_ops @ [Restore] @
          [Save, Translate data_x_start height_used] @ mid_ops @ [Restore] @
          [MoveTo data_x_start height_used, RelLineTo 0 (0 - mid_height), ClosePath, SetSourceRgb 0 0 0,
           SetLineWidth 2, Stroke] @
          [MoveTo 0 height_used, LineTo width height_used] @ rule_ops @
          connection_ops width data_x_start height_used select_start select_end @
          unused_area_ops width (height_used + 20) select_start select_end (bot_height + 20) @
          [Save, Translate 0 (height_used + 20)] @ bot_ops @ [Restore],
          g\<lparr>gr_data := Some d\<rparr>)))))))))))))))"

section \<open>GtkGraphicRenderer\<close>

text \<open>
  The flags \<^verbatim>\<open>__moving_left\<close> etc. are booleans, but \<^verbatim>\<open>motion_notify\<close> also assigns the window width to
  \<^verbatim>\<open>__moving_right\<close>: all the code asks of a flag is whether it is true, and a width is when it is not 0.
\<close>

record gtk_renderer =
  gtk_data :: graphic
  moving_left :: bool
  moving_right :: bool
  moving_both :: bool
  moving_top :: bool
  force_full_redraw :: bool
  moving_left_cur :: "pynum option"
  moving_right_cur :: "pynum option"
  moving_both_start :: "pynum option"
  moving_both_cur :: "pynum option"
  moving_top_start :: "pynum option"
  moving_top_cur :: "pynum option"
  gtk_width :: "pynum option"
  gtk_height :: "pynum option"
  buffer_surface :: "(pynum \<times> pynum \<times> ctx_op list) option"

definition new_gtk_renderer :: "graphic \<Rightarrow> gtk_renderer" where
  "new_gtk_renderer data =
     \<lparr>gtk_data = data, moving_left = False, moving_right = False, moving_both = False,
      moving_top = False, force_full_redraw = True, moving_left_cur = None, moving_right_cur = None,
      moving_both_start = None, moving_both_cur = None, moving_top_start = None, moving_top_cur = None,
      gtk_width = None, gtk_height = None, buffer_surface = None\<rparr>"

text \<open>\<^verbatim>\<open>self.__data.set_range(...)\<close> followed by the request of a full redraw.\<close>

definition change_range :: "font_metrics \<Rightarrow> pynum \<Rightarrow> pynum \<Rightarrow> gtk_renderer \<Rightarrow> gtk_renderer res" where
  "change_range font lo hi w =
     rbind (gr_set_range font lo hi (gtk_data w))
       (\<lambda>g. Inr (w\<lparr>gtk_data := g, force_full_redraw := True\<rparr>))"

definition set_smaller_zoom :: "font_metrics \<Rightarrow> gtk_renderer \<Rightarrow> gtk_renderer res" where
  "set_smaller_zoom font w =
     rbind (gr_get_range (gtk_data w))
       (\<lambda>(start, stop). change_range font start (start + (stop - start) * 2) w)"

definition set_bigger_zoom :: "font_metrics \<Rightarrow> gtk_renderer \<Rightarrow> gtk_renderer res" where
  "set_bigger_zoom font w =
     rbind (gr_get_range (gtk_data w))
       (\<lambda>(start, stop). change_range font start (start + num_half (stop - start)) w)"

definition strictly_between :: "pynum \<Rightarrow> pynum \<Rightarrow> pynum \<Rightarrow> bool" where
  "strictly_between lo v hi \<longleftrightarrow> v > lo \<and> v < hi"

definition button_press :: "pynum \<Rightarrow> pynum \<Rightarrow> gtk_renderer \<Rightarrow> (bool \<times> gtk_renderer) res" where
  "button_press ex ey w =
     rbind (gr_get_selection_rectangle (gtk_data w)) (\<lambda>(x, y, width, height).
     rbind (gr_get_data_rectangle (gtk_data w)) (\<lambda>(d_x, d_y, d_width, d_height).
     Inr (if strictly_between y ey (y + height) \<and> num_abs (ex - x) < 5
          then (True, w\<lparr>moving_left := True\<rparr>)
          else if strictly_between y ey (y + height) \<and> num_abs (ex - (x + width)) < 5
          then (True, w\<lparr>moving_right := True\<rparr>)
          else if strictly_between y ey (y + height) \<and> strictly_between x ex (x + width)
          then (True, w\<lparr>moving_both := True, moving_both_start := Some ex, moving_both_cur := Some ex\<rparr>)
          else if strictly_between d_y ey (d_y + d_height) \<and> strictly_between d_x ex (d_x + d_width)
          then (True, w\<lparr>moving_top := True, moving_top_start := Some ex, moving_top_cur := Some ex\<rparr>)
          else (False, w))))"

definition button_release :: "font_metrics \<Rightarrow> gtk_renderer \<Rightarrow> (bool \<times> gtk_renderer) res" where
  "button_release font w =
     (if moving_left w
      then let w = w\<lparr>moving_left := False\<rparr> in
        rbind (attr (moving_left_cur w)) (\<lambda>cur.
        rbind (gr_scale_selection cur (gtk_data w)) (\<lambda>left.
        rbind (gr_get_range (gtk_data w)) (\<lambda>(_, right).
        rbind (change_range font left right w) (\<lambda>w. Inr (True, w)))))
      else if moving_right w
      then let w = w\<lparr>moving_right := False\<rparr> in
        rbind (attr (moving_right_cur w)) (\<lambda>cur.
        rbind (gr_scale_selection cur (gtk_data w)) (\<lambda>right.
        rbind (gr_get_range (gtk_data w)) (\<lambda>(left, _).
        rbind (change_range font left right w) (\<lambda>w. Inr (True, w)))))
      else if moving_both w
      then let w = w\<lparr>moving_both := False\<rparr> in
        rbind (attr (moving_both_cur w)) (\<lambda>cur.
        rbind (attr (moving_both_start w)) (\<lambda>start.
        rbind (gr_scale_selection (cur - start) (gtk_data w)) (\<lambda>delta.
        rbind (gr_get_range (gtk_data w)) (\<lambda>(left, right).
        rbind (change_range font (left + delta) (right + delta) w) (\<lambda>w. Inr (True, w))))))
      else if moving_top w then Inr (False, w\<lparr>moving_top := False\<rparr>)
      else Inr (False, w))"

definition motion_notify :: "font_metrics \<Rightarrow> pynum \<Rightarrow> pynum \<Rightarrow> gtk_renderer \<Rightarrow> (bool \<times> gtk_renderer) res" where
  "motion_notify font ex ey w =
     rbind (gr_get_selection_rectangle (gtk_data w)) (\<lambda>(x, y, width, height).
     if moving_left w
     then rbind (attr (gtk_width w)) (\<lambda>_.
       Inr (True, w\<lparr>moving_left_cur := Some (if ex \<le> 0 then 0 else if ex \<ge> x + width then x + width else ex)\<rparr>))
     else if moving_right w
     then rbind (attr (gtk_width w)) (\<lambda>ww.
       Inr (True, if ex \<ge> ww then w\<lparr>moving_right := (num_val ww \<noteq> 0)\<rparr>
                  else w\<lparr>moving_right_cur := Some (if ex < x then x else ex)\<rparr>))
     else if moving_both w
     then rbind (attr (gtk_width w)) (\<lambda>ww.
       rbind (attr (moving_both_start w)) (\<lambda>start.
       let cur_e = ww - (x + width - start); cur_s = start - x
       in Inr (True, w\<lparr>moving_both_cur := Some (if ex < cur_s then cur_s else if ex > cur_e then cur_e else ex)\<rparr>)))
     else if moving_top w
     then let w = w\<lparr>moving_top_cur := Some ex\<rparr> in
       rbind (attr (moving_top_start w)) (\<lambda>start.
       rbind (gr_scale_data (start - ex) (gtk_data w)) (\<lambda>delta.
       rbind (gr_get_range (gtk_data w)) (\<lambda>(left, right).
       rbind (change_range font (left + delta) (right + delta) w)
         (\<lambda>w. Inr (True, w\<lparr>moving_top_start := Some ex\<rparr>)))))
     else rbind (gr_get_data_rectangle (gtk_data w)) (\<lambda>(d_x, d_y, d_width, d_height).
       Inr (strictly_between y ey (y + height) \<and>
              (num_abs (ex - x) < 5 \<or> num_abs (ex - (x + width)) < 5 \<or> strictly_between x ex (x + width)) \<or>
            strictly_between d_y ey (d_y + d_height) \<and> strictly_between d_x ex (d_x + d_width), w)))"

definition size_allocate :: "font_metrics \<Rightarrow> pynum \<Rightarrow> pynum \<Rightarrow> gtk_renderer \<Rightarrow> gtk_renderer res" where
  "size_allocate font width height w =
     rbind (gr_layout font width height (gtk_data w))
       (\<lambda>g. Inr (w\<lparr>gtk_width := Some width, gtk_height := Some height, gtk_data := g,
                   force_full_redraw := True\<rparr>))"

text \<open>
  A surface is its size and the calls made on a context of it. \<^verbatim>\<open>expose\<close> returns the calls on the context
  of the window. \<^verbatim>\<open>output_png\<close> creates a surface but draws on a context of \<^verbatim>\<open>__buffer_surface\<close>; the first
  result is the surface that is written to the file.
\<close>

definition handle_line_ops :: "pynum \<Rightarrow> pynum \<Rightarrow> pynum \<Rightarrow> ctx_op list" where
  "handle_line_ops x y height =
     [MoveTo x y, RelLineTo 0 height, ClosePath, SetLineWidth 1, SetSourceRgb 0 0 0, Stroke]"

definition redraw_buffer :: "font_metrics \<Rightarrow> gtk_renderer \<Rightarrow> gtk_renderer res" where
  "redraw_buffer font w =
     (if force_full_redraw w
      then rbind (gr_draw font (gtk_data w)) (\<lambda>(ops, g).
           Inr (w\<lparr>buffer_surface := Some (gr_width (gtk_data w), gr_height (gtk_data w), ops),
                  gtk_data := g, force_full_redraw := False\<rparr>))
      else Inr w)"

definition left_line_ops :: "pynum \<Rightarrow> pynum \<Rightarrow> gtk_renderer \<Rightarrow> ctx_op list res" where
  "left_line_ops y height w =
     (if moving_left w
      then rbind (attr (moving_left_cur w)) (\<lambda>cur. Inr (handle_line_ops (num_max cur 2) y height))
      else Inr [])"

definition right_line_ops :: "pynum \<Rightarrow> pynum \<Rightarrow> gtk_renderer \<Rightarrow> ctx_op list res" where
  "right_line_ops y height w =
     (if moving_right w
      then rbind (attr (moving_right_cur w)) (\<lambda>cur. rbind (attr (gtk_width w)) (\<lambda>ww.
           Inr (handle_line_ops (num_min cur (ww - 2)) y height)))
      else Inr [])"

definition both_line_ops :: "pynum \<Rightarrow> pynum \<Rightarrow> pynum \<Rightarrow> pynum \<Rightarrow> gtk_renderer \<Rightarrow> ctx_op list res" where
  "both_line_ops x y width height w =
     (if moving_both w
      then rbind (attr (moving_both_cur w)) (\<lambda>cur. rbind (attr (moving_both_start w)) (\<lambda>start.
           let delta_x = cur - start
           in Inr [MoveTo (x + delta_x) y, RelLineTo 0 height, ClosePath, MoveTo (x + width + delta_x) y,
                   RelLineTo 0 height, ClosePath, SetSourceRgb 0 0 0, SetLineWidth 1, Stroke]))
      else Inr [])"

definition expose :: "font_metrics \<Rightarrow> pynum \<times> pynum \<times> pynum \<times> pynum \<Rightarrow> gtk_renderer \<Rightarrow>
    (ctx_op list \<times> gtk_renderer) res" where
  "expose font area w =
     (case area of (area_x, area_y, area_width, area_height) \<Rightarrow>
     rbind (redraw_buffer font w) (\<lambda>w.
     rbind (attr (buffer_surface w)) (\<lambda>_.
     rbind (gr_get_selection_rectangle (gtk_data w)) (\<lambda>(x, y, width, height).
     rbind (left_line_ops y height w) (\<lambda>left_ops.
     rbind (right_line_ops y height w) (\<lambda>right_ops.
     rbind (both_line_ops x y width height w) (\<lambda>both_ops.
     Inr ([Rectangle area_x area_y area_width area_height, Clip, SetSourceSurface, Paint] @
          left_ops @ right_ops @ both_ops, w))))))))"

definition output_png :: "font_metrics \<Rightarrow> gtk_renderer \<Rightarrow> ((pynum \<times> pynum \<times> ctx_op list) \<times> gtk_renderer) res" where
  "output_png font w =
     rbind (attr (buffer_surface w)) (\<lambda>(width, height, drawn).
     rbind (gr_draw font (gtk_data w)) (\<lambda>(ops, g).
     Inr ((gr_width (gtk_data w), gr_height (gtk_data w), []),
          w\<lparr>buffer_surface := Some (width, height, drawn @ ops), gtk_data := g\<rparr>)))"

section \<open>main\<close>

text \<open>\<^verbatim>\<open>main\<close> up to the creation of the window; all its divisions are between integers.\<close>

definition default_range :: "int \<Rightarrow> int \<Rightarrow> pynum \<times> pynum" where
  "default_range lower_bound upper_bound =
     (let range_mid = (upper_bound - lower_bound) div 2;
          range_width = (upper_bound - lower_bound) div 10
      in (PInt (range_mid - range_width div 2), PInt (range_mid + range_width div 2)))"

definition grid_main ::
    "(string list \<Rightarrow> string list) \<Rightarrow> font_metrics \<Rightarrow> string list \<Rightarrow> gtk_renderer res"
where
  "grid_main ord font lines =
     rbind (read_data lines) (\<lambda>(cs, ts).
     let (lower_bound, upper_bound) = timelines_get_bounds ts;
         range_values = get_all_range_values ord ts in
     rbind (lookup_range_colors range_values cs) (\<lambda>(range_colors, cs).
     let top_legend = legend_set_legends range_values range_colors new_legend_renderer;
         data = tr_set_timelines ts cs new_timelines_renderer;
         g = gr_set_data data (gr_set_top_legend top_legend
               (new_graphic (PInt lower_bound) (PInt upper_bound)));
         (range_lo, range_hi) = default_range lower_bound upper_bound in
     rbind (gr_set_range font range_lo range_hi g) (\<lambda>g. Inr (new_gtk_renderer g))))"

section \<open>Runs\<close>

datatype gtk_event =
    Press pynum pynum
  | Release
  | Motion pynum pynum
  | ZoomOut
  | ZoomIn
  | Allocate pynum pynum
  | Expose "pynum \<times> pynum \<times> pynum \<times> pynum"
  | OutputPng

fun handle :: "font_metrics \<Rightarrow> gtk_event \<Rightarrow> gtk_renderer \<Rightarrow> gtk_renderer res" where
  "handle font (Press x y) w = rbind (button_press x y w) (\<lambda>(_, w). Inr w)"
| "handle font Release w = rbind (button_release font w) (\<lambda>(_, w). Inr w)"
| "handle font (Motion x y) w = rbind (motion_notify font x y w) (\<lambda>(_, w). Inr w)"
| "handle font ZoomOut w = set_smaller_zoom font w"
| "handle font ZoomIn w = set_bigger_zoom font w"
| "handle font (Allocate width height) w = size_allocate font width height w"
| "handle font (Expose area) w = rbind (expose font area w) (\<lambda>(_, w). Inr w)"
| "handle font OutputPng w = rbind (output_png font w) (\<lambda>(_, w). Inr w)"


section \<open>The invariant of the window\<close>














lemma gr_draw_effect:
  assumes "gr_draw font g = Inr (ops, g')"
  shows "ctx_depth ops n = Some (Suc n) \<and>
    (\<exists>d d'. gr_data g = Some d \<and> g' = g\<lparr>gr_data := Some d'\<rparr> \<and> same_view d d')"
proof -
  obtain l legend_ops d data_ops d' mid_ops bot_ops h1 h2 h3 x a b bh where
    "legend_draw font l = Inr legend_ops" "gr_data g = Some d" "tr_draw font d = Inr (data_ops, d')"
    "scale_draw font (gr_mid_scale g) = Inr mid_ops" "scale_draw font (gr_bot_scale g) = Inr bot_ops"
    and g': "g' = g\<lparr>gr_data := Some d'\<rparr>"
    and ops: "ops = [Save, SetSourceRgb 1 1 1, SetOperatorSource, Rectangle 0 0 (gr_width g) (gr_height g), Fill] @
          [Save] @ legend_ops @ [Restore] @
          [MoveTo 0 h1, LineTo (gr_width g) h1] @ rule_ops @
          [Save, Translate 0 h1] @ data_ops @ [Restore] @
          [Save, Translate x h2] @ mid_ops @ [Restore] @
          [MoveTo x h2, RelLineTo 0 (0 - h3), ClosePath, SetSourceRgb 0 0 0, SetLineWidth 2, Stroke] @
          [MoveTo 0 h2, LineTo (gr_width g) h2] @ rule_ops @ connection_ops (gr_width g) x h2 a b @
          unused_area_ops (gr_width g) (h2 + 20) a b (bh + 20) @
          [Save, Translate 0 (h2 + 20)] @ bot_ops @ [Restore]"
    using assms unfolding gr_draw_def rbind_eq_Inr_iff Let_def attr_def
    by (elim exE conjE, simp only: split: option.splits prod.splits)
       (auto simp: rbind_eq_Inr_iff attr_def split: option.splits)
  from this(1,3-5) have "plain legend_ops" "plain data_ops" "plain mid_ops" "plain bot_ops" "same_view d d'"
    by (auto dest: legend_draw_plain tr_draw_keeps scale_draw_plain)
  with \<open>gr_data g = Some d\<close> g' show ?thesis
    unfolding ops by (auto simp: rule_ops_def connection_ops_def unused_area_ops_def grey_ops_def)
qed






text \<open>A drag of the whole selection or of the data has recorded where it started.\<close>

definition drags_ok :: "gtk_renderer \<Rightarrow> bool" where
  "drags_ok w \<longleftrightarrow>
     (moving_both w \<longrightarrow> moving_both_start w \<noteq> None \<and> moving_both_cur w \<noteq> None) \<and>
     (moving_top w \<longrightarrow> moving_top_start w \<noteq> None)"


lemma drags_ok_top: "drags_ok w \<Longrightarrow> drags_ok (w\<lparr>moving_top := False\<rparr>)"
  by (simp add: drags_ok_def)




section \<open>Which exceptions a handler can raise\<close>














section \<open>Properties\<close>




text \<open>\<^verbatim>\<open>GraphicRenderer.draw\<close> never restores a context state it has not saved, leaves one more state saved
  than it found, and changes nothing of the window but the colors handed out and the background parity
  of its data renderer.\<close>

theorem draw_saves_one_state:
  assumes "gr_draw font g = Inr (ops, g')"
  shows "ctx_depth ops n = Some (Suc n) \<and> (\<exists>d d'. gr_data g = Some d \<and> g' = g\<lparr>gr_data := Some d'\<rparr> \<and>
     tr_timelines d' = tr_timelines d \<and> tr_range d' = tr_range d \<and> tr_layout d' = tr_layout d)"
  using gr_draw_effect [OF assms, of n] by (auto simp: same_view_def)

text \<open>
  \<^verbatim>\<open>output_png\<close> writes a surface nothing was drawn on.
\<close>

theorem output_png_blank:
  "output_png font w = Inr (png, w') \<Longrightarrow> png = (gr_width (gtk_data w), gr_height (gtk_data w), [])"
  by (auto simp: output_png_def rbind_eq_Inr_iff)

text \<open>
  A concrete window: metrics of a fixed-width font and a data file with one range and one event. In
  it, pressing the left handle and releasing it at once fails, and dragging the data far to the left
  leaves a range that ends before it starts.
\<close>

definition demo_font :: font_metrics where
  "demo_font = \<lparr>text_width = (\<lambda>s. of_nat (length s) * 6), text_height = (\<lambda>_. 8), text_y_bearing = (\<lambda>_. - 7)\<rparr>"

definition demo_lines :: "string list" where
  "demo_lines = [''range a b X 0 100'', ''event-int a c 3 40'']"

fun run_events :: "font_metrics \<Rightarrow> gtk_event list \<Rightarrow> gtk_renderer \<Rightarrow> gtk_renderer res" where
  "run_events font [] w = Inr w"
| "run_events font (e # es) w = rbind (handle font e w) (run_events font es)"


definition demo_run :: "gtk_event list \<Rightarrow> gtk_renderer res" where
  "demo_run es = rbind (grid_main id demo_font demo_lines) (run_events demo_font es)"


theorem release_without_motion:
  "demo_run [Allocate 400 300, Press (PFloat 180) (PFloat 120), Release] = Inl AttributeError"
  by code_simp

theorem drag_inverts_range:
  "map_sum id (gr_range \<circ> gtk_data)
     (demo_run [Allocate 400 300, Press (PFloat 200) (PFloat 40), Motion (PFloat (- 2008)) (PFloat 40)]) =
   Inr (Some (PFloat 105, PFloat 100))"
  by code_simp

section \<open>Concrete instances\<close>



theorem draw_saves_one_state_witness:
  "\<exists>w ops g. demo_run [Allocate 400 300] = Inr w \<and> gr_draw demo_font (gtk_data w) = Inr (ops, g) \<and>
     ctx_depth ops 0 = Some 1"
proof -
  let ?r = "demo_run [Allocate 400 300]"
  have "case ?r of Inl e \<Rightarrow> False | Inr w \<Rightarrow> (case gr_draw demo_font (gtk_data w) of Inl e \<Rightarrow> False | Inr _ \<Rightarrow> True)"
    by code_simp
  then obtain w ops g where "?r = Inr w" "gr_draw demo_font (gtk_data w) = Inr (ops, g)"
    by (auto split: sum.splits)
  with draw_saves_one_state [of demo_font "gtk_data w" ops g 0] show ?thesis by auto
qed

end
