(* ===== verification/PyPath.thy ===== *)
theory PyPath
  imports PyString
begin

text \<open>
  The POSIX side of \<^verbatim>\<open>os.path\<close> as the scripts use it, substring search, and files as lists of lines,
  each with its newline.
\<close>

type_synonym file_store = "string \<rightharpoonup> string list"

definition path_join :: "string \<Rightarrow> string \<Rightarrow> string" where
  "path_join a b =
     (if startswith b ''/'' then b
      else if a = [] \<or> last a = CHR ''/'' then a @ b
      else a @ ''/'' @ b)"

definition basename :: "string \<Rightarrow> string" where
  "basename p = last (split_on (CHR ''/'') p)"

text \<open>The components of an absolute path without empty ones, \<^verbatim>\<open>.\<close> and \<^verbatim>\<open>..\<close>.\<close>

fun norm_parts :: "string list \<Rightarrow> string list \<Rightarrow> string list" where
  "norm_parts acc [] = acc"
| "norm_parts acc (c # cs) =
     (if c = [] \<or> c = ''.'' then norm_parts acc cs
      else if c = ''..'' then norm_parts (butlast acc) cs
      else norm_parts (acc @ [c]) cs)"

definition abs_parts :: "string \<Rightarrow> string \<Rightarrow> string list" where
  "abs_parts cwd p = norm_parts [] (split_on (CHR ''/'') (path_join cwd p))"

definition abspath :: "string \<Rightarrow> string \<Rightarrow> string" where
  "abspath cwd p = ''/'' @ join ''/'' (abs_parts cwd p)"

fun common_parts :: "string list \<Rightarrow> string list \<Rightarrow> nat" where
  "common_parts (a # as) (b # bs) = (if a = b then Suc (common_parts as bs) else 0)"
| "common_parts _ _ = 0"

definition relpath :: "string \<Rightarrow> string \<Rightarrow> string \<Rightarrow> string" where
  "relpath cwd p start =
     (let path = abs_parts cwd p; from = abs_parts cwd start; i = common_parts path from;
          rel = replicate (length from - i) ''..'' @ drop i path
      in if rel = [] then ''.'' else join ''/'' rel)"

text \<open>\<^verbatim>\<open>p in s\<close>\<close>

definition contains :: "string \<Rightarrow> string \<Rightarrow> bool" where
  "contains s p \<longleftrightarrow> list_ex (\<lambda>i. startswith (drop i s) p) [0..<Suc (length s)]"

lemma contains_iff: "contains s p \<longleftrightarrow> (\<exists>a b. s = a @ p @ b)"
proof
  assume "contains s p"
  then obtain i where "startswith (drop i s) p" unfolding contains_def list_ex_iff by blast
  then obtain t where "drop i s = p @ t" by (auto simp: startswith_iff)
  then have "s = take i s @ p @ t" by (metis append_take_drop_id)
  then show "\<exists>a b. s = a @ p @ b" by blast
next
  assume "\<exists>a b. s = a @ p @ b"
  then obtain a b where s: "s = a @ p @ b" by blast
  then have "startswith (drop (length a) s) p" "length a < Suc (length s)" by simp_all
  then show "contains s p" unfolding contains_def list_ex_iff by (metis atLeast0LessThan lessThan_iff set_upt)
qed

end
