(* ===== verification/PyTrace.thy ===== *)
theory PyTrace
  imports PyPrelude
begin

text \<open>
  Code that acts on the world outside: a computation is the list of the events it caused, in order,
  and its result or the exception that ended it. Events caused before an exception stay in the trace.
\<close>

type_synonym ('ev, 'a) io = "'ev list \<times> 'a res"

definition io_return :: "'a \<Rightarrow> ('ev, 'a) io" where
  "io_return x = ([], Inr x)"

definition io_raise :: "py_exn \<Rightarrow> ('ev, 'a) io" where
  "io_raise e = ([], Inl e)"

definition tell :: "'ev \<Rightarrow> ('ev, unit) io" where
  "tell ev = ([ev], Inr ())"

definition io_bind :: "('ev, 'a) io \<Rightarrow> ('a \<Rightarrow> ('ev, 'b) io) \<Rightarrow> ('ev, 'b) io" where
  "io_bind m f =
     (case m of
        (tr, Inl e) \<Rightarrow> (tr, Inl e)
      | (tr, Inr x) \<Rightarrow> (tr @ fst (f x), snd (f x)))"

primrec tell_all :: "'ev list \<Rightarrow> ('ev, unit) io" where
  "tell_all [] = io_return ()"
| "tell_all (ev # evs) = io_bind (tell ev) (\<lambda>_. tell_all evs)"

lemma io_bind_simps [simp]:
  "io_bind (tr, Inl e) f = (tr, Inl e)"
  "io_bind (tr, Inr x) f = (tr @ fst (f x), snd (f x))"
  by (simp_all add: io_bind_def)

lemma io_bind_basic [simp]:
  "io_bind (io_return x) f = f x" "io_bind (io_raise e) f = io_raise e"
  "fst (io_bind (tell ev) g) = ev # fst (g ())" "snd (io_bind (tell ev) g) = snd (g ())"
  by (simp_all add: io_return_def io_raise_def tell_def)

lemma tell_all_eq [simp]: "tell_all evs = (evs, Inr ())"
  by (induction evs) (simp_all add: io_return_def tell_def)

lemma io_bind_cong [fundef_cong]:
  "m = m' \<Longrightarrow> (\<And>x. snd m' = Inr x \<Longrightarrow> f x = f' x) \<Longrightarrow> io_bind m f = io_bind m' f'"
  by (cases m') (auto simp: io_bind_def split: sum.splits)

lemma io_bind_eq_Inr_iff:
  "io_bind m f = (tr, Inr y) \<longleftrightarrow>
     (\<exists>tr1 x tr2. m = (tr1, Inr x) \<and> f x = (tr2, Inr y) \<and> tr = tr1 @ tr2)"
  by (cases m; cases "snd m") (auto, metis prod.collapse)

lemma io_return_eq [simp]: "io_return x = (tr, Inr y) \<longleftrightarrow> tr = [] \<and> y = x"
  by (auto simp: io_return_def)

lemma io_raise_eq [simp]: "io_raise e \<noteq> (tr, Inr y)"
  by (simp add: io_raise_def)

end
