(* ===== verification/ShellCmd.thy ===== *)
theory ShellCmd
  imports PyPath PyTrace
begin

text \<open>
  waf-tools/shellcmd.py, the small shell with which waf runs commands: the parser of a command line
  (a state machine over tokens), and the executor, which starts the processes of a pipeline, waits for
  them and short-circuits \<^verbatim>\<open>&&\<close> and \<^verbatim>\<open>||\<close>. The operating system (which files open, which programs start,
  with which status a process ends) is a parameter; what the executor asks of it is recorded as a trace.
\<close>

section \<open>Nodes\<close>

text \<open>A redirection is \<^verbatim>\<open>Command.PIPE\<close>, \<^verbatim>\<open>Command.STDOUT\<close> or the name of a file.\<close>

datatype redirect = PIPE | STDOUT | ToFile string

record command =
  cmd_name :: string
  cmd_argv :: "string list"
  cmd_stdin :: "string option"
  cmd_stdout :: "redirect option"
  cmd_stderr :: "redirect option"
  cmd_env_vars :: "(string, string) dict option"

definition new_command :: "string \<Rightarrow> command" where
  "new_command name = \<lparr>cmd_name = name, cmd_argv = [name], cmd_stdin = None, cmd_stdout = None,
     cmd_stderr = None, cmd_env_vars = None\<rparr>"

datatype node =
    Pipe
  | And
  | Or
  | Command command
  | Chdir "string option"

section \<open>shlex.split\<close>

text \<open>
  The standard library's tokenizer as the parser calls it: POSIX rules, split at white space only, no
  comments. A state is that of the lexer: between words, in a word, in quotes, after a backslash (with
  the quotes it stands in).
\<close>

datatype lex_state = InSpace | InWord | InQuote char | InEscape "char option"

definition lex_space :: "char \<Rightarrow> bool" where
  "lex_space c \<longleftrightarrow> c \<in> {CHR '' '', CHR 0x09, CHR 0x0A, CHR 0x0D}"

definition lex_quote :: "char \<Rightarrow> bool" where
  "lex_quote c \<longleftrightarrow> c \<in> {CHR 0x22, CHR 0x27}"

definition backslash :: char where
  "backslash = CHR 0x5C"

fun lex :: "string \<Rightarrow> lex_state \<Rightarrow> string \<Rightarrow> bool \<Rightarrow> string list res" where
  "lex [] st token quoted =
     (case st of
        InQuote _ \<Rightarrow> Inl ValueError
      | InEscape _ \<Rightarrow> Inl ValueError
      | _ \<Rightarrow> Inr (if token = [] \<and> \<not> quoted then [] else [token]))"
| "lex (c # cs) InSpace token quoted =
     (if lex_space c then lex cs InSpace [] False
      else if c = backslash then lex cs (InEscape None) [] False
      else if lex_quote c then lex cs (InQuote c) [] False
      else lex cs InWord [c] False)"
| "lex (c # cs) InWord token quoted =
     (if lex_space c
      then if token \<noteq> [] \<or> quoted then rbind (lex cs InSpace [] False) (\<lambda>ts. Inr (token # ts))
           else lex cs InSpace [] False
      else if lex_quote c then lex cs (InQuote c) token quoted
      else if c = backslash then lex cs (InEscape None) token quoted
      else lex cs InWord (token @ [c]) quoted)"
| "lex (c # cs) (InQuote q) token quoted =
     (if c = q then lex cs InWord token True
      else if c = backslash \<and> q = CHR 0x22 then lex cs (InEscape (Some q)) token True
      else lex cs (InQuote q) (token @ [c]) True)"
| "lex (c # cs) (InEscape None) token quoted = lex cs InWord (token @ [c]) quoted"
| "lex (c # cs) (InEscape (Some q)) token quoted =
     lex cs (InQuote q) (token @ (if c \<noteq> backslash \<and> c \<noteq> q then [backslash, c] else [c])) quoted"

definition shlex_split :: "string \<Rightarrow> string list res" where
  "shlex_split s = lex s InSpace [] False"

section \<open>Pipeline.parse\<close>

definition is_word :: "char \<Rightarrow> bool" where
  "is_word c \<longleftrightarrow> c \<in> set upper_alphabet \<or> c \<in> set lower_alphabet \<or> is_digit c \<or> c = CHR ''_''"

text \<open>\<^verbatim>\<open>env_var_rx\<close>; \<^verbatim>\<open>$\<close> also matches before a final newline.\<close>

definition env_var_match :: "string \<Rightarrow> (string \<times> string) option" where
  "env_var_match token =
     (let name = takeWhile is_word token
      in case dropWhile is_word token of
           [] \<Rightarrow> None
         | c # rest \<Rightarrow>
             let val = takeWhile (\<lambda>c. \<not> is_space c) rest
             in if name \<noteq> [] \<and> c = CHR ''='' \<and> val \<noteq> [] \<and>
                   dropWhile (\<lambda>c. \<not> is_space c) rest \<in> {[], [CHR 0x0A]}
                then Some (name, val) else None)"

datatype parse_state = BEGIN | COMMAND | CHDIR | STDERR_ARG | STDOUT_ARG | STDIN_ARG

record parser =
  ps_state :: parse_state
  ps_current_command :: "node option"
  ps_pipeline :: "node list"
  ps_env_vars :: "(string, string) dict"

definition py_assert :: "bool \<Rightarrow> unit res" where
  "py_assert b = (if b then Inr () else Inl AssertionError)"

definition commit_command :: "parser \<Rightarrow> parser res" where
  "commit_command p =
     (case ps_current_command p of
        None \<Rightarrow> Inl AssertionError
      | Some node \<Rightarrow> Inr (p\<lparr>ps_pipeline := ps_pipeline p @ [node], ps_current_command := None\<rparr>))"

definition commit_op :: "node \<Rightarrow> parser \<Rightarrow> parser res" where
  "commit_op op p =
     rbind (commit_command p) (\<lambda>p. Inr (p\<lparr>ps_pipeline := ps_pipeline p @ [op], ps_state := BEGIN\<rparr>))"

text \<open>An update of the attributes of the current command; a \<^verbatim>\<open>Chdir\<close> or \<^verbatim>\<open>None\<close> does not have them.\<close>

definition on_command :: "(command \<Rightarrow> command res) \<Rightarrow> parser \<Rightarrow> parser res" where
  "on_command f p =
     (case ps_current_command p of
        Some (Command c) \<Rightarrow> rbind (f c) (\<lambda>c. Inr (p\<lparr>ps_current_command := Some (Command c)\<rparr>))
      | _ \<Rightarrow> Inl AttributeError)"

definition step_begin :: "string \<Rightarrow> parser \<Rightarrow> parser res" where
  "step_begin token p =
     (case env_var_match token of
        Some (key, val) \<Rightarrow> Inr (p\<lparr>ps_env_vars := dict_set key val (ps_env_vars p)\<rparr>)
      | None \<Rightarrow>
          rbind (py_assert (ps_current_command p = None)) (\<lambda>_.
          if token = ''cd''
          then rbind (py_assert (ps_env_vars p = []))
                 (\<lambda>_. Inr (p\<lparr>ps_current_command := Some (Chdir None), ps_state := CHDIR\<rparr>))
          else if ps_env_vars p \<noteq> []
          then Inr (p\<lparr>ps_current_command := Some (Command ((new_command token)\<lparr>cmd_env_vars := Some (ps_env_vars p)\<rparr>)),
                      ps_env_vars := [], ps_state := COMMAND\<rparr>)
          else Inr (p\<lparr>ps_current_command := Some (Command (new_command token)), ps_state := COMMAND\<rparr>)))"

definition set_stdin :: "string \<Rightarrow> command \<Rightarrow> command res" where
  "set_stdin f c = rbind (py_assert (cmd_stdin c = None)) (\<lambda>_. Inr (c\<lparr>cmd_stdin := Some f\<rparr>))"

definition set_stdout :: "redirect \<Rightarrow> command \<Rightarrow> command res" where
  "set_stdout r c = rbind (py_assert (cmd_stdout c = None)) (\<lambda>_. Inr (c\<lparr>cmd_stdout := Some r\<rparr>))"

definition set_stderr :: "redirect \<Rightarrow> command \<Rightarrow> command res" where
  "set_stderr r c = rbind (py_assert (cmd_stderr c = None)) (\<lambda>_. Inr (c\<lparr>cmd_stderr := Some r\<rparr>))"

definition step_command :: "string \<Rightarrow> parser \<Rightarrow> parser res" where
  "step_command token p =
     (if token = ''>'' then Inr (p\<lparr>ps_state := STDOUT_ARG\<rparr>)
      else if token = ''2>'' then Inr (p\<lparr>ps_state := STDERR_ARG\<rparr>)
      else if token = ''2>&1'' then on_command (set_stderr STDOUT) p
      else if token = ''<'' then Inr (p\<lparr>ps_state := STDIN_ARG\<rparr>)
      else if token = ''|'' then rbind (on_command (set_stdout PIPE) p) (commit_op Pipe)
      else if token = ''&&'' then commit_op And p
      else if token = ''||'' then commit_op Or p
      else on_command (\<lambda>c. Inr (c\<lparr>cmd_argv := cmd_argv c @ [token]\<rparr>)) p)"

definition step_chdir :: "string \<Rightarrow> parser \<Rightarrow> parser res" where
  "step_chdir token p =
     (if token = ''&&'' then commit_op And p
      else case ps_current_command p of
             Some (Chdir dir) \<Rightarrow>
               rbind (py_assert (dir = None))
                 (\<lambda>_. Inr (p\<lparr>ps_current_command := Some (Chdir (Some token))\<rparr>))
           | _ \<Rightarrow> Inl AttributeError)"

definition back_to_command :: "parser \<Rightarrow> parser res" where
  "back_to_command p = Inr (p\<lparr>ps_state := COMMAND\<rparr>)"

definition parse_token :: "string \<Rightarrow> parser \<Rightarrow> parser res" where
  "parse_token token p =
     (case ps_state p of
        BEGIN \<Rightarrow> step_begin token p
      | COMMAND \<Rightarrow> step_command token p
      | CHDIR \<Rightarrow> step_chdir token p
      | STDOUT_ARG \<Rightarrow> rbind (on_command (set_stdout (ToFile token)) p) back_to_command
      | STDERR_ARG \<Rightarrow> rbind (on_command (set_stderr (ToFile token)) p) back_to_command
      | STDIN_ARG \<Rightarrow> rbind (on_command (set_stdin token) p) back_to_command)"

definition parse_start :: parser where
  "parse_start = \<lparr>ps_state = BEGIN, ps_current_command = None, ps_pipeline = [], ps_env_vars = []\<rparr>"

definition parse :: "string list \<Rightarrow> node list res" where
  "parse tokens =
     rbind (rfold parse_token tokens parse_start) (\<lambda>p. rbind (commit_command p) (\<lambda>p. Inr (ps_pipeline p)))"

text \<open>\<^verbatim>\<open>parse\<close> of a command given as one string.\<close>

definition parse_string :: "string \<Rightarrow> node list res" where
  "parse_string command = rbind (shlex_split command) parse"

definition get_abbreviated_command :: "node list \<Rightarrow> string" where
  "get_abbreviated_command pipeline =
     join '' '' (concat (map (\<lambda>node.
        (case node of Command c \<Rightarrow> [cmd_name c] | _ \<Rightarrow> []) @
        (case node of
           Chdir dir \<Rightarrow> [''cd '' @ (case dir of None \<Rightarrow> ''None'' | Some d \<Rightarrow> d)]
         | Pipe \<Rightarrow> [''|'']
         | And \<Rightarrow> [''&&'']
         | _ \<Rightarrow> [])) pipeline))"

section \<open>Pipeline.run\<close>

datatype proc_input = Inherit | InFile string | FromProc nat

text \<open>The arguments of \<^verbatim>\<open>subprocess.Popen\<close>; the environment is the inherited one with \<open>p_env_vars\<close> set.\<close>

record process =
  p_argv :: "string list"
  p_stdin :: proc_input
  p_stdout :: "redirect option"
  p_stderr :: "redirect option"
  p_env_vars :: "(string, string) dict option"
  p_cwd :: "string option"

text \<open>The operating system: which files open, which programs start, and the status of the n-th process.\<close>

record sh_os =
  can_read :: "string \<Rightarrow> bool"
  can_write :: "string \<Rightarrow> bool"
  can_start :: "process \<Rightarrow> bool"
  exit_status :: "nat \<Rightarrow> process \<Rightarrow> int"

datatype sh_file = DevNull | ReadFile string | WriteFile string

datatype sh_event =
    Open sh_file
  | Close sh_file
  | Start nat process
  | Wait nat
  | Print string

record run_state =
  rs_files_to_close :: "sh_file list"
  rs_piped_commands :: "(nat \<times> process) list"
  rs_display :: "string list"
  rs_pipe :: bool
  rs_cwd :: string
  rs_started :: nat

definition show_if :: "bool \<Rightarrow> string \<Rightarrow> run_state \<Rightarrow> run_state" where
  "show_if verbose text st = (if verbose then st\<lparr>rs_display := rs_display st @ [text]\<rparr> else st)"

definition keep_file :: "sh_file \<Rightarrow> run_state \<Rightarrow> run_state" where
  "keep_file f st = st\<lparr>rs_files_to_close := rs_files_to_close st @ [f]\<rparr>"

definition open_out_file :: "sh_os \<Rightarrow> string \<Rightarrow> (sh_event, sh_file) io" where
  "open_out_file os f =
     (if f \<in> {''NUL:'', ''/dev/null''} then io_return DevNull
      else if can_write os f then io_bind (tell (Open (WriteFile f))) (\<lambda>_. io_return (WriteFile f))
      else io_raise IOError)"

definition select_stdin :: "sh_os \<Rightarrow> bool \<Rightarrow> command \<Rightarrow> run_state \<Rightarrow> (sh_event, proc_input \<times> run_state) io" where
  "select_stdin os verbose cmd st =
     (if rs_pipe st
      then case rs_piped_commands st of
             [] \<Rightarrow> io_raise IndexError
           | ps \<Rightarrow> let (n, p) = last ps
                   in io_return (if p_stdout p = Some PIPE then FromProc n else Inherit, st)
      else case cmd_stdin cmd of
             None \<Rightarrow> io_return (Inherit, st)
           | Some f \<Rightarrow>
               if can_read os f
               then io_bind (tell (Open (ReadFile f)))
                      (\<lambda>_. io_return (InFile f, keep_file (ReadFile f) (show_if verbose (''< '' @ f) st)))
               else io_raise IOError)"

definition select_stdout :: "sh_os \<Rightarrow> bool \<Rightarrow> command \<Rightarrow> run_state \<Rightarrow> (sh_event, run_state) io" where
  "select_stdout os verbose cmd st =
     (case cmd_stdout cmd of
        None \<Rightarrow> io_return st
      | Some PIPE \<Rightarrow> io_return st
      | Some STDOUT \<Rightarrow> io_raise TypeError
      | Some (ToFile f) \<Rightarrow>
          io_bind (open_out_file os f) (\<lambda>h. io_return (show_if verbose (''> '' @ f) (keep_file h st))))"

definition select_stderr :: "sh_os \<Rightarrow> bool \<Rightarrow> command \<Rightarrow> run_state \<Rightarrow> (sh_event, run_state) io" where
  "select_stderr os verbose cmd st =
     (case cmd_stderr cmd of
        None \<Rightarrow> io_return st
      | Some PIPE \<Rightarrow> io_return st
      | Some STDOUT \<Rightarrow> io_return (show_if verbose ''2>&1'' st)
      | Some (ToFile f) \<Rightarrow>
          io_bind (open_out_file os f) (\<lambda>h. io_return (show_if verbose (''2> '' @ f) (keep_file h st))))"

definition env_prefix :: "command \<Rightarrow> string" where
  "env_prefix cmd =
     (case cmd_env_vars cmd of
        None \<Rightarrow> []
      | Some vars \<Rightarrow> if vars = [] then [] else join '' '' (map (\<lambda>(key, val). key @ ''='' @ val) vars) @ '' '')"

definition as_process :: "proc_input \<Rightarrow> string \<Rightarrow> command \<Rightarrow> process" where
  "as_process inp cwd cmd =
     \<lparr>p_argv = cmd_argv cmd, p_stdin = inp, p_stdout = cmd_stdout cmd, p_stderr = cmd_stderr cmd,
      p_env_vars = (if cmd_env_vars cmd = Some [] then None else cmd_env_vars cmd),
      p_cwd = (if cwd = ''.'' then None else Some cwd)\<rparr>"

definition start_command :: "sh_os \<Rightarrow> bool \<Rightarrow> command \<Rightarrow> run_state \<Rightarrow> (sh_event, run_state) io" where
  "start_command os verbose cmd st =
     io_bind (select_stdin os verbose cmd (show_if verbose (env_prefix cmd @ join '' '' (cmd_argv cmd)) st)) (\<lambda>(inp, st).
     io_bind (select_stdout os verbose cmd st) (\<lambda>st.
     io_bind (select_stderr os verbose cmd st) (\<lambda>st.
     let p = as_process inp (rs_cwd st) cmd; n = rs_started st in
     if can_start os p
     then io_bind (tell (Start n p))
            (\<lambda>_. io_return (st\<lparr>rs_piped_commands := rs_piped_commands st @ [(n, p)], rs_started := Suc n\<rparr>))
     else io_raise OSError)))"

fun retval_loop :: "int list \<Rightarrow> int list \<Rightarrow> int" where
  "retval_loop retvals [] = 0"
| "retval_loop retvals (r # rs) = (if r \<noteq> 0 then last retvals else retval_loop retvals rs)"

definition exec_piped_commands :: "sh_os \<Rightarrow> (nat \<times> process) list \<Rightarrow> (sh_event, int) io" where
  "exec_piped_commands os commands =
     io_bind (tell_all (map (\<lambda>(n, p). Wait n) commands)) (\<lambda>_.
     let retvals = map (\<lambda>(n, p). exit_status os n p) commands
     in io_return (retval_loop retvals retvals))"

definition close_files :: "run_state \<Rightarrow> (sh_event, run_state) io" where
  "close_files st =
     io_bind (tell_all (map Close (filter (\<lambda>f. f \<noteq> DevNull) (rs_files_to_close st))))
       (\<lambda>_. io_return (st\<lparr>rs_files_to_close := []\<rparr>))"

definition exit_text :: "run_state \<Rightarrow> int \<Rightarrow> string" where
  "exit_text st retval = join '' '' (rs_display st) @ '': exit code '' @ str_of_int retval"

text \<open>
  After \<^verbatim>\<open>&&\<close> or \<^verbatim>\<open>||\<close>: wait, close, and either return the status or go on. Both verbose messages format
  \<^verbatim>\<open>retval\<close>, a local variable which only the last command of the line assigns.
\<close>

definition end_group :: "sh_os \<Rightarrow> bool \<Rightarrow> run_state \<Rightarrow> (sh_event, int \<times> run_state) io" where
  "end_group os verbose st =
     io_bind (exec_piped_commands os (rs_piped_commands st)) (\<lambda>this_retval.
     io_bind (close_files st) (\<lambda>st.
     if verbose then io_raise UnboundLocalError
     else io_return (this_retval, st\<lparr>rs_pipe := False, rs_piped_commands := [], rs_display := []\<rparr>)))"

definition end_line :: "sh_os \<Rightarrow> bool \<Rightarrow> run_state \<Rightarrow> (sh_event, int option) io" where
  "end_line os verbose st =
     io_bind (exec_piped_commands os (rs_piped_commands st)) (\<lambda>retval.
     io_bind (if verbose then tell (Print (exit_text st retval)) else io_return ()) (\<lambda>_.
     io_bind (close_files st) (\<lambda>_. io_return (Some retval))))"

fun run_loop :: "sh_os \<Rightarrow> bool \<Rightarrow> node list \<Rightarrow> run_state \<Rightarrow> (sh_event, int option) io" where
  "run_loop os verbose [] st = io_return None"
| "run_loop os verbose [Chdir dir] st = io_raise IndexError"
| "run_loop os verbose (Chdir dir # next_op # pipeline) st =
     (if next_op \<noteq> And then io_raise AssertionError
      else case dir of
             None \<Rightarrow> io_raise AttributeError
           | Some d \<Rightarrow> run_loop os verbose pipeline
               (show_if verbose (''cd '' @ d @ '' &&'') (st\<lparr>rs_cwd := path_join (rs_cwd st) d\<rparr>)))"
| "run_loop os verbose [Command cmd] st = io_bind (start_command os verbose cmd st) (end_line os verbose)"
| "run_loop os verbose (Command cmd # next_node # pipeline) st =
     io_bind (start_command os verbose cmd st) (\<lambda>st.
     case next_node of
       Pipe \<Rightarrow> run_loop os verbose pipeline (st\<lparr>rs_pipe := True, rs_display := rs_display st @ [''|'']\<rparr>)
     | Or \<Rightarrow> io_bind (end_group os verbose st)
              (\<lambda>(r, st). if r = 0 then io_return (Some r) else run_loop os verbose pipeline st)
     | And \<Rightarrow> io_bind (end_group os verbose st)
               (\<lambda>(r, st). if r \<noteq> 0 then io_return (Some r) else run_loop os verbose pipeline st)
     | _ \<Rightarrow> run_loop os verbose pipeline st)"
| "run_loop os verbose (node # pipeline) st = io_raise AssertionError"

definition run_start :: run_state where
  "run_start = \<lparr>rs_files_to_close = [], rs_piped_commands = [], rs_display = [], rs_pipe = False,
     rs_cwd = ''.'', rs_started = 0\<rparr>"

definition run :: "sh_os \<Rightarrow> bool \<Rightarrow> node list \<Rightarrow> (sh_event, int option) io" where
  "run os verbose pipeline = run_loop os verbose pipeline run_start"

section \<open>Well-formed pipelines\<close>

text \<open>
  What \<^verbatim>\<open>parse\<close> builds: commands and operators alternate and a command comes last; the output of a command
  is a pipe exactly when \<^verbatim>\<open>|\<close> follows; after a directory change stands \<^verbatim>\<open>&&\<close> or nothing.
\<close>

definition command_ok :: "command \<Rightarrow> bool" where
  "command_ok c \<longleftrightarrow> cmd_argv c \<noteq> [] \<and> hd (cmd_argv c) = cmd_name c \<and> cmd_stdout c \<noteq> Some STDOUT \<and>
     cmd_stderr c \<noteq> Some PIPE \<and> (case cmd_env_vars c of None \<Rightarrow> True | Some vars \<Rightarrow> vars \<noteq> [] \<and> dict_ok vars)"

fun pair_ok :: "node \<Rightarrow> node \<Rightarrow> bool" where
  "pair_ok (Command c) Pipe \<longleftrightarrow> command_ok c \<and> cmd_stdout c = Some PIPE"
| "pair_ok (Command c) And \<longleftrightarrow> command_ok c \<and> cmd_stdout c \<noteq> Some PIPE"
| "pair_ok (Command c) Or \<longleftrightarrow> command_ok c \<and> cmd_stdout c \<noteq> Some PIPE"
| "pair_ok (Chdir d) And \<longleftrightarrow> True"
| "pair_ok _ _ \<longleftrightarrow> False"

fun last_ok :: "node \<Rightarrow> bool" where
  "last_ok (Command c) \<longleftrightarrow> command_ok c \<and> cmd_stdout c \<noteq> Some PIPE"
| "last_ok (Chdir d) \<longleftrightarrow> True"
| "last_ok _ \<longleftrightarrow> False"

fun wf_pipeline :: "node list \<Rightarrow> bool" where
  "wf_pipeline [] \<longleftrightarrow> False"
| "wf_pipeline [n] \<longleftrightarrow> last_ok n"
| "wf_pipeline (n # op # rest) \<longleftrightarrow> pair_ok n op \<and> wf_pipeline rest"

fun open_pipeline :: "node list \<Rightarrow> bool" where
  "open_pipeline [] \<longleftrightarrow> True"
| "open_pipeline [n] \<longleftrightarrow> False"
| "open_pipeline (n # op # rest) \<longleftrightarrow> pair_ok n op \<and> open_pipeline rest"

lemma open_pipeline_snoc: "open_pipeline xs \<Longrightarrow> open_pipeline (xs @ [n, op]) \<longleftrightarrow> pair_ok n op"
  by (induction xs rule: open_pipeline.induct) auto

lemma wf_pipeline_snoc: "open_pipeline xs \<Longrightarrow> wf_pipeline (xs @ [n]) \<longleftrightarrow> last_ok n"
proof (induction xs rule: open_pipeline.induct)
  case (3 m op rest)
  then show ?case by (cases "rest @ [n]") auto
qed auto

definition parser_ok :: "parser \<Rightarrow> bool" where
  "parser_ok p \<longleftrightarrow> open_pipeline (ps_pipeline p) \<and> dict_ok (ps_env_vars p) \<and>
     (case ps_state p of
        BEGIN \<Rightarrow> ps_current_command p = None
      | CHDIR \<Rightarrow> (\<exists>d. ps_current_command p = Some (Chdir d))
      | _ \<Rightarrow> (\<exists>c. ps_current_command p = Some (Command c) \<and> last_ok (Command c)))"

lemma command_ok_new [simp]: "command_ok (new_command name)" "cmd_stdout (new_command name) = None"
  by (simp_all add: command_ok_def new_command_def)

lemma command_ok_env:
  "vars \<noteq> [] \<Longrightarrow> dict_ok vars \<Longrightarrow> command_ok ((new_command name)\<lparr>cmd_env_vars := Some vars\<rparr>)"
  by (simp add: command_ok_def new_command_def)

lemma command_ok_argv: "command_ok c \<Longrightarrow> command_ok (c\<lparr>cmd_argv := cmd_argv c @ [t]\<rparr>)"
  by (simp add: command_ok_def)

lemma command_ok_redirect:
  "command_ok c \<Longrightarrow> command_ok (c\<lparr>cmd_stdin := i\<rparr>)"
  "command_ok c \<Longrightarrow> r \<noteq> STDOUT \<Longrightarrow> command_ok (c\<lparr>cmd_stdout := Some r\<rparr>)"
  "command_ok c \<Longrightarrow> r \<noteq> PIPE \<Longrightarrow> command_ok (c\<lparr>cmd_stderr := Some r\<rparr>)"
  by (simp_all add: command_ok_def)

lemma set_redirect_eq:
  "set_stdin f c = Inr c' \<longleftrightarrow> cmd_stdin c = None \<and> c' = c\<lparr>cmd_stdin := Some f\<rparr>"
  "set_stdout r c = Inr c' \<longleftrightarrow> cmd_stdout c = None \<and> c' = c\<lparr>cmd_stdout := Some r\<rparr>"
  "set_stderr r c = Inr c' \<longleftrightarrow> cmd_stderr c = None \<and> c' = c\<lparr>cmd_stderr := Some r\<rparr>"
  by (auto simp: set_stdin_def set_stdout_def set_stderr_def py_assert_def)

lemma on_command_eq:
  "on_command f p = Inr p' \<longleftrightarrow>
     (\<exists>c c'. ps_current_command p = Some (Command c) \<and> f c = Inr c' \<and>
        p' = p\<lparr>ps_current_command := Some (Command c')\<rparr>)"
  by (auto simp: on_command_def rbind_eq_Inr_iff split: option.splits node.splits)

lemma commit_op_eq:
  "commit_op op p = Inr p' \<longleftrightarrow>
     (\<exists>n. ps_current_command p = Some n \<and>
        p' = p\<lparr>ps_pipeline := ps_pipeline p @ [n, op], ps_current_command := None, ps_state := BEGIN\<rparr>)"
  by (auto simp: commit_op_def commit_command_def rbind_eq_Inr_iff split: option.splits)

lemma parse_token_ok:
  assumes "parser_ok p" "parse_token token p = Inr p'"
  shows "parser_ok p'"
proof (cases "ps_state p")
  case BEGIN
  then show ?thesis
    using assms by (auto simp: parse_token_def step_begin_def parser_ok_def py_assert_def command_ok_env
        split: option.splits if_splits)
next
  case COMMAND
  then obtain c where c: "ps_current_command p = Some (Command c)" "command_ok c" "cmd_stdout c \<noteq> Some PIPE"
    using assms(1) by (auto simp: parser_ok_def)
  show ?thesis
    using assms c COMMAND
    by (auto simp: parse_token_def step_command_def parser_ok_def on_command_eq set_redirect_eq commit_op_eq
        rbind_eq_Inr_iff open_pipeline_snoc command_ok_argv command_ok_redirect split: if_splits)
next
  case CHDIR
  then show ?thesis
    using assms by (auto simp: parse_token_def step_chdir_def parser_ok_def commit_op_eq open_pipeline_snoc
        py_assert_def split: if_splits)
qed (use assms in \<open>auto simp: parse_token_def parser_ok_def on_command_eq set_redirect_eq back_to_command_def
        rbind_eq_Inr_iff command_ok_redirect\<close>)

lemma rfold_preserves:
  "rfold f xs s = Inr s' \<Longrightarrow> I s \<Longrightarrow> (\<And>x s s'. I s \<Longrightarrow> f x s = Inr s' \<Longrightarrow> I s') \<Longrightarrow> I s'"
  by (induction xs arbitrary: s) (auto simp: rbind_eq_Inr_iff)

lemma parse_result_wf:
  assumes "parse tokens = Inr pl"
  shows "wf_pipeline pl"
proof -
  obtain p n where p: "rfold parse_token tokens parse_start = Inr p" "ps_current_command p = Some n"
    "pl = ps_pipeline p @ [n]"
    using assms by (auto simp: parse_def rbind_eq_Inr_iff commit_command_def split: option.splits)
  have "parser_ok parse_start" by (simp add: parser_ok_def parse_start_def)
  with p(1) have "parser_ok p" using rfold_preserves [of parse_token tokens parse_start p parser_ok] parse_token_ok by blast
  then have "open_pipeline (ps_pipeline p) \<and> last_ok n"
    using p(2) by (auto simp: parser_ok_def split: parse_state.splits)
  then show ?thesis using p(3) wf_pipeline_snoc by simp
qed

lemma on_command_error:
  "ps_current_command p = Some (Command c) \<Longrightarrow> on_command f p = Inl e \<longleftrightarrow> f c = Inl e"
  by (auto simp: on_command_def rbind_eq_Inl_iff)

lemma set_redirect_error:
  "set_stdin f c = Inl e \<Longrightarrow> e = AssertionError" "set_stdout r c = Inl e \<Longrightarrow> e = AssertionError"
  "set_stderr r c = Inl e \<Longrightarrow> e = AssertionError"
  by (auto simp: set_stdin_def set_stdout_def set_stderr_def py_assert_def split: if_splits)

lemma parse_token_error:
  assumes "parser_ok p" "parse_token token p = Inl e"
  shows "e = AssertionError"
proof (cases "ps_state p")
  case BEGIN
  then show ?thesis
    using assms by (auto simp: parse_token_def step_begin_def py_assert_def split: option.splits if_splits)
next
  case CHDIR
  then show ?thesis
    using assms by (auto simp: parse_token_def step_chdir_def parser_ok_def commit_op_def commit_command_def
        py_assert_def split: if_splits)
next
  case COMMAND
  then obtain c where "ps_current_command p = Some (Command c)" using assms(1) by (auto simp: parser_ok_def)
  with COMMAND show ?thesis
    using assms by (auto simp: parse_token_def step_command_def on_command_error commit_op_def commit_command_def
        rbind_eq_Inl_iff on_command_eq dest: set_redirect_error split: if_splits)
qed (use assms in \<open>auto simp: parse_token_def parser_ok_def on_command_error back_to_command_def
        rbind_eq_Inl_iff dest: set_redirect_error\<close>)

lemma rfold_error:
  "rfold f xs s = Inl e \<Longrightarrow> I s \<Longrightarrow> (\<And>x s s'. I s \<Longrightarrow> f x s = Inr s' \<Longrightarrow> I s') \<Longrightarrow>
     (\<And>x s. I s \<Longrightarrow> f x s = Inl e \<Longrightarrow> P) \<Longrightarrow> P"
  by (induction xs arbitrary: s) (auto simp: rbind_eq_Inl_iff)

lemma parse_error_kind: "parse tokens = Inl e \<Longrightarrow> e = AssertionError"
proof -
  assume "parse tokens = Inl e"
  then consider "rfold parse_token tokens parse_start = Inl e" | "e = AssertionError"
    by (auto simp: parse_def rbind_eq_Inl_iff commit_command_def split: option.splits)
  moreover have "parser_ok parse_start" by (simp add: parser_ok_def parse_start_def)
  ultimately show ?thesis
    using rfold_error [of parse_token tokens parse_start e parser_ok] parse_token_ok parse_token_error by metis
qed

section \<open>Printing a pipeline\<close>

definition command_tokens :: "command \<Rightarrow> string list" where
  "command_tokens c =
     (case cmd_env_vars c of None \<Rightarrow> [] | Some vars \<Rightarrow> map (\<lambda>(k, v). k @ ''='' @ v) vars) @ cmd_argv c @
     (case cmd_stdin c of None \<Rightarrow> [] | Some f \<Rightarrow> [''<'', f]) @
     (case cmd_stdout c of Some (ToFile f) \<Rightarrow> [''>'', f] | _ \<Rightarrow> []) @
     (case cmd_stderr c of Some (ToFile f) \<Rightarrow> [''2>'', f] | Some STDOUT \<Rightarrow> [''2>&1''] | _ \<Rightarrow> [])"

fun node_tokens :: "node \<Rightarrow> string list" where
  "node_tokens Pipe = [''|'']"
| "node_tokens And = [''&&'']"
| "node_tokens Or = [''||'']"
| "node_tokens (Command c) = command_tokens c"
| "node_tokens (Chdir None) = [''cd'']"
| "node_tokens (Chdir (Some d)) = [''cd'', d]"

definition pipeline_tokens :: "node list \<Rightarrow> string list" where
  "pipeline_tokens pl = concat (map node_tokens pl)"

definition operators :: "string list" where
  "operators = [''>'', ''2>'', ''2>&1'', ''<'', ''|'', ''&&'', ''||'']"

definition env_var_ok :: "string \<times> string \<Rightarrow> bool" where
  "env_var_ok kv \<longleftrightarrow> fst kv \<noteq> [] \<and> list_all is_word (fst kv) \<and> snd kv \<noteq> [] \<and> list_all (\<lambda>c. \<not> is_space c) (snd kv)"

text \<open>No word of the node can be taken for an operator, an assignment or \<^verbatim>\<open>cd\<close>.\<close>

fun node_printable :: "node \<Rightarrow> bool" where
  "node_printable (Command c) \<longleftrightarrow> cmd_name c \<noteq> ''cd'' \<and> env_var_match (cmd_name c) = None \<and>
     list_all (\<lambda>t. t \<notin> set operators) (tl (cmd_argv c)) \<and>
     (case cmd_env_vars c of None \<Rightarrow> True | Some vars \<Rightarrow> list_all env_var_ok vars)"
| "node_printable (Chdir (Some d)) \<longleftrightarrow> d \<noteq> ''&&''"
| "node_printable _ \<longleftrightarrow> True"

lemma is_word_not_eq: "\<not> is_word CHR ''=''"
  by (simp add: is_word_def upper_alphabet_def lower_alphabet_def is_digit_def)

lemma env_var_match_print: "env_var_ok (k, v) \<Longrightarrow> env_var_match (k @ ''='' @ v) = Some (k, v)"
  by (simp add: env_var_ok_def env_var_match_def list_all_iff takeWhile_append dropWhile_append is_word_not_eq Let_def
      takeWhile_eq_all_conv [THEN iffD2] dropWhile_eq_Nil_conv [THEN iffD2])

lemma dict_set_new: "k \<notin> fst ` set d \<Longrightarrow> dict_set k v d = d @ [(k, v)]"
  unfolding dict_set_def by (induction d) auto

lemma rfold_env_tokens:
  assumes "list_all env_var_ok vars" "dict_ok (d @ vars)" "ps_state p = BEGIN" "ps_env_vars p = d"
  shows "rfold parse_token (map (\<lambda>(k, v). k @ ''='' @ v) vars) p = Inr (p\<lparr>ps_env_vars := d @ vars\<rparr>)"
  using assms
proof (induction vars arbitrary: d p)
  case (Cons kv vars)
  obtain k v where kv: "kv = (k, v)" by force
  have "k \<notin> fst ` set d" using Cons.prems(2) kv by (auto simp: dict_ok_def)
  then have "parse_token (k @ ''='' @ v) p = Inr (p\<lparr>ps_env_vars := d @ [(k, v)]\<rparr>)"
    using Cons.prems kv env_var_match_print [of k v]
    by (simp add: parse_token_def step_begin_def dict_set_new)
  moreover have "rfold parse_token (map (\<lambda>(k, v). k @ ''='' @ v) vars) (p\<lparr>ps_env_vars := d @ [(k, v)]\<rparr>) =
      Inr (p\<lparr>ps_env_vars := d @ [(k, v)]\<rparr>\<lparr>ps_env_vars := (d @ [(k, v)]) @ vars\<rparr>)"
    using Cons.prems kv by (intro Cons.IH) auto
  ultimately show ?case by (simp add: kv)
qed simp

lemma rfold_arg_tokens:
  assumes "list_all (\<lambda>t. t \<notin> set operators) ts" "ps_state p = COMMAND" "ps_current_command p = Some (Command c)"
  shows "rfold parse_token ts p = Inr (p\<lparr>ps_current_command := Some (Command (c\<lparr>cmd_argv := cmd_argv c @ ts\<rparr>))\<rparr>)"
  using assms
proof (induction ts arbitrary: p c)
  case (Cons t ts)
  then have "parse_token t p = Inr (p\<lparr>ps_current_command := Some (Command (c\<lparr>cmd_argv := cmd_argv c @ [t]\<rparr>))\<rparr>)"
    by (simp add: parse_token_def step_command_def operators_def on_command_def)
  with Cons.prems Cons.IH [of "p\<lparr>ps_current_command := Some (Command (c\<lparr>cmd_argv := cmd_argv c @ [t]\<rparr>))\<rparr>"
      "c\<lparr>cmd_argv := cmd_argv c @ [t]\<rparr>"] show ?case by simp
qed simp

definition without_pipe :: "command \<Rightarrow> command" where
  "without_pipe c = c\<lparr>cmd_stdout := (if cmd_stdout c = Some PIPE then None else cmd_stdout c)\<rparr>"

lemma redirect_tokens:
  assumes "ps_state p = COMMAND" "ps_current_command p = Some (Command c)"
  shows "cmd_stdin c = None \<Longrightarrow> rfold parse_token [''<'', f] p = Inr (p\<lparr>ps_current_command := Some (Command (c\<lparr>cmd_stdin := Some f\<rparr>))\<rparr>)"
    "cmd_stdout c = None \<Longrightarrow> rfold parse_token [''>'', f] p = Inr (p\<lparr>ps_current_command := Some (Command (c\<lparr>cmd_stdout := Some (ToFile f)\<rparr>))\<rparr>)"
    "cmd_stderr c = None \<Longrightarrow> rfold parse_token [''2>'', f] p = Inr (p\<lparr>ps_current_command := Some (Command (c\<lparr>cmd_stderr := Some (ToFile f)\<rparr>))\<rparr>)"
    "cmd_stderr c = None \<Longrightarrow> rfold parse_token [''2>&1''] p = Inr (p\<lparr>ps_current_command := Some (Command (c\<lparr>cmd_stderr := Some STDOUT\<rparr>))\<rparr>)"
  using assms
  by (simp_all add: parse_token_def step_command_def on_command_def set_stdin_def set_stdout_def set_stderr_def
      py_assert_def back_to_command_def)

definition bare_command :: "command \<Rightarrow> command" where
  "bare_command c = c\<lparr>cmd_stdin := None, cmd_stdout := None, cmd_stderr := None\<rparr>"

lemma words_tokens:
  assumes "command_ok c" "node_printable (Command c)"
    "ps_state p = BEGIN" "ps_current_command p = None" "ps_env_vars p = []"
  shows "rfold parse_token ((case cmd_env_vars c of None \<Rightarrow> [] | Some vars \<Rightarrow> map (\<lambda>(k, v). k @ ''='' @ v) vars) @ cmd_argv c) p =
    Inr (p\<lparr>ps_state := COMMAND, ps_current_command := Some (Command (bare_command c))\<rparr>)"
proof -
  obtain args where argv: "cmd_argv c = cmd_name c # args"
    using assms(1) by (cases "cmd_argv c") (auto simp: command_ok_def)
  have bare: "bare_command c = (new_command (cmd_name c))\<lparr>cmd_env_vars := cmd_env_vars c, cmd_argv := cmd_argv c\<rparr>"
    by (simp add: bare_command_def new_command_def)
  let ?c = "(new_command (cmd_name c))\<lparr>cmd_env_vars := cmd_env_vars c\<rparr>"
  let ?p = "p\<lparr>ps_state := COMMAND, ps_current_command := Some (Command ?c)\<rparr>"
  have args: "rfold parse_token args ?p = Inr (p\<lparr>ps_state := COMMAND, ps_current_command := Some (Command (bare_command c))\<rparr>)"
    using rfold_arg_tokens [of args ?p ?c] assms(2) argv by (simp add: bare new_command_def)
  show ?thesis
  proof (cases "cmd_env_vars c")
    case None
    then have "parse_token (cmd_name c) p = Inr ?p"
      using assms by (simp add: parse_token_def step_begin_def py_assert_def new_command_def)
    then show ?thesis using args argv None by simp
  next
    case (Some vars)
    then have "vars \<noteq> []" "list_all env_var_ok vars" "dict_ok vars" using assms(1,2) by (simp_all add: command_ok_def)
    moreover from this have "parse_token (cmd_name c) (p\<lparr>ps_env_vars := vars\<rparr>) = Inr ?p"
      using assms Some by (simp add: parse_token_def step_begin_def py_assert_def new_command_def)
    ultimately show ?thesis
      using rfold_env_tokens [of vars "[]" p] assms argv args Some by (simp add: rfold_append)
  qed
qed

lemma command_tokens_parse:
  assumes "command_ok c" "node_printable (Command c)"
    "ps_state p = BEGIN" "ps_current_command p = None" "ps_env_vars p = []"
  shows "rfold parse_token (command_tokens c) p =
    Inr (p\<lparr>ps_state := COMMAND, ps_current_command := Some (Command (without_pipe c))\<rparr>)"
proof -
  let ?at = "\<lambda>c. p\<lparr>ps_state := COMMAND, ps_current_command := Some (Command c)\<rparr>"
  let ?b = "bare_command c"
  have stdin: "rfold parse_token (case cmd_stdin c of None \<Rightarrow> [] | Some f \<Rightarrow> [''<'', f]) (?at ?b) =
      Inr (?at (?b\<lparr>cmd_stdin := cmd_stdin c\<rparr>))"
    using redirect_tokens(1) [of "?at ?b" ?b] by (cases "cmd_stdin c") (auto simp: bare_command_def)
  let ?b2 = "?b\<lparr>cmd_stdin := cmd_stdin c\<rparr>"
  have stdout: "rfold parse_token (case cmd_stdout c of Some (ToFile f) \<Rightarrow> [''>'', f] | _ \<Rightarrow> []) (?at ?b2) =
      Inr (?at (?b2\<lparr>cmd_stdout := cmd_stdout (without_pipe c)\<rparr>))"
    using redirect_tokens(2) [of "?at ?b2" ?b2] assms(1)
    by (auto simp: bare_command_def without_pipe_def command_ok_def split: option.splits redirect.splits)
  let ?b3 = "?b2\<lparr>cmd_stdout := cmd_stdout (without_pipe c)\<rparr>"
  have stderr: "rfold parse_token (case cmd_stderr c of Some (ToFile f) \<Rightarrow> [''2>'', f] | Some STDOUT \<Rightarrow> [''2>&1''] | _ \<Rightarrow> []) (?at ?b3) =
      Inr (?at (?b3\<lparr>cmd_stderr := cmd_stderr c\<rparr>))"
    using redirect_tokens(3,4) [of "?at ?b3" ?b3] assms(1)
    by (auto simp: bare_command_def without_pipe_def command_ok_def split: option.splits redirect.splits)
  have "?b3\<lparr>cmd_stderr := cmd_stderr c\<rparr> = without_pipe c" by (simp add: bare_command_def without_pipe_def)
  with words_tokens [OF assms] stdin stdout stderr show ?thesis
    by (simp add: command_tokens_def rfold_append flip: append_assoc)
qed

lemma chdir_tokens_parse:
  assumes "node_printable (Chdir d)" "ps_state p = BEGIN" "ps_current_command p = None" "ps_env_vars p = []"
  shows "rfold parse_token (node_tokens (Chdir d)) p =
    Inr (p\<lparr>ps_state := CHDIR, ps_current_command := Some (Chdir d)\<rparr>)"
proof -
  have "env_var_match ''cd'' = None" by code_simp
  then show ?thesis
    using assms by (cases d) (auto simp: parse_token_def step_begin_def step_chdir_def py_assert_def)
qed

text \<open>A node and the operator after it; and the last node.\<close>

definition ready :: "node list \<Rightarrow> parser" where
  "ready pl = \<lparr>ps_state = BEGIN, ps_current_command = None, ps_pipeline = pl, ps_env_vars = []\<rparr>"

lemma pair_tokens_parse:
  assumes "pair_ok n op" "node_printable n"
  shows "rfold parse_token (node_tokens n @ node_tokens op) (ready pl) = Inr (ready (pl @ [n, op]))"
  using assms
proof (cases "(n, op)" rule: pair_ok.cases)
  case (1 c)
  then have "on_command (set_stdout PIPE)
      (ready pl\<lparr>ps_state := COMMAND, ps_current_command := Some (Command (without_pipe c))\<rparr>) =
      Inr (ready pl\<lparr>ps_state := COMMAND, ps_current_command := Some (Command c)\<rparr>)"
    using assms by (simp add: on_command_eq set_redirect_eq without_pipe_def ready_def)
  then show ?thesis
    using 1 assms command_tokens_parse [of c "ready pl"]
    by (simp add: rfold_append ready_def parse_token_def step_command_def commit_op_def commit_command_def)
next
  case (4 d)
  then show ?thesis
    using assms chdir_tokens_parse [of d "ready pl"]
    by (simp add: rfold_append ready_def parse_token_def step_chdir_def commit_op_def commit_command_def)
qed (use command_tokens_parse [of _ "ready pl"] in \<open>auto simp: rfold_append ready_def parse_token_def
  step_command_def commit_op_def commit_command_def without_pipe_def\<close>)

lemma last_tokens_parse:
  assumes "last_ok n" "node_printable n"
  shows "\<exists>p. rfold parse_token (node_tokens n) (ready pl) = Inr p \<and> ps_current_command p = Some n \<and> ps_pipeline p = pl"
  using assms
proof (cases n)
  case (Command c)
  then have "without_pipe c = c" using assms by (simp add: without_pipe_def)
  then show ?thesis using Command assms command_tokens_parse [of c "ready pl"] by (simp add: ready_def)
next
  case (Chdir d)
  then show ?thesis using assms chdir_tokens_parse [of d "ready pl"] by (simp add: ready_def)
qed auto

lemma pipeline_tokens_parse:
  assumes "wf_pipeline pl" "list_all node_printable pl"
  shows "rbind (rfold parse_token (pipeline_tokens pl) (ready done)) (\<lambda>p. rbind (commit_command p) (\<lambda>p. Inr (ps_pipeline p))) =
    Inr (done @ pl)"
  using assms
proof (induction pl arbitrary: "done" rule: wf_pipeline.induct)
  case (2 n)
  then obtain p where "rfold parse_token (node_tokens n) (ready done) = Inr p" "ps_current_command p = Some n" "ps_pipeline p = done"
    using last_tokens_parse [of n "done"] by auto
  then show ?case by (simp add: pipeline_tokens_def commit_command_def)
next
  case (3 n op rest)
  have "pipeline_tokens (n # op # rest) = (node_tokens n @ node_tokens op) @ pipeline_tokens rest"
    by (simp add: pipeline_tokens_def)
  with 3 pair_tokens_parse [of n op "done"] show ?case by (simp add: rfold_append del: append_assoc)
qed simp

section \<open>Splitting words\<close>

definition plain_char :: "char \<Rightarrow> bool" where
  "plain_char c \<longleftrightarrow> \<not> lex_space c \<and> \<not> lex_quote c \<and> c \<noteq> backslash"

definition plain_word :: "string \<Rightarrow> bool" where
  "plain_word w \<longleftrightarrow> w \<noteq> [] \<and> list_all plain_char w"

lemma lex_InWord: "list_all plain_char w \<Longrightarrow> lex (w @ rest) InWord token q = lex rest InWord (token @ w) q"
  by (induction w arbitrary: token) (auto simp: plain_char_def)

lemma lex_word: "plain_word w \<Longrightarrow> lex (w @ rest) InSpace token q = lex rest InWord w False"
  by (cases w) (auto simp: plain_word_def plain_char_def lex_InWord)

lemma shlex_split_words: "list_all plain_word ws \<Longrightarrow> shlex_split (join '' '' ws) = Inr ws"
  unfolding shlex_split_def
proof (induction ws rule: induct_list012)
  case (2 w)
  then show ?case using lex_word [of w "[]" "[]" False] by (simp add: plain_word_def)
next
  case (3 w v ws)
  have "lex (w @ '' '' @ join '' '' (v # ws)) InSpace [] False = lex ('' '' @ join '' '' (v # ws)) InWord w False"
    using 3 by (intro lex_word) simp
  also have "\<dots> = Inr (w # v # ws)"
    using 3 by (simp add: lex_space_def plain_word_def)
  finally show ?case by simp
qed simp

section \<open>Properties of the parser\<close>

text \<open>C30. \<^verbatim>\<open>parse\<close> of a list of tokens either returns a well-formed pipeline, with commands and operators
  alternating and pipes exactly before \<^verbatim>\<open>|\<close>, or fails an assertion: no other exception is possible.\<close>

theorem parse_yields_wf:
  "case parse tokens of Inl e \<Rightarrow> e = AssertionError | Inr pl \<Rightarrow> wf_pipeline pl"
  using parse_result_wf [of tokens] parse_error_kind [of tokens] by (auto split: sum.splits)

text \<open>C29. A well-formed pipeline whose words need no quoting is read back by \<^verbatim>\<open>parse\<close> from the command line that
  spells it: assignments, words and redirections of each command, joined by blanks.\<close>

theorem parse_roundtrip:
  assumes "wf_pipeline pl" "list_all node_printable pl" "list_all plain_word (pipeline_tokens pl)"
  shows "parse_string (join '' '' (pipeline_tokens pl)) = Inr pl"
  using pipeline_tokens_parse [OF assms(1,2), of "[]"] shlex_split_words [OF assms(3)]
  by (simp add: parse_string_def parse_def ready_def parse_start_def)

definition demo_pipeline :: "node list" where
  "demo_pipeline = [Command ((new_command ''./foo.py'')\<lparr>cmd_stdin := Some ''xxx'', cmd_stdout := Some PIPE,
      cmd_stderr := Some STDOUT, cmd_env_vars := Some [(''A'', ''1'')]\<rparr>), Pipe, Command (new_command ''cat''), And,
      Chdir (Some ''d''), And, Command (new_command ''ls'')]"

theorem parse_roundtrip_witness:
  "parse_string (join '' '' (pipeline_tokens demo_pipeline)) = Inr demo_pipeline"
  by (rule parse_roundtrip) code_simp+

section \<open>What a command line means\<close>

text \<open>
  The abstract command line: jobs, each a list of commands connected by pipes with the directory they
  run in, joined by \<^verbatim>\<open>&&\<close> and \<^verbatim>\<open>||\<close>. Its value is the exit status and the processes that were started. An
  operator that decides the outcome ends the line: everything to its right is skipped.
\<close>

type_synonym job = "(string \<times> command) list"

datatype plan = Last job | AndThen job plan | OrElse job plan

fun add_command :: "string \<times> command \<Rightarrow> plan \<Rightarrow> plan" where
  "add_command c (Last j) = Last (c # j)"
| "add_command c (AndThen j rest) = AndThen (c # j) rest"
| "add_command c (OrElse j rest) = OrElse (c # j) rest"

fun plan_of :: "string \<Rightarrow> node list \<Rightarrow> plan" where
  "plan_of cwd [Command c] = Last [(cwd, c)]"
| "plan_of cwd (Command c # Pipe # rest) = add_command (cwd, c) (plan_of cwd rest)"
| "plan_of cwd (Command c # And # rest) = AndThen [(cwd, c)] (plan_of cwd rest)"
| "plan_of cwd (Command c # Or # rest) = OrElse [(cwd, c)] (plan_of cwd rest)"
| "plan_of cwd (Chdir (Some d) # And # rest) = plan_of (path_join cwd d) rest"
| "plan_of cwd _ = Last []"

definition input_of :: "proc_input option \<Rightarrow> command \<Rightarrow> proc_input" where
  "input_of inp c =
     (case inp of Some i \<Rightarrow> i | None \<Rightarrow> (case cmd_stdin c of None \<Rightarrow> Inherit | Some f \<Rightarrow> InFile f))"

fun job_processes :: "proc_input option \<Rightarrow> nat \<Rightarrow> job \<Rightarrow> process list" where
  "job_processes inp n [] = []"
| "job_processes inp n ((cwd, c) # cs) =
     as_process (input_of inp c) cwd c # job_processes (Some (FromProc n)) (Suc n) cs"

definition job_status :: "sh_os \<Rightarrow> nat \<Rightarrow> process list \<Rightarrow> int" where
  "job_status os n ps = exit_status os (n + length ps - 1) (last ps)"

fun eval_plan :: "sh_os \<Rightarrow> proc_input option \<Rightarrow> nat \<Rightarrow> plan \<Rightarrow> int \<times> process list" where
  "eval_plan os inp n (Last j) = (let ps = job_processes inp n j in (job_status os n ps, ps))"
| "eval_plan os inp n (AndThen j rest) =
     (let ps = job_processes inp n j; r = job_status os n ps in
      if r = 0 then apsnd ((@) ps) (eval_plan os None (n + length ps) rest) else (r, ps))"
| "eval_plan os inp n (OrElse j rest) =
     (let ps = job_processes inp n j; r = job_status os n ps in
      if r \<noteq> 0 then apsnd ((@) ps) (eval_plan os None (n + length ps) rest) else (r, ps))"

fun first_job :: "plan \<Rightarrow> job" where
  "first_job (Last j) = j"
| "first_job (AndThen j rest) = j"
| "first_job (OrElse j rest) = j"

text \<open>A line that can run: every \<^verbatim>\<open>cd\<close> names a directory and a command follows.\<close>

fun runnable :: "node list \<Rightarrow> bool" where
  "runnable [] \<longleftrightarrow> False"
| "runnable [Chdir d] \<longleftrightarrow> False"
| "runnable [n] \<longleftrightarrow> True"
| "runnable (Chdir None # op # rest) \<longleftrightarrow> False"
| "runnable (n # op # rest) \<longleftrightarrow> runnable rest"

section \<open>Reading traces\<close>

definition started :: "sh_event list \<Rightarrow> (nat \<times> process) list" where
  "started tr = concat (map (\<lambda>ev. case ev of Start n p \<Rightarrow> [(n, p)] | _ \<Rightarrow> []) tr)"

definition waited :: "sh_event list \<Rightarrow> nat list" where
  "waited tr = concat (map (\<lambda>ev. case ev of Wait n \<Rightarrow> [n] | _ \<Rightarrow> []) tr)"

definition opened_files :: "sh_event list \<Rightarrow> sh_file list" where
  "opened_files tr = concat (map (\<lambda>ev. case ev of Open f \<Rightarrow> [f] | _ \<Rightarrow> []) tr)"

definition closed_files :: "sh_event list \<Rightarrow> sh_file list" where
  "closed_files tr = concat (map (\<lambda>ev. case ev of Close f \<Rightarrow> [f] | _ \<Rightarrow> []) tr)"

lemma trace_append [simp]:
  "started (a @ b) = started a @ started b" "waited (a @ b) = waited a @ waited b"
  "opened_files (a @ b) = opened_files a @ opened_files b" "closed_files (a @ b) = closed_files a @ closed_files b"
  by (simp_all add: started_def waited_def opened_files_def closed_files_def)

lemma trace_simps [simp]:
  "started [] = []" "waited [] = []" "opened_files [] = []" "closed_files [] = []"
  "started (ev # tr) = (case ev of Start n p \<Rightarrow> [(n, p)] | _ \<Rightarrow> []) @ started tr"
  "waited (ev # tr) = (case ev of Wait n \<Rightarrow> [n] | _ \<Rightarrow> []) @ waited tr"
  "opened_files (ev # tr) = (case ev of Open f \<Rightarrow> [f] | _ \<Rightarrow> []) @ opened_files tr"
  "closed_files (ev # tr) = (case ev of Close f \<Rightarrow> [f] | _ \<Rightarrow> []) @ closed_files tr"
  by (simp_all add: started_def waited_def opened_files_def closed_files_def)

lemma trace_map [simp]:
  "started (map Open fs) = []" "waited (map Open fs) = []" "opened_files (map Open fs) = fs" "closed_files (map Open fs) = []"
  "started (map Close fs) = []" "waited (map Close fs) = []" "opened_files (map Close fs) = []" "closed_files (map Close fs) = fs"
  "started (map (\<lambda>(n, p). Wait n) cs) = []" "waited (map (\<lambda>(n, p). Wait n) cs) = map fst cs"
  "opened_files (map (\<lambda>(n, p). Wait n) cs) = []" "closed_files (map (\<lambda>(n, p). Wait n) cs) = []"
  by (induction fs; simp)+ (induction cs; auto)+

section \<open>Starting and finishing\<close>

definition real_files :: "sh_file list \<Rightarrow> sh_file list" where
  "real_files fs = filter (\<lambda>f. f \<noteq> DevNull) fs"

lemma real_files_simps [simp]: "real_files [] = []" "real_files (a @ b) = real_files a @ real_files b"
  by (simp_all add: real_files_def)

definition permissive :: "sh_os \<Rightarrow> bool" where
  "permissive os \<longleftrightarrow> (\<forall>f. can_read os f \<and> can_write os f) \<and> (\<forall>p. can_start os p)"

definition state_ok :: "run_state \<Rightarrow> bool" where
  "state_ok st \<longleftrightarrow>
     (if rs_pipe st
      then 0 < rs_started st \<and>
        (\<exists>ps q. rs_piped_commands st = ps @ [(rs_started st - 1, q)] \<and> p_stdout q = Some PIPE)
      else rs_piped_commands st = [])"

definition pipe_input :: "run_state \<Rightarrow> proc_input option" where
  "pipe_input st = (if rs_pipe st then Some (FromProc (rs_started st - 1)) else None)"

text \<open>The status of a pipeline is that of its last command; the search for a failure makes no difference.\<close>

lemma retval_loop_last: "suf \<noteq> [] \<Longrightarrow> last suf = last retvals \<Longrightarrow> retval_loop retvals suf = last retvals"
  by (induction suf) (auto split: if_splits)

lemma exec_piped_last:
  "exec_piped_commands os (ps @ [(n, p)]) = (map (\<lambda>(n, p). Wait n) (ps @ [(n, p)]), Inr (exit_status os n p))"
  using retval_loop_last [of "map (\<lambda>(n, p). exit_status os n p) (ps @ [(n, p)])" "map (\<lambda>(n, p). exit_status os n p) (ps @ [(n, p)])"]
  by (simp add: exec_piped_commands_def io_return_def Let_def)

lemma close_files_eq:
  "close_files st = (map Close (real_files (rs_files_to_close st)), Inr (st\<lparr>rs_files_to_close := []\<rparr>))"
  by (simp add: close_files_def real_files_def io_return_def)

definition keep_files :: "sh_file list \<Rightarrow> run_state \<Rightarrow> run_state" where
  "keep_files fs st = st\<lparr>rs_files_to_close := rs_files_to_close st @ fs\<rparr>"

definition io_ok :: "sh_os \<Rightarrow> (sh_event, 'a) io \<Rightarrow> (sh_event list \<Rightarrow> 'a \<Rightarrow> bool) \<Rightarrow> bool" where
  "io_ok os m P \<longleftrightarrow> (case snd m of Inl e \<Rightarrow> e \<in> {IOError, OSError} \<and> \<not> permissive os | Inr x \<Rightarrow> P (fst m) x)"

lemma io_ok_return [simp]: "io_ok os (io_return x) P \<longleftrightarrow> P [] x" "io_ok os (tr, Inr x) P \<longleftrightarrow> P tr x"
  by (simp_all add: io_ok_def io_return_def)

lemma io_ok_raise [simp]: "io_ok os (io_raise e) P \<longleftrightarrow> e \<in> {IOError, OSError} \<and> \<not> permissive os"
  by (simp add: io_ok_def io_raise_def)

lemma io_ok_bind:
  "io_ok os m (\<lambda>tr x. io_ok os (f x) (\<lambda>tr'. P (tr @ tr'))) \<Longrightarrow> io_ok os (io_bind m f) P"
  by (auto simp: io_ok_def io_bind_def split: prod.splits sum.splits)

lemma io_ok_mono: "io_ok os m P \<Longrightarrow> (\<And>tr x. P tr x \<Longrightarrow> Q tr x) \<Longrightarrow> io_ok os m Q"
  by (auto simp: io_ok_def split: prod.splits sum.splits)

lemma io_ok_step:
  "io_ok os m Q \<Longrightarrow> (\<And>tr x. Q tr x \<Longrightarrow> io_ok os (f x) (\<lambda>tr'. P (tr @ tr'))) \<Longrightarrow> io_ok os (io_bind m f) P"
  by (rule io_ok_bind) (erule io_ok_mono)

lemma io_ok_tell: "io_ok os (tell ev) P \<longleftrightarrow> P [ev] ()"
  by (simp add: tell_def)

lemma select_out_ok:
  "cmd_stdout c \<noteq> Some STDOUT \<Longrightarrow>
    io_ok os (select_stdout os False c st) (\<lambda>tr st'. \<exists>fs. tr = map Open (real_files fs) \<and> st' = keep_files fs st)"
  "io_ok os (select_stderr os False c st) (\<lambda>tr st'. \<exists>fs. tr = map Open (real_files fs) \<and> st' = keep_files fs st)"
proof -
  have to_file: "io_ok os (io_bind (open_out_file os f) (\<lambda>h. io_return (show_if False t (keep_file h st))))
      (\<lambda>tr st'. \<exists>fs. tr = map Open (real_files fs) \<and> st' = keep_files fs st)" for f t
  proof (cases "f \<in> {''NUL:'', ''/dev/null''}")
    case True
    then show ?thesis
      by (auto simp: open_out_file_def show_if_def keep_file_def keep_files_def real_files_def intro!: exI [of _ "[DevNull]"])
  next
    case False
    then show ?thesis
      by (auto simp: open_out_file_def io_ok_tell show_if_def keep_file_def keep_files_def permissive_def real_files_def
          intro!: io_ok_bind exI [of _ "[WriteFile f]"])
  qed
  have none: "\<exists>fs. [] = map Open (real_files fs) \<and> st = keep_files fs st"
    by (rule exI [of _ "[]"]) (simp add: keep_files_def)
  show "cmd_stdout c \<noteq> Some STDOUT \<Longrightarrow>
    io_ok os (select_stdout os False c st) (\<lambda>tr st'. \<exists>fs. tr = map Open (real_files fs) \<and> st' = keep_files fs st)"
    using to_file none by (auto simp: select_stdout_def split: option.splits redirect.splits)
  show "io_ok os (select_stderr os False c st) (\<lambda>tr st'. \<exists>fs. tr = map Open (real_files fs) \<and> st' = keep_files fs st)"
    using to_file none by (auto simp: select_stderr_def show_if_def split: option.splits redirect.splits)
qed

lemma select_stdin_ok:
  assumes "state_ok st"
  shows "io_ok os (select_stdin os False c st) (\<lambda>tr (inp, st').
    inp = input_of (pipe_input st) c \<and> (\<exists>fs. tr = map Open (real_files fs) \<and> st' = keep_files fs st))"
proof (cases "rs_pipe st")
  case True
  then obtain ps q where "rs_piped_commands st = ps @ [(rs_started st - 1, q)]" "p_stdout q = Some PIPE"
    using assms by (auto simp: state_ok_def)
  with True show ?thesis
    by (cases ps) (auto simp: select_stdin_def input_of_def pipe_input_def keep_files_def intro!: exI [of _ "[]"])
next
  case False
  show ?thesis
  proof (cases "cmd_stdin c")
    case None
    with False show ?thesis
      by (auto simp: select_stdin_def input_of_def pipe_input_def keep_files_def intro!: exI [of _ "[]"])
  next
    case (Some f)
    with False show ?thesis
      by (auto simp: select_stdin_def input_of_def pipe_input_def show_if_def keep_file_def keep_files_def
          permissive_def real_files_def io_ok_tell intro!: io_ok_bind exI [of _ "[ReadFile f]"])
  qed
qed

text \<open>Starting a command: the files it needs are opened, then the process is started.\<close>

definition add_process :: "process \<Rightarrow> sh_file list \<Rightarrow> run_state \<Rightarrow> run_state" where
  "add_process p fs st = st\<lparr>rs_files_to_close := rs_files_to_close st @ fs,
     rs_piped_commands := rs_piped_commands st @ [(rs_started st, p)], rs_started := Suc (rs_started st)\<rparr>"

lemma start_command_ok:
  assumes "state_ok st" "command_ok c"
  shows "io_ok os (start_command os False c st) (\<lambda>tr st'.
    \<exists>fs. tr = map Open (real_files fs) @ [Start (rs_started st) (as_process (input_of (pipe_input st) c) (rs_cwd st) c)] \<and>
      st' = add_process (as_process (input_of (pipe_input st) c) (rs_cwd st) c) fs st)"
proof -
  have out: "cmd_stdout c \<noteq> Some STDOUT" using assms(2) by (simp add: command_ok_def)
  have last: "io_ok os (let p = as_process inp (rs_cwd st') c; n = rs_started st' in
      if can_start os p then io_bind (tell (Start n p))
        (\<lambda>_. io_return (st'\<lparr>rs_piped_commands := rs_piped_commands st' @ [(n, p)], rs_started := Suc n\<rparr>))
      else io_raise OSError)
    (\<lambda>tr st''. tr = [Start (rs_started st') (as_process inp (rs_cwd st') c)] \<and>
        st'' = add_process (as_process inp (rs_cwd st') c) [] st')" for inp st'
    by (auto simp: Let_def io_ok_tell add_process_def permissive_def intro!: io_ok_bind)
  show ?thesis
    unfolding start_command_def show_if_def if_False
    by (rule io_ok_step [OF select_stdin_ok [OF assms(1)]], clarify,
        rule io_ok_step [OF select_out_ok(1) [OF out]], clarify,
        rule io_ok_step [OF select_out_ok(2)], clarify, rule io_ok_mono [OF last])
       (auto simp: keep_files_def add_process_def intro!: exI [of _ "a @ b @ c" for a b c])
qed

section \<open>The executor follows the plan\<close>

definition plan_ok :: "plan \<Rightarrow> bool" where
  "plan_ok pl \<longleftrightarrow> first_job pl \<noteq> []"

lemma job_processes_Nil [simp]: "job_processes inp n j = [] \<longleftrightarrow> j = []"
  by (cases j) auto

lemma job_status_Cons: "ps \<noteq> [] \<Longrightarrow> job_status os n (p # ps) = job_status os (Suc n) ps"
  by (simp add: job_status_def)

lemma eval_add_command:
  assumes "plan_ok pl"
  shows "eval_plan os inp n (add_command (cwd, c) pl) =
    apsnd ((#) (as_process (input_of inp c) cwd c)) (eval_plan os (Some (FromProc n)) (Suc n) pl)"
  using assms by (cases pl) (auto simp: plan_ok_def Let_def job_status_Cons apsnd_def map_prod_def split: prod.splits)

lemma plan_of_ok: "wf_pipeline pl \<Longrightarrow> runnable pl \<Longrightarrow> plan_ok (plan_of cwd pl)"
proof (induction cwd pl rule: plan_of.induct)
  case (2 cwd c rest)
  then show ?case by (cases "plan_of cwd rest") (auto simp: plan_ok_def)
qed (auto simp: plan_ok_def neq_Nil_conv elim: wf_pipeline.elims runnable.elims)

text \<open>The numbers of the next processes.\<close>

definition ids :: "nat \<Rightarrow> 'a list \<Rightarrow> nat list" where
  "ids n ps = [n..<n + length ps]"

lemma ids_simps [simp]: "ids n [] = []" "ids n (p # ps) = n # ids (Suc n) ps"
  by (simp_all add: ids_def upt_rec)

text \<open>What a run of the rest of the line does from a state in which the commands before a pipe are running.\<close>

definition follows :: "sh_os \<Rightarrow> run_state \<Rightarrow> plan \<Rightarrow> sh_event list \<Rightarrow> int option \<Rightarrow> bool" where
  "follows os st pl tr res \<longleftrightarrow>
     (case eval_plan os (pipe_input st) (rs_started st) pl of (r, ps) \<Rightarrow>
        res = Some r \<and> started tr = zip (ids (rs_started st) ps) ps \<and>
        waited tr = map fst (rs_piped_commands st) @ ids (rs_started st) ps \<and>
        mset (closed_files tr) = mset (real_files (rs_files_to_close st)) + mset (opened_files tr))"

definition fresh :: "run_state \<Rightarrow> run_state" where
  "fresh st = st\<lparr>rs_pipe := False, rs_piped_commands := [], rs_display := [], rs_files_to_close := []\<rparr>"

lemma end_group_eq:
  assumes "rs_piped_commands st = ps @ [(n, p)]"
  shows "end_group os False st =
    (map (\<lambda>(n, p). Wait n) (rs_piped_commands st) @ map Close (real_files (rs_files_to_close st)),
     Inr (exit_status os n p, fresh st))"
  unfolding end_group_def assms exec_piped_last by (simp add: close_files_eq io_return_def fresh_def assms)

lemma end_line_eq:
  assumes "rs_piped_commands st = ps @ [(n, p)]"
  shows "end_line os False st =
    (map (\<lambda>(n, p). Wait n) (rs_piped_commands st) @ map Close (real_files (rs_files_to_close st)),
     Inr (Some (exit_status os n p)))"
  unfolding end_line_def assms exec_piped_last by (simp add: close_files_eq io_return_def)

lemma add_process_simps [simp]:
  "rs_piped_commands (add_process p fs st) = rs_piped_commands st @ [(rs_started st, p)]"
  "rs_started (add_process p fs st) = Suc (rs_started st)"
  "rs_files_to_close (add_process p fs st) = rs_files_to_close st @ fs"
  "rs_cwd (add_process p fs st) = rs_cwd st" "rs_pipe (add_process p fs st) = rs_pipe st"
  by (simp_all add: add_process_def)

lemma fresh_simps [simp]:
  "rs_pipe (fresh st) = False" "rs_piped_commands (fresh st) = []" "rs_files_to_close (fresh st) = []"
  "rs_started (fresh st) = rs_started st" "rs_cwd (fresh st) = rs_cwd st" "pipe_input (fresh st) = None"
  "state_ok (fresh st)"
  by (simp_all add: fresh_def pipe_input_def state_ok_def)

lemma end_line_follows:
  assumes "p = as_process (input_of (pipe_input st) c) (rs_cwd st) c"
  shows "io_ok os (end_line os False (add_process p fs st))
    (\<lambda>tr. follows os st (Last [(rs_cwd st, c)]) (map Open (real_files fs) @ [Start (rs_started st) p] @ tr))"
  using assms by (simp add: end_line_eq follows_def Let_def job_status_def)

lemma group_follows:
  assumes "p = as_process (input_of (pipe_input st) c) (rs_cwd st) c"
    and "\<And>st. state_ok st \<Longrightarrow> io_ok os (run_loop os False rest st) (follows os st (plan_of (rs_cwd st) rest))"
  shows
    "io_ok os (io_bind (end_group os False (add_process p fs st))
        (\<lambda>(r, st). if r = 0 then io_return (Some r) else run_loop os False rest st))
      (\<lambda>tr. follows os st (OrElse [(rs_cwd st, c)] (plan_of (rs_cwd st) rest))
         (map Open (real_files fs) @ [Start (rs_started st) p] @ tr))"
    "io_ok os (io_bind (end_group os False (add_process p fs st))
        (\<lambda>(r, st). if r \<noteq> 0 then io_return (Some r) else run_loop os False rest st))
      (\<lambda>tr. follows os st (AndThen [(rs_cwd st, c)] (plan_of (rs_cwd st) rest))
         (map Open (real_files fs) @ [Start (rs_started st) p] @ tr))"
proof -
  let ?st = "add_process p fs st"
  note rest = assms(2) [of "fresh ?st"]
  have proceed: "io_ok os (run_loop os False rest (fresh ?st))
      (\<lambda>tr res. \<exists>r ps. eval_plan os None (Suc (rs_started st)) (plan_of (rs_cwd st) rest) = (r, ps) \<and> res = Some r \<and>
        started tr = zip (ids (Suc (rs_started st)) ps) ps \<and>
        waited tr = ids (Suc (rs_started st)) ps \<and> mset (closed_files tr) = mset (opened_files tr))"
    using rest by (rule io_ok_mono) (auto simp: follows_def split: prod.splits)
  show "io_ok os (io_bind (end_group os False ?st)
        (\<lambda>(r, st). if r = 0 then io_return (Some r) else run_loop os False rest st))
      (\<lambda>tr. follows os st (OrElse [(rs_cwd st, c)] (plan_of (rs_cwd st) rest))
         (map Open (real_files fs) @ [Start (rs_started st) p] @ tr))"
    using assms(1) proceed
    by (intro io_ok_bind) (auto simp: end_group_eq follows_def Let_def job_status_def ac_simps elim!: io_ok_mono)
  show "io_ok os (io_bind (end_group os False ?st)
        (\<lambda>(r, st). if r \<noteq> 0 then io_return (Some r) else run_loop os False rest st))
      (\<lambda>tr. follows os st (AndThen [(rs_cwd st, c)] (plan_of (rs_cwd st) rest))
         (map Open (real_files fs) @ [Start (rs_started st) p] @ tr))"
    using assms(1) proceed
    by (intro io_ok_bind) (auto simp: end_group_eq follows_def Let_def job_status_def ac_simps elim!: io_ok_mono)
qed

lemma run_loop_follows:
  assumes "wf_pipeline pl" "runnable pl" "state_ok st"
  shows "io_ok os (run_loop os False pl st) (follows os st (plan_of (rs_cwd st) pl))"
  using assms
proof (induction pl arbitrary: st rule: wf_pipeline.induct)
  case (2 n)
  then obtain c where n: "n = Command c" "command_ok c" by (cases n) auto
  then show ?case
    using end_line_follows [OF refl, of os st c] by (auto intro!: io_ok_step [OF start_command_ok [OF 2(3) n(2)]])
next
  case (3 n op rest)
  note IH = 3(1)
  show ?case
  proof (cases "(n, op)" rule: pair_ok.cases)
    case (1 c)
    with 3 have c: "command_ok c" "cmd_stdout c = Some PIPE" "wf_pipeline rest" "runnable rest" by auto
    let ?p = "as_process (input_of (pipe_input st) c) (rs_cwd st) c"
    have "io_ok os (run_loop os False rest (add_process ?p fs st\<lparr>rs_pipe := True, rs_display := d\<rparr>))
       (\<lambda>tr. follows os st (add_command (rs_cwd st, c) (plan_of (rs_cwd st) rest))
          (map Open (real_files fs) @ [Start (rs_started st) ?p] @ tr))" for fs d
    proof (rule io_ok_mono [OF IH])
      let ?st = "add_process ?p fs st\<lparr>rs_pipe := True, rs_display := d\<rparr>"
      show "state_ok ?st" using c(2) by (simp add: state_ok_def as_process_def)
      fix tr res
      assume "follows os ?st (plan_of (rs_cwd ?st) rest) tr res"
      then show "follows os st (add_command (rs_cwd st, c) (plan_of (rs_cwd st) rest))
          (map Open (real_files fs) @ [Start (rs_started st) ?p] @ tr) res"
        using eval_add_command [OF plan_of_ok [OF c(3,4)], of os "pipe_input st" "rs_started st" "rs_cwd st" c "rs_cwd st"]
        by (auto simp: follows_def pipe_input_def split: prod.splits)
    qed (use c in simp_all)
    with 1 show ?thesis by (auto intro!: io_ok_step [OF start_command_ok [OF 3(4) c(1)]])
  next
    case (2 c)
    with 3 have c: "command_ok c" "wf_pipeline rest" "runnable rest" by auto
    with 2 IH group_follows(2) [OF refl, of os rest st c] show ?thesis
      by (auto intro!: io_ok_step [OF start_command_ok [OF 3(4) c(1)]])
  next
    case (3 c)
    with \<open>wf_pipeline (n # op # rest)\<close> \<open>runnable (n # op # rest)\<close>
    have c: "command_ok c" "wf_pipeline rest" "runnable rest" by auto
    with 3 IH group_follows(1) [OF refl, of os rest st c] show ?thesis
      by (auto intro!: io_ok_step [OF start_command_ok [OF \<open>state_ok st\<close> c(1)]])
  next
    case (4 d)
    with 3 obtain dir where d: "d = Some dir" "wf_pipeline rest" "runnable rest" by (cases d) auto
    let ?st = "st\<lparr>rs_cwd := path_join (rs_cwd st) dir\<rparr>"
    have "state_ok ?st" using 3(4) by (cases "rs_pipe st") (auto simp: state_ok_def)
    moreover have "follows os ?st = follows os st" by (intro ext) (simp add: follows_def pipe_input_def)
    ultimately show ?thesis using IH [OF d(2,3), of ?st] 4 d by (simp add: show_if_def)
  qed (use 3(2) in auto)
qed simp

section \<open>Properties of the executor\<close>

text \<open>C9. Running what \<^verbatim>\<open>parse\<close> built (not verbosely, every \<^verbatim>\<open>cd\<close> naming a directory and followed by a command)
  implements the abstract command line: the result is its exit status, exactly its processes are started,
  in order and with the output of each command before a pipe as the input of the next, every started
  process is waited for, and every file that was opened is closed. The only exceptions are those of
  opening a file or starting a program, and none occurs when these succeed.\<close>

theorem run_refines_plan:
  assumes "parse tokens = Inr pl" "runnable pl"
  shows "case run os False pl of
      (tr, Inl e) \<Rightarrow> e \<in> {IOError, OSError} \<and> \<not> permissive os
    | (tr, Inr res) \<Rightarrow>
        (case eval_plan os None 0 (plan_of ''.'' pl) of (r, ps) \<Rightarrow>
           res = Some r \<and> started tr = zip [0..<length ps] ps \<and> waited tr = [0..<length ps] \<and>
           mset (closed_files tr) = mset (opened_files tr))"
proof -
  have "state_ok run_start" by (simp add: state_ok_def run_start_def)
  from run_loop_follows [OF parse_result_wf [OF assms(1)] assms(2) this, of os]
  show ?thesis
    by (auto simp: io_ok_def run_def follows_def run_start_def pipe_input_def ids_def split: prod.splits sum.splits)
qed

text \<open>\<^verbatim>\<open>_exec_piped_commands\<close>, which looks for a failed command in the pipeline, always returns the status
  of the last command, as a shell does.\<close>

theorem exec_piped_commands_last:
  assumes "commands \<noteq> []"
  shows "exec_piped_commands os commands =
    (map (\<lambda>(n, p). Wait n) commands, Inr (case last commands of (n, p) \<Rightarrow> exit_status os n p))"
proof -
  obtain ps n p where "commands = ps @ [(n, p)]" using assms by (metis append_butlast_last_id surj_pair)
  then show ?thesis using exec_piped_last by simp
qed

text \<open>
  Behaviours of the executor that differ from a shell's, or that fail: a verbose run with an operator reads
  an unassigned variable; a line that ends in \<^verbatim>\<open>cd\<close> pops an empty list; \<^verbatim>\<open>a || b && c\<close> skips \<^verbatim>\<open>c\<close> when \<^verbatim>\<open>a\<close>
  succeeds; a redirection without a file name is dropped.
\<close>

definition demo_os :: sh_os where
  "demo_os = \<lparr>can_read = \<lambda>_. True, can_write = \<lambda>_. True, can_start = \<lambda>_. True,
     exit_status = \<lambda>n p. if p_argv p = [''false''] then 1 else 0\<rparr>"

definition sh :: "bool \<Rightarrow> string \<Rightarrow> (sh_event, int option) io" where
  "sh verbose line = (case parse_string line of Inl e \<Rightarrow> io_raise e | Inr pl \<Rightarrow> run demo_os verbose pl)"

theorem verbose_operator_unbound: "snd (sh True ''ls && pwd'') = Inl UnboundLocalError"
  by code_simp

theorem trailing_cd_index_error: "snd (sh False ''ls && cd x'') = Inl IndexError"
  by code_simp

theorem or_and_skips_rest: "map (p_argv \<circ> snd) (started (fst (sh False ''true || ls && pwd''))) = [[''true'']]"
  by code_simp

theorem redirect_without_file: "parse_string ''ls >'' = Inr [Command (new_command ''ls'')]"
  by code_simp

section \<open>Concrete instances of the executor's properties\<close>

theorem run_refines_plan_witness:
  "\<exists>tr. run demo_os False demo_pipeline = (tr, Inr (Some 0)) \<and> waited tr = [0, 1, 2] \<and> mset (closed_files tr) = mset (opened_files tr)"
proof -
  have "parse (pipeline_tokens demo_pipeline) = Inr demo_pipeline" "runnable demo_pipeline"
    "(case eval_plan demo_os None 0 (plan_of ''.'' demo_pipeline) of (r, ps) \<Rightarrow> r = 0 \<and> length ps = 3)"
    by code_simp+
  moreover have "permissive demo_os" by (simp add: permissive_def demo_os_def)
  ultimately show ?thesis
    using run_refines_plan [of "pipeline_tokens demo_pipeline" demo_pipeline demo_os]
    by (auto simp: upt_rec split: prod.splits sum.splits)
qed

theorem exec_piped_commands_last_witness:
  "snd (exec_piped_commands demo_os [(0, as_process Inherit ''.'' (new_command ''false'')),
     (1, as_process (FromProc 0) ''.'' (new_command ''cat''))]) = Inr 0"
  by (subst exec_piped_commands_last) code_simp+

end
