(* ===== verification/TestConfig.thy ===== *)
theory TestConfig
  imports PyPath
begin

text \<open>
  utils.py, the reader of Python lists and booleans in configuration files, and the parts of test.py that
  find out what can be run: the waf state files, the library search paths and the examples-to-run files.
  Python's \<^verbatim>\<open>eval\<close> on the text of a literal is a parameter. The platform is POSIX for paths.
\<close>

section \<open>utils.py\<close>

definition strip_comment :: "string \<Rightarrow> string" where
  "strip_comment line = (if CHR ''#'' \<in> set line then takeWhile (\<lambda>c. c \<noteq> CHR ''#'') line else line)"

text \<open>\<^verbatim>\<open>eval(s.split('=', 1)[1].strip())\<close>\<close>

definition eval_rhs :: "(string \<Rightarrow> 'v res) \<Rightarrow> string \<Rightarrow> 'v res" where
  "eval_rhs ev s = (case split_once (CHR ''='') s of [lhs, rhs] \<Rightarrow> ev (strip rhs) | _ \<Rightarrow> Inl IndexError)"

fun list_loop :: "(string \<Rightarrow> 'a list res) \<Rightarrow> string \<Rightarrow> string list \<Rightarrow> string \<Rightarrow> bool \<Rightarrow> 'a list res" where
  "list_loop ev list_name [] list_string multiline = Inr []"
| "list_loop ev list_name (line # lines) list_string multiline =
     (if contains (strip_comment line) list_name \<or> multiline
      then if CHR '']'' \<notin> set (list_string @ strip_comment line)
           then list_loop ev list_name lines (list_string @ strip_comment line) True
           else eval_rhs ev (list_string @ strip_comment line)
      else list_loop ev list_name lines list_string multiline)"

definition get_list_from_file :: "(string \<Rightarrow> 'a list res) \<Rightarrow> file_store \<Rightarrow> string \<Rightarrow> string \<Rightarrow> 'a list res" where
  "get_list_from_file ev fs file_path list_name =
     (case fs file_path of None \<Rightarrow> Inr [] | Some lines \<Rightarrow> list_loop ev list_name lines [] False)"

text \<open>The loop of \<^verbatim>\<open>get_bool_from_file\<close>: \<open>None\<close> when \<^verbatim>\<open>bool_found\<close> stays \<^verbatim>\<open>False\<close>.\<close>

fun bool_loop :: "(string \<Rightarrow> bool res) \<Rightarrow> string \<Rightarrow> string list \<Rightarrow> bool option res" where
  "bool_loop ev bool_name [] = Inr None"
| "bool_loop ev bool_name (line # lines) =
     (if contains (strip_comment line) bool_name
      then rbind (eval_rhs ev (strip_comment line)) (\<lambda>b. Inr (Some b))
      else bool_loop ev bool_name lines)"

text \<open>When the file does not exist, \<^verbatim>\<open>bool_found\<close> is read before it is assigned.\<close>

definition get_bool_from_file :: "(string \<Rightarrow> bool res) \<Rightarrow> file_store \<Rightarrow> string \<Rightarrow> string \<Rightarrow> bool \<Rightarrow> bool res" where
  "get_bool_from_file ev fs file_path bool_name value_if_missing =
     (case fs file_path of
        None \<Rightarrow> Inl UnboundLocalError
      | Some lines \<Rightarrow> rbind (bool_loop ev bool_name lines) (\<lambda>found. Inr (case found of Some b \<Rightarrow> b | None \<Rightarrow> value_if_missing)))"

text \<open>\<open>home\<close> is the value of \<^verbatim>\<open>os.path.expanduser('~/')\<close>.\<close>

definition read_config_file ::
    "(string \<Rightarrow> string list res) \<Rightarrow> (string \<Rightarrow> bool res) \<Rightarrow> string \<Rightarrow> file_store \<Rightarrow> (bool \<times> string list \<times> bool \<times> bool) res"
where
  "read_config_file ev_list ev_bool home fs =
     (let path = (if fs ''.ns3rc'' \<noteq> None then ''.ns3rc'' else home @ ''.ns3rc'') in
      if fs path = None then Inr (False, [''all_modules''], False, False)
      else rbind (get_list_from_file ev_list fs path ''modules_enabled'') (\<lambda>modules.
           let modules_enabled = (if modules = [] then [''all_modules''] else modules) in
           rbind (get_bool_from_file ev_bool fs path ''examples_enabled'' False) (\<lambda>examples_enabled.
           rbind (get_bool_from_file ev_bool fs path ''tests_enabled'' False) (\<lambda>tests_enabled.
           Inr (True, modules_enabled, examples_enabled, tests_enabled)))))"

section \<open>read_waf_config\<close>

definition interesting_config_items :: "string list" where
  "interesting_config_items =
     [''NS3_ENABLED_MODULES'', ''NS3_ENABLED_CONTRIBUTED_MODULES'', ''NS3_MODULE_PATH'', ''NSC_ENABLED'',
      ''ENABLE_REAL_TIME'', ''ENABLE_THREADING'', ''ENABLE_EXAMPLES'', ''ENABLE_TESTS'', ''EXAMPLE_DIRECTORIES'',
      ''ENABLE_PYTHON_BINDINGS'', ''NSCLICK'', ''ENABLE_BRITE'', ''ENABLE_OPENFLOW'', ''APPNAME'', ''BUILD_PROFILE'',
      ''VERSION'', ''PYTHON'', ''VALGRIND_FOUND'']"

text \<open>\<^verbatim>\<open>key, val = line.split('=')\<close> needs exactly one equals sign.\<close>

definition eval_entry :: "(string \<Rightarrow> string res) \<Rightarrow> string \<Rightarrow> string res" where
  "eval_entry ev line = (case split_on (CHR ''='') line of [key, val] \<Rightarrow> ev (strip val) | _ \<Rightarrow> Inl ValueError)"

definition lock_line ::
    "(string \<Rightarrow> string res) \<Rightarrow> string \<Rightarrow> string option \<times> string option \<Rightarrow> (string option \<times> string option) res"
where
  "lock_line ev line dirs =
     (case dirs of (top_dir, out_dir) \<Rightarrow>
      rbind (if startswith line ''top_dir ='' then rbind (eval_entry ev line) (\<lambda>v. Inr (Some v)) else Inr top_dir) (\<lambda>top_dir.
      rbind (if startswith line ''out_dir ='' then rbind (eval_entry ev line) (\<lambda>v. Inr (Some v)) else Inr out_dir) (\<lambda>out_dir.
      Inr (top_dir, out_dir))))"

definition unbound :: "'a option \<Rightarrow> 'a res" where
  "unbound x = (case x of None \<Rightarrow> Inl UnboundLocalError | Some v \<Rightarrow> Inr v)"

text \<open>
  The base and build directories, and the lines of the cache file that are executed, in order, a line once
  for every item it begins with.
\<close>

definition read_waf_config ::
    "(string \<Rightarrow> string res) \<Rightarrow> string \<Rightarrow> file_store \<Rightarrow> (string \<times> string \<times> string list) res"
where
  "read_waf_config ev sys_platform fs =
     rbind (case fs (''.lock-waf_'' @ sys_platform @ ''_build'') of
              Some lines \<Rightarrow> Inr lines
            | None \<Rightarrow> (case fs ''.lock-waf_linux2_build'' of Some lines \<Rightarrow> Inr lines | None \<Rightarrow> Inl (SystemExit 2))) (\<lambda>lines.
     rbind (rfold (lock_line ev) lines (None, None)) (\<lambda>(top_dir, out_dir).
     rbind (unbound top_dir) (\<lambda>basedir.
     rbind (unbound out_dir) (\<lambda>builddir.
     case fs (builddir @ ''/c4che/_cache.py'') of
       None \<Rightarrow> Inl IOError
     | Some cache \<Rightarrow>
         Inr (basedir, builddir,
              concat (map (\<lambda>line. map (\<lambda>_. line) (filter (startswith line) interesting_config_items)) cache))))))"

section \<open>make_paths\<close>

type_synonym environ = "(string, string) dict"

definition getenv :: "environ \<Rightarrow> string \<Rightarrow> string" where
  "getenv env v = dict_get_default env v []"

definition append_env :: "string \<Rightarrow> string \<Rightarrow> environ \<Rightarrow> environ" where
  "append_env v s env = dict_set v (getenv env v @ s) env"

definition extend_path :: "string \<Rightarrow> string \<Rightarrow> string list \<Rightarrow> environ \<Rightarrow> environ" where
  "extend_path v sep paths env =
     fold (\<lambda>path. append_env v (sep @ path)) paths (if has_key env v then env else dict_set v [] env)"

definition library_variable :: "string \<Rightarrow> string \<times> string" where
  "library_variable platform =
     (if platform = ''darwin'' then (''DYLD_LIBRARY_PATH'', '':'')
      else if platform = ''win32'' then (''PATH'', '';'')
      else if platform = ''cygwin'' then (''PATH'', '':'')
      else (''LD_LIBRARY_PATH'', '':''))"

definition make_paths :: "string \<Rightarrow> string \<Rightarrow> string list \<Rightarrow> environ \<Rightarrow> environ" where
  "make_paths platform builddir module_path env =
     (let have_PYTHONPATH = has_key env ''PYTHONPATH'';
          pypath = path_join (path_join builddir ''bindings'') ''python'';
          env = dict_set ''PYTHONPATH'' pypath env;
          env = (if \<not> have_PYTHONPATH then dict_set ''PYTHONPATH'' pypath env
                 else append_env ''PYTHONPATH'' ('':'' @ pypath) env);
          (v, sep) = library_variable platform
      in extend_path v sep module_path env)"

section \<open>parse_examples_to_run_file\<close>

record waf_config =
  cfg_basedir :: string
  cfg_builddir :: string
  cfg_appname :: string
  cfg_version :: string
  cfg_build_profile :: string
  cfg_python :: "string list"
  cfg_nsc_enabled :: bool
  cfg_enable_examples :: bool
  cfg_enable_tests :: bool
  cfg_valgrind_found :: bool
  cfg_enable_python_bindings :: bool

text \<open>\<^verbatim>\<open>BUILD_PROFILE_SUFFIX\<close> and the name of a built program.\<close>

definition build_profile_suffix :: "waf_config \<Rightarrow> string" where
  "build_profile_suffix cfg = (if cfg_build_profile cfg = ''release'' then [] else ''-'' @ cfg_build_profile cfg)"

definition program_name :: "waf_config \<Rightarrow> string \<Rightarrow> string" where
  "program_name cfg name = cfg_appname cfg @ cfg_version cfg @ ''-'' @ name @ build_profile_suffix cfg"

type_synonym cpp_example = "string \<times> string \<times> string"
type_synonym py_example = "string \<times> string"

record example_lists =
  example_tests :: "(string \<times> string \<times> string \<times> string) list"
  example_names_original :: "string list"
  python_tests :: "(string \<times> string) list"

text \<open>The name before the first blank and the arguments after it.\<close>

definition split_arguments :: "string \<Rightarrow> string \<times> string option" where
  "split_arguments name = (case split_once (CHR '' '') name of [n] \<Rightarrow> (n, None) | [n, args] \<Rightarrow> (n, Some args) | _ \<Rightarrow> (name, None))"

definition with_arguments :: "string option \<Rightarrow> string \<Rightarrow> string" where
  "with_arguments args path = (case args of None \<Rightarrow> path | Some a \<Rightarrow> path @ '' '' @ a)"

definition add_cpp_example ::
    "waf_config \<Rightarrow> string \<Rightarrow> (string \<Rightarrow> bool) \<Rightarrow> string \<Rightarrow> cpp_example \<Rightarrow> example_lists \<Rightarrow> example_lists"
where
  "add_cpp_example cfg cwd exists cpp_executable_dir ex st =
     (case ex of (example_name_original, do_run, do_valgrind_run) \<Rightarrow>
      let (name, args) = split_arguments example_name_original;
          example_path = path_join cpp_executable_dir (program_name cfg name);
          example_name = path_join (relpath cwd cpp_executable_dir (cfg_builddir cfg)) name
      in if exists example_path
         then st\<lparr>example_tests := example_tests st @
                   [(with_arguments args example_name, with_arguments args example_path, do_run, do_valgrind_run)],
                 example_names_original := example_names_original st @ [example_name_original]\<rparr>
         else st)"

definition add_python_example :: "(string \<Rightarrow> bool) \<Rightarrow> string \<Rightarrow> py_example \<Rightarrow> example_lists \<Rightarrow> example_lists" where
  "add_python_example exists python_script_dir ex st =
     (case ex of (example_name, do_run) \<Rightarrow>
      let (name, args) = split_arguments example_name;
          example_path = path_join python_script_dir name
      in if exists example_path
         then st\<lparr>python_tests := python_tests st @ [(with_arguments args example_path, do_run)]\<rparr>
         else st)"

definition parse_examples_to_run_file ::
    "(string \<Rightarrow> cpp_example list res) \<Rightarrow> (string \<Rightarrow> py_example list res) \<Rightarrow> waf_config \<Rightarrow> string \<Rightarrow> (string \<Rightarrow> bool) \<Rightarrow>
     file_store \<Rightarrow> string \<Rightarrow> string \<Rightarrow> string \<Rightarrow> example_lists \<Rightarrow> example_lists res"
where
  "parse_examples_to_run_file ev_cpp ev_py cfg cwd exists fs examples_to_run_path cpp_executable_dir python_script_dir st =
     (if fs examples_to_run_path = None then Inr st
      else rbind (get_list_from_file ev_cpp fs examples_to_run_path ''cpp_examples'') (\<lambda>cpp_examples.
           let st = fold (add_cpp_example cfg cwd exists cpp_executable_dir) cpp_examples st in
           rbind (get_list_from_file ev_py fs examples_to_run_path ''python_examples'') (\<lambda>python_examples.
           Inr (fold (add_python_example exists python_script_dir) python_examples st))))"

text \<open>The files of the example directories, the modules and the contributed modules, in this order.\<close>

definition example_locations :: "string \<Rightarrow> string list \<Rightarrow> string list \<Rightarrow> string list \<Rightarrow> (string \<times> string \<times> string) list" where
  "example_locations builddir directories modules contributed =
     map (\<lambda>d. let e = path_join ''examples'' d in (path_join e ''examples-to-run.py'', path_join builddir e, e)) directories @
     concat (map (\<lambda>(root, ms). map (\<lambda>m. let md = path_join root (drop 4 m); e = path_join md ''examples'' in
        (path_join (path_join md ''test'') ''examples-to-run.py'', path_join builddir e, e)) ms)
       [(''src'', modules), (''contrib'', contributed)])"

definition collect_examples ::
    "(string \<Rightarrow> cpp_example list res) \<Rightarrow> (string \<Rightarrow> py_example list res) \<Rightarrow> waf_config \<Rightarrow> string \<Rightarrow> (string \<Rightarrow> bool) \<Rightarrow>
     file_store \<Rightarrow> (string \<times> string \<times> string) list \<Rightarrow> example_lists res"
where
  "collect_examples ev_cpp ev_py cfg cwd exists fs locations =
     rfold (\<lambda>(run_file, exec_dir, script_dir). parse_examples_to_run_file ev_cpp ev_py cfg cwd exists fs run_file exec_dir script_dir)
       locations \<lparr>example_tests = [], example_names_original = [], python_tests = []\<rparr>"

section \<open>Reading a list\<close>

lemma list_loop_skip:
  "\<forall>l\<in>set pre. \<not> contains (strip_comment l) name \<Longrightarrow> list_loop ev name (pre @ ls) s False = list_loop ev name ls s False"
  by (induction pre) auto

lemma list_loop_collect:
  assumes "ls \<noteq> []" "CHR '']'' \<notin> set (s @ concat (map strip_comment (butlast ls)))" "CHR '']'' \<in> set (strip_comment (last ls))"
  shows "list_loop ev name (ls @ post) s True = eval_rhs ev (s @ concat (map strip_comment ls))"
  using assms
proof (induction ls arbitrary: s)
  case (Cons l ls)
  show ?case
  proof (cases "ls = []")
    case True
    with Cons.prems show ?thesis by simp
  next
    case False
    with Cons.prems Cons.IH [of "s @ strip_comment l"] show ?thesis by auto
  qed
qed simp

lemma list_loop_first:
  assumes "ls \<noteq> []" "contains (strip_comment (hd ls)) name"
    "CHR '']'' \<notin> set (concat (map strip_comment (butlast ls)))" "CHR '']'' \<in> set (strip_comment (last ls))"
  shows "list_loop ev name (ls @ post) [] False = eval_rhs ev (concat (map strip_comment ls))"
proof -
  obtain l rest where "ls = l # rest" using assms(1) by (cases ls) auto
  then have "list_loop ev name (ls @ post) [] False = list_loop ev name (ls @ post) [] True"
    using assms(2) by simp
  also have "\<dots> = eval_rhs ev (concat (map strip_comment ls))"
    using list_loop_collect [of ls "[]" ev name post] assms by simp
  finally show ?thesis .
qed

section \<open>The environment\<close>

lemma getenv_append: "map_of (append_env v s env) k = (if k = v then Some (getenv env v @ s) else map_of env k)"
  by (simp add: append_env_def)

lemma extend_path_fold:
  "has_key env v \<Longrightarrow> map_of (fold (\<lambda>path. append_env v (sep @ path)) paths env) k =
     (if k = v then Some (getenv env v @ concat (map ((@) sep) paths)) else map_of env k)"
proof (induction paths arbitrary: env)
  case Nil
  then show ?case by (auto simp: has_key_def getenv_def dict_get_default_def)
next
  case (Cons p ps)
  have "has_key (append_env v (sep @ p) env) v" by (simp add: has_key_def getenv_append)
  moreover have "getenv (append_env v (sep @ p) env) v = getenv env v @ sep @ p"
    by (simp add: getenv_def dict_get_default_def append_env_def)
  ultimately show ?case using Cons.IH [of "append_env v (sep @ p) env"] by (simp add: getenv_append)
qed

lemma extend_path_lookup:
  "map_of (extend_path v sep paths env) k =
     (if k = v then Some (getenv env v @ concat (map ((@) sep) paths)) else map_of env k)"
proof (cases "has_key env v")
  case True
  then show ?thesis by (simp add: extend_path_def extend_path_fold)
next
  case False
  then have "getenv env v = []" by (simp add: getenv_def dict_get_default_def has_key_def)
  moreover have "has_key (dict_set v [] env) v" "getenv (dict_set v [] env) v = []"
    by (simp_all add: has_key_def getenv_def dict_get_default_def)
  ultimately show ?thesis using False by (simp add: extend_path_def extend_path_fold)
qed

section \<open>The examples that exist\<close>

definition cpp_entry :: "waf_config \<Rightarrow> string \<Rightarrow> string \<Rightarrow> cpp_example \<Rightarrow> string \<times> string \<times> string \<times> string" where
  "cpp_entry cfg cwd dir ex =
     (case ex of (original, do_run, do_valgrind_run) \<Rightarrow> case split_arguments original of (name, args) \<Rightarrow>
      (with_arguments args (path_join (relpath cwd dir (cfg_builddir cfg)) name),
       with_arguments args (path_join dir (program_name cfg name)), do_run, do_valgrind_run))"

definition cpp_exists :: "waf_config \<Rightarrow> (string \<Rightarrow> bool) \<Rightarrow> string \<Rightarrow> cpp_example \<Rightarrow> bool" where
  "cpp_exists cfg exists dir ex \<longleftrightarrow> exists (path_join dir (program_name cfg (fst (split_arguments (fst ex)))))"

definition py_entry :: "string \<Rightarrow> py_example \<Rightarrow> string \<times> string" where
  "py_entry dir ex = (case split_arguments (fst ex) of (name, args) \<Rightarrow> (with_arguments args (path_join dir name), snd ex))"

definition py_exists :: "(string \<Rightarrow> bool) \<Rightarrow> string \<Rightarrow> py_example \<Rightarrow> bool" where
  "py_exists exists dir ex \<longleftrightarrow> exists (path_join dir (fst (split_arguments (fst ex))))"

lemma add_cpp_examples:
  "fold (add_cpp_example cfg cwd exists dir) exs st =
     st\<lparr>example_tests := example_tests st @ map (cpp_entry cfg cwd dir) (filter (cpp_exists cfg exists dir) exs),
        example_names_original := example_names_original st @ map fst (filter (cpp_exists cfg exists dir) exs)\<rparr>"
proof (induction exs arbitrary: st)
  case (Cons ex exs)
  obtain original do_run do_valgrind_run where "ex = (original, do_run, do_valgrind_run)" by (cases ex)
  moreover obtain name args where "split_arguments original = (name, args)" by force
  ultimately show ?case using Cons by (simp add: add_cpp_example_def cpp_entry_def cpp_exists_def Let_def)
qed simp

lemma add_python_examples:
  "fold (add_python_example exists dir) exs st =
     st\<lparr>python_tests := python_tests st @ map (py_entry dir) (filter (py_exists exists dir) exs)\<rparr>"
proof (induction exs arbitrary: st)
  case (Cons ex exs)
  obtain original do_run where "ex = (original, do_run)" by force
  moreover obtain name args where "split_arguments original = (name, args)" by force
  ultimately show ?case using Cons by (simp add: add_python_example_def py_entry_def py_exists_def Let_def)
qed simp

section \<open>Properties\<close>

text \<open>\<^verbatim>\<open>get_list_from_file\<close> evaluates exactly the text of the list: the lines from the first that mentions the
  name to the first closing bracket, comments removed, after the first equals sign and without surrounding
  blanks; without such a line, or without the file, the list is empty.\<close>

theorem get_list_from_file_correct:
  assumes "\<forall>l\<in>set pre. \<not> contains (strip_comment l) name"
  shows "(fs path = None \<or> fs path = Some pre \<longrightarrow> get_list_from_file ev fs path name = Inr []) \<and>
    (fs path = Some (pre @ ls @ post) \<longrightarrow> ls \<noteq> [] \<longrightarrow> contains (strip_comment (hd ls)) name \<longrightarrow>
      CHR '']'' \<notin> set (concat (map strip_comment (butlast ls))) \<longrightarrow> CHR '']'' \<in> set (strip_comment (last ls)) \<longrightarrow>
      concat (map strip_comment ls) = lhs @ CHR ''='' # rhs \<longrightarrow> CHR ''='' \<notin> set lhs \<longrightarrow>
      get_list_from_file ev fs path name = ev (strip rhs))"
  using list_loop_skip [OF assms, of ev "[]" "[]"] list_loop_skip [OF assms, of ev "ls @ post" "[]"]
    list_loop_first [of ls name ev post]
  by (auto simp: get_list_from_file_def eval_rhs_def split_once_hit)

text \<open>\<^verbatim>\<open>make_paths\<close> appends the module directories, in order, to the library path variable of the platform,
  sets \<^verbatim>\<open>PYTHONPATH\<close> to the directory of the bindings, whatever it was before, twice if it was set, and
  leaves every other variable alone.\<close>

theorem make_paths_correct:
  assumes "library_variable platform = (v, sep)"
  shows "map_of (make_paths platform builddir module_path env) k =
    (if k = v then Some (getenv env v @ concat (map ((@) sep) module_path))
     else if k = ''PYTHONPATH''
     then (let pypath = path_join (path_join builddir ''bindings'') ''python''
           in Some (if has_key env ''PYTHONPATH'' then pypath @ '':'' @ pypath else pypath))
     else map_of env k)"
proof -
  have "v \<noteq> ''PYTHONPATH''" using assms by (auto simp: library_variable_def split: if_splits)
  then show ?thesis
    using assms
    by (auto simp: make_paths_def Let_def extend_path_lookup getenv_def dict_get_default_def append_env_def)
qed

text \<open>
  \<^verbatim>\<open>get_bool_from_file\<close> promises the default for a missing file but reads an unassigned variable.
\<close>

theorem get_bool_missing_file: "get_bool_from_file ev Map.empty path name missing = Inl UnboundLocalError"
  by (simp add: get_bool_from_file_def)

section \<open>Concrete instances\<close>

theorem get_list_from_file_correct_witness:
  "get_list_from_file (\<lambda>s. Inr [s]) [''f'' \<mapsto> [''a = 1'', ''xs = [1, # one'', '' 2]'', ''b = 2'']] ''f'' ''xs'' = Inr [''[1,  2]'']"
  by (subst get_list_from_file_correct [where pre = "[''a = 1'']" and ls = "[''xs = [1, # one'', '' 2]'']" and
        post = "[''b = 2'']" and lhs = "''xs ''" and rhs = "'' [1,  2]''",
        THEN conjunct2, THEN mp, THEN mp, THEN mp, THEN mp, THEN mp, THEN mp, THEN mp]) code_simp+

theorem make_paths_correct_witness:
  "map_of (make_paths ''linux'' ''/b'' [''/l''] [(''PYTHONPATH'', ''/mine'')]) ''PYTHONPATH'' =
     Some ''/b/bindings/python:/b/bindings/python''"
  by (subst make_paths_correct [where v = "''LD_LIBRARY_PATH''" and sep = "'':''"]) code_simp+

end
