(* ===== verification/WafUtils.thy ===== *)
theory WafUtils
  imports ShellCmd TestConfig RadUtil
begin

text \<open>
  wutils.py, with which the wscripts run programs of the build: finding the program, the environment of the
  process, the command line from a template, and the exit status. A task generator of waf is a record of what
  the functions read of it; the build, the options and the start of processes are arguments. The platform is
  POSIX for paths and processes. The texts of error messages are left out.
\<close>

record task_gen =
  tg_is_ns3_program :: bool
  tg_path :: string
  tg_bld_path :: string
  tg_name :: string
  tg_program :: string

record waf_options =
  wo_command_template :: string
  wo_valgrind :: bool
  wo_cwd_launch :: string

record build =
  bld_all_task_gen :: "task_gen list"
  bld_launch_dir :: string
  bld_platform :: string
  bld_module_path :: "string list"
  bld_executable_path :: "string list"
  bld_pymoddir :: string
  bld_pyvizdir :: string
  bld_valgrind :: "string list"
  bld_python :: "string list"

definition get_command_template :: "waf_options \<Rightarrow> string list \<Rightarrow> string" where
  "get_command_template opts arguments =
     fold (\<lambda>arg cmd. cmd @ '' '' @ arg) arguments
       (if wo_command_template opts \<noteq> [] then wo_command_template opts else ''%s'')"

section \<open>find_program\<close>

definition program_names :: "string \<Rightarrow> task_gen \<Rightarrow> string list" where
  "program_names launch_dir obj =
     [tg_name obj, path_join (relpath ''/'' (tg_path obj) launch_dir) (tg_name obj)]"

fun find_loop :: "string \<Rightarrow> string \<Rightarrow> task_gen list \<Rightarrow> task_gen res" where
  "find_loop launch_dir name [] = Inl ValueError"
| "find_loop launch_dir name (obj # objs) =
     (if \<not> tg_is_ns3_program obj then find_loop launch_dir name objs
      else if \<not> (startswith (tg_path obj) launch_dir \<or> startswith (tg_bld_path obj) launch_dir)
      then find_loop launch_dir name objs
      else if name \<in> set (program_names launch_dir obj) then Inr obj
      else find_loop launch_dir name objs)"

definition find_program :: "build \<Rightarrow> string \<Rightarrow> task_gen res" where
  "find_program bld name = find_loop (bld_launch_dir bld) name (bld_all_task_gen bld)"

section \<open>get_proc_env\<close>

definition pathvar :: "string \<Rightarrow> string" where
  "pathvar platform =
     (if platform = ''linux2'' \<or> platform = ''linux'' then ''LD_LIBRARY_PATH''
      else if platform = ''darwin'' then ''DYLD_LIBRARY_PATH''
      else if platform = ''win32'' then ''PATH''
      else if platform = ''cygwin'' then ''PATH''
      else ''LD_LIBRARY_PATH'')"

definition prepend_path :: "string \<Rightarrow> string list \<Rightarrow> environ \<Rightarrow> environ" where
  "prepend_path v paths env =
     dict_set v (join '':'' (case map_of env v of Some old \<Rightarrow> paths @ [old] | None \<Rightarrow> paths)) env"

definition get_proc_env :: "build \<Rightarrow> environ \<Rightarrow> environ option \<Rightarrow> environ" where
  "get_proc_env bld os_environ os_env =
     (let proc_env = (case os_env of None \<Rightarrow> os_environ | Some e \<Rightarrow> fold (\<lambda>(k, v). dict_set k v) e os_environ);
          proc_env = prepend_path (pathvar (bld_platform bld)) (bld_module_path bld) proc_env;
          proc_env = prepend_path ''PYTHONPATH'' [bld_pymoddir bld, bld_pyvizdir bld] proc_env
      in prepend_path ''PATH'' (bld_executable_path bld) proc_env)"

section \<open>run_argv\<close>

text \<open>
  How a process ends: its status and, when the caller reads it, what it wrote to the standard error, \<open>None\<close> if
  that is not decodable; an exception if it cannot be started.
\<close>

type_synonym spawn = "string list \<Rightarrow> environ \<Rightarrow> string \<Rightarrow> (int \<times> string option) res"

text \<open>\<^verbatim>\<open>for line in stderrdata\<close> takes the characters of the text.\<close>

definition leak_found :: "string \<Rightarrow> bool" where
  "leak_found stderrdata = list_ex (\<lambda>line. contains line ''== LEAK SUMMARY'') (map (\<lambda>c. [c]) stderrdata)"

definition run_argv ::
    "build \<Rightarrow> waf_options \<Rightarrow> spawn \<Rightarrow> environ \<Rightarrow> string list \<Rightarrow> environ option \<Rightarrow> string \<Rightarrow> bool \<Rightarrow> int res"
where
  "run_argv bld opts spawn os_environ argv os_env cwd force_no_valgrind =
     (let proc_env = get_proc_env bld os_environ os_env in
      rbind (if wo_valgrind opts \<and> \<not> force_no_valgrind
             then if wo_command_template opts \<noteq> [] then Inl WafError
                  else case bld_valgrind bld of
                    [] \<Rightarrow> Inl WafError
                  | valgrind # _ \<Rightarrow>
                      rbind (spawn ([valgrind, ''--leak-check=full'', ''--show-reachable=yes'', ''--error-exitcode=1''] @ argv) proc_env cwd)
                        (\<lambda>(retval, stderrdata).
                        case stderrdata of
                          None \<Rightarrow> Inl ValueError
                        | Some text \<Rightarrow> Inr (if retval = 0 \<and> leak_found text then 1 else retval))
             else rbind (spawn argv proc_env cwd) (\<lambda>(retval, _). Inr retval)) (\<lambda>retval.
      if retval \<noteq> 0 then Inl WafError else Inr retval))"

section \<open>Running a program\<close>

text \<open>
  \<^verbatim>\<open>template % (path,)\<close> for the conversions \<^verbatim>\<open>%s\<close> and \<^verbatim>\<open>%%\<close>; any other conversion, with the rest of the template,
  is left to the argument \<open>conv\<close>.
\<close>

fun percent :: "(string \<Rightarrow> string option \<Rightarrow> string res) \<Rightarrow> string \<Rightarrow> string option \<Rightarrow> string res" where
  "percent conv [] arg = (if arg = None then Inr [] else Inl TypeError)"
| "percent conv (c # cs) arg =
     (if c \<noteq> CHR ''%'' then rbind (percent conv cs arg) (\<lambda>s. Inr (c # s))
      else case cs of
        [] \<Rightarrow> Inl ValueError
      | d # ds \<Rightarrow>
          if d = CHR ''%'' then rbind (percent conv ds arg) (\<lambda>s. Inr (CHR ''%'' # s))
          else if d = CHR ''s''
          then (case arg of None \<Rightarrow> Inl TypeError | Some p \<Rightarrow> rbind (percent conv ds None) (\<lambda>s. Inr (p @ s)))
          else conv (c # cs) arg)"

definition or_waf_error :: "'a res \<Rightarrow> 'a res" where
  "or_waf_error r = (case r of Inl ValueError \<Rightarrow> Inl WafError | _ \<Rightarrow> r)"

definition double_backslashes :: "string \<Rightarrow> string" where
  "double_backslashes s = concat (map (\<lambda>c. if c = backslash then [c, c] else [c]) s)"

definition get_run_program ::
    "(string \<Rightarrow> string option \<Rightarrow> string res) \<Rightarrow> build \<Rightarrow> string \<Rightarrow> string option \<Rightarrow> (string \<times> string list) res"
where
  "get_run_program conv bld program_string command_template =
     (if command_template = None \<or> command_template = Some ''%s''
      then rbind (shlex_split program_string) (\<lambda>argv.
           rbind (py_nth argv 0) (\<lambda>program_name.
           rbind (or_waf_error (find_program bld program_name)) (\<lambda>program_obj.
           Inr (program_name, tg_program program_obj # drop 1 argv))))
      else rbind (or_waf_error (find_program bld program_string)) (\<lambda>program_obj.
           rbind (percent conv (the command_template) (Some (tg_program program_obj))) (\<lambda>tmpl.
           rbind (shlex_split (double_backslashes tmpl)) (\<lambda>execvec.
           Inr (program_string, execvec)))))"

definition visual_impl :: string where
  "visual_impl = ''--SimulatorImplementationType=ns3::VisualSimulatorImpl''"

text \<open>\<open>launch\<close> is waf's \<^verbatim>\<open>Options.cwd_launch\<close>.\<close>

definition run_program ::
    "(string \<Rightarrow> string option \<Rightarrow> string res) \<Rightarrow> build \<Rightarrow> waf_options \<Rightarrow> spawn \<Rightarrow> environ \<Rightarrow> string \<Rightarrow> string \<Rightarrow>
     string option \<Rightarrow> string option \<Rightarrow> bool \<Rightarrow> int res"
where
  "run_program conv bld opts spawn os_environ launch program_string command_template cwd visualize =
     rbind (get_run_program conv bld program_string command_template) (\<lambda>(_, execvec).
     let cwd = (case cwd of Some d \<Rightarrow> d | None \<Rightarrow> if wo_cwd_launch opts \<noteq> [] then wo_cwd_launch opts else launch);
         execvec = (if visualize then execvec @ [visual_impl] else execvec)
     in run_argv bld opts spawn os_environ execvec None cwd False)"

definition run_python_program ::
    "build \<Rightarrow> waf_options \<Rightarrow> spawn \<Rightarrow> environ \<Rightarrow> string \<Rightarrow> string \<Rightarrow> bool \<Rightarrow> int res"
where
  "run_python_program bld opts spawn os_environ launch program_string visualize =
     rbind (shlex_split program_string) (\<lambda>execvec.
     let cwd = (if wo_cwd_launch opts \<noteq> [] then wo_cwd_launch opts else launch);
         execvec = (if visualize then execvec @ [visual_impl] else execvec)
     in rbind (py_nth (bld_python bld) 0) (\<lambda>python.
        run_argv bld opts spawn os_environ (python # execvec) None cwd False))"

fun uniquify_list :: "'a list \<Rightarrow> 'a set \<Rightarrow> 'a list" where
  "uniquify_list [] seen = []"
| "uniquify_list (x # xs) seen = (if x \<notin> seen then x # uniquify_list xs (insert x seen) else uniquify_list xs seen)"

section \<open>Lemmas\<close>

lemma uniquify_list_scan: "uniquify_list xs (set seen) = uniquify_scan seen xs"
proof (induction xs arbitrary: seen)
  case (Cons x xs)
  then show ?case using Cons.IH [of "x # seen"] by simp
qed simp

lemma leak_never_found: "\<not> leak_found s"
proof -
  have "length (''== LEAK SUMMARY'') = 15" by simp
  then show ?thesis by (auto simp: leak_found_def list_ex_iff contains_iff append_eq_Cons_conv Cons_eq_append_conv)
qed

lemma find_loop_iff:
  "find_loop launch_dir name objs =
     (case List.find (\<lambda>obj. tg_is_ns3_program obj \<and>
        (startswith (tg_path obj) launch_dir \<or> startswith (tg_bld_path obj) launch_dir) \<and>
        name \<in> set (program_names launch_dir obj)) objs of None \<Rightarrow> Inl ValueError | Some obj \<Rightarrow> Inr obj)"
  by (induction objs) auto

lemma prepend_path_lookup:
  "map_of (prepend_path v paths env) k =
     (if k = v then Some (join '':'' (case map_of env v of Some old \<Rightarrow> paths @ [old] | None \<Rightarrow> paths)) else map_of env k)"
  by (simp add: prepend_path_def)

text \<open>A template without a conversion but one \<^verbatim>\<open>%s\<close>.\<close>

lemma percent_plain: "CHR ''%'' \<notin> set s \<Longrightarrow> percent conv s None = Inr s"
  by (induction s) auto

lemma percent_once:
  "CHR ''%'' \<notin> set a \<Longrightarrow> CHR ''%'' \<notin> set b \<Longrightarrow> percent conv (a @ ''%s'' @ b) (Some p) = Inr (a @ p @ b)"
  by (induction a) (auto simp: percent_plain)

lemma double_backslashes_plain: "backslash \<notin> set s \<Longrightarrow> double_backslashes s = s"
  unfolding double_backslashes_def by (induction s) auto

lemma join_Cons: "ys \<noteq> [] \<Longrightarrow> join sep (x # ys) = x @ sep @ join sep ys"
  by (cases ys) simp_all

lemma join_middle:
  "join sep (pre @ x # post) =
     (if pre = [] then [] else join sep pre @ sep) @ x @ (if post = [] then [] else sep @ join sep post)"
proof (induction pre)
  case Nil
  then show ?case by (cases post) simp_all
next
  case (Cons y pre)
  then show ?case by (cases "pre = []") (simp_all add: join_Cons)
qed

lemma set_join: "set (join sep ws) \<subseteq> set sep \<union> \<Union> (set ` set ws)"
  by (induction sep ws rule: join.induct) auto

lemma percent_join:
  assumes "\<forall>w\<in>set (pre @ post). CHR ''%'' \<notin> set w"
  shows "percent conv (join '' '' (pre @ ''%s'' # post)) (Some p) = Inr (join '' '' (pre @ p # post))"
proof -
  have "CHR ''%'' \<notin> set (if pre = [] then [] else join '' '' pre @ '' '')"
    "CHR ''%'' \<notin> set (if post = [] then [] else '' '' @ join '' '' post)"
    using assms set_join [of "'' ''" pre] set_join [of "'' ''" post] by auto
  from percent_once [OF this, of conv p] show ?thesis by (simp only: join_middle)
qed

lemma plain_word_backslash: "plain_word w \<Longrightarrow> backslash \<notin> set w"
  by (auto simp: plain_word_def plain_char_def list_all_iff)

lemma double_backslashes_words:
  assumes "list_all plain_word ws"
  shows "double_backslashes (join '' '' ws) = join '' '' ws"
proof -
  have "backslash \<notin> set (join '' '' ws)"
    using set_join [of "'' ''" ws] assms plain_word_backslash by (auto simp: list_all_iff backslash_def)
  then show ?thesis by (rule double_backslashes_plain)
qed

section \<open>Properties\<close>

text \<open>C33. Without a template the words of the program string are run with the first replaced by the path of the
  program of that name; with a template that holds \<^verbatim>\<open>%s\<close> as a word, its words are run with the path of the program in
  that place; an unknown name is a \<^verbatim>\<open>WafError\<close>.\<close>

theorem get_run_program_correct:
  assumes "list_all plain_word (name # args)" "list_all plain_word (pre @ post)"
    and "\<forall>w\<in>set (pre @ post). CHR ''%'' \<notin> set w" "pre @ post \<noteq> []"
    and "\<forall>obj\<in>set (bld_all_task_gen bld). plain_word (tg_program obj)"
  shows "get_run_program conv bld (join '' '' (name # args)) None =
      (case find_program bld name of Inl _ \<Rightarrow> Inl WafError | Inr obj \<Rightarrow> Inr (name, tg_program obj # args)) \<and>
    get_run_program conv bld name (Some (join '' '' (pre @ ''%s'' # post))) =
      (case find_program bld name of Inl _ \<Rightarrow> Inl WafError | Inr obj \<Rightarrow> Inr (name, pre @ tg_program obj # post))"
proof -
  have "join '' '' (pre @ ''%s'' # post) \<noteq> ''%s''"
  proof
    assume "join '' '' (pre @ ''%s'' # post) = ''%s''"
    then have "length (join '' '' (pre @ ''%s'' # post)) = 2" by simp
    then show False using assms(4) by (cases "pre = []") (simp_all add: join_middle join_Cons)
  qed
  moreover have "find_program bld name = Inl ValueError \<or>
      (\<exists>obj. find_program bld name = Inr obj \<and> plain_word (tg_program obj))"
    using assms(5) by (auto simp: find_program_def find_loop_iff find_Some_iff split: option.split)
  ultimately show ?thesis
    using shlex_split_words [OF assms(1)] assms(2) shlex_split_words [of "pre @ _ # post"]
    by (auto simp: get_run_program_def or_waf_error_def percent_join [OF assms(3)] double_backslashes_words)
qed

text \<open>Under valgrind the memory leaks that valgrind reports on the standard error are never noticed: whatever it
  writes, a program that ends with status 0 is a success, and any other status is a \<^verbatim>\<open>WafError\<close>.\<close>

theorem valgrind_leaks_ignored:
  assumes "wo_valgrind opts" "wo_command_template opts = []" "bld_valgrind bld = valgrind # others"
    and "spawn ([valgrind, ''--leak-check=full'', ''--show-reachable=yes'', ''--error-exitcode=1''] @ argv)
      (get_proc_env bld os_environ os_env) cwd = Inr (retval, Some stderrdata)"
  shows "run_argv bld opts spawn os_environ argv os_env cwd False = (if retval = 0 then Inr 0 else Inl WafError)"
  using assms by (simp add: run_argv_def leak_never_found)

text \<open>The directories of the build come before what the user has set.\<close>

lemma get_proc_env_lookup:
  assumes "pathvar (bld_platform bld) = v" "v \<noteq> ''PATH''"
  shows "map_of (get_proc_env bld env None) k =
    (if k \<in> {v, ''PYTHONPATH'', ''PATH''}
     then Some (join '':''
       ((if k = v then bld_module_path bld else if k = ''PATH'' then bld_executable_path bld else [bld_pymoddir bld, bld_pyvizdir bld]) @
        (case map_of env k of None \<Rightarrow> [] | Some old \<Rightarrow> [old])))
     else map_of env k)"
proof -
  have "v \<noteq> ''PYTHONPATH''" using assms(1) by (auto simp: pathvar_def split: if_splits)
  then show ?thesis using assms by (auto simp: get_proc_env_def Let_def prepend_path_lookup split: option.split)
qed

section \<open>Concrete instances\<close>

definition sample_build :: build where
  "sample_build = \<lparr>bld_all_task_gen = [\<lparr>tg_is_ns3_program = True, tg_path = ''/ns3/scratch'', tg_bld_path = ''/ns3/build/scratch'',
       tg_name = ''sim'', tg_program = ''/ns3/build/scratch/sim''\<rparr>],
     bld_launch_dir = ''/ns3'', bld_platform = ''linux'', bld_module_path = [''/ns3/build''], bld_executable_path = [],
     bld_pymoddir = ''/ns3/build/bindings/python'', bld_pyvizdir = ''/ns3/src/visualizer'', bld_valgrind = [''valgrind''],
     bld_python = [''python3'']\<rparr>"

definition valgrind_options :: waf_options where
  "valgrind_options = \<lparr>wo_command_template = [], wo_valgrind = True, wo_cwd_launch = []\<rparr>"

theorem get_run_program_correct_witness:
  "get_run_program (\<lambda>_ _. Inl ValueError) sample_build ''sim --n=3'' None = Inr (''sim'', [''/ns3/build/scratch/sim'', ''--n=3'']) \<and>
   get_run_program (\<lambda>_ _. Inl ValueError) sample_build ''sim'' (Some ''gdb --args %s'') = Inr (''sim'', [''gdb'', ''--args'', ''/ns3/build/scratch/sim''])"
proof -
  have prems: "list_all plain_word [''sim'', ''--n=3'']" "list_all plain_word ([''gdb'', ''--args''] @ [])"
    "\<forall>w\<in>set ([''gdb'', ''--args''] @ []). CHR ''%'' \<notin> set w" "[''gdb'', ''--args''] @ [] \<noteq> []"
    "\<forall>obj\<in>set (bld_all_task_gen sample_build). plain_word (tg_program obj)"
    by code_simp+
  from get_run_program_correct [OF this, of "\<lambda>_ _. Inl ValueError"] show ?thesis by code_simp
qed

theorem valgrind_leaks_ignored_witness:
  "run_argv sample_build valgrind_options (\<lambda>_ _ _. Inr (0, Some ''== LEAK SUMMARY: 3 bytes'')) [] [''sim''] None ''/ns3'' False = Inr 0"
  by (subst valgrind_leaks_ignored [where valgrind = "''valgrind''" and others = "[]" and retval = 0 and
        stderrdata = "''== LEAK SUMMARY: 3 bytes''"])
     (simp_all add: valgrind_options_def sample_build_def)

end
