(* ===== verification/CheckStyle.thy ===== *)
theory CheckStyle
  imports PyString
begin

text \<open>
  utils/check-style.py: the unified diffs it reads, edits and writes, the removal of changes that only
  drop trailing white space, and the re-indentation of a list of files. Text files are lists of lines,
  each with its newline. The programs \<^verbatim>\<open>uncrustify\<close> and \<^verbatim>\<open>patch\<close>, Mercurial and the diff algorithm are
  parameters. The interpreter is Python 3, as the first line of the file asks.
\<close>

section \<open>Patches\<close>

text \<open>The type of a line as in the source: 0 until it is set, then \<^verbatim>\<open>SRC\<close>, \<^verbatim>\<open>DST\<close> or \<^verbatim>\<open>BOTH\<close>.\<close>

datatype line_type = UNSET | SRC | DST | BOTH

record patch_line =
  pl_type :: line_type
  pl_line :: string

definition new_patch_line :: patch_line where
  "new_patch_line = \<lparr>pl_type = UNSET, pl_line = []\<rparr>"

definition set_src :: "string \<Rightarrow> patch_line \<Rightarrow> patch_line" where
  "set_src line l = l\<lparr>pl_type := SRC, pl_line := line\<rparr>"

definition set_dst :: "string \<Rightarrow> patch_line \<Rightarrow> patch_line" where
  "set_dst line l = l\<lparr>pl_type := DST, pl_line := line\<rparr>"

definition set_both :: "string \<Rightarrow> patch_line \<Rightarrow> patch_line" where
  "set_both line l = l\<lparr>pl_type := BOTH, pl_line := line\<rparr>"

definition append_to_line :: "string \<Rightarrow> patch_line \<Rightarrow> patch_line" where
  "append_to_line s l = l\<lparr>pl_line := pl_line l @ s\<rparr>"

definition is_src :: "patch_line \<Rightarrow> bool" where
  "is_src l \<longleftrightarrow> pl_type l = SRC \<or> pl_type l = BOTH"

definition is_dst :: "patch_line \<Rightarrow> bool" where
  "is_dst l \<longleftrightarrow> pl_type l = DST \<or> pl_type l = BOTH"

definition write_line :: "patch_line \<Rightarrow> string res" where
  "write_line l =
     (case pl_type l of
        SRC \<Rightarrow> Inr (''-'' @ pl_line l @ [CHR 0x0A])
      | DST \<Rightarrow> Inr (''+'' @ pl_line l @ [CHR 0x0A])
      | BOTH \<Rightarrow> Inr ('' '' @ pl_line l @ [CHR 0x0A])
      | UNSET \<Rightarrow> Inl GenericException)"

record patch_chunk =
  pc_lines :: "patch_line list"
  pc_src_pos :: int
  pc_dst_pos :: int

definition new_patch_chunk :: "string \<Rightarrow> string \<Rightarrow> patch_chunk res" where
  "new_patch_chunk src_pos dst_pos =
     rbind (py_int 10 src_pos) (\<lambda>s. rbind (py_int 10 dst_pos) (\<lambda>d.
     Inr \<lparr>pc_lines = [], pc_src_pos = s, pc_dst_pos = d\<rparr>))"

definition add_line :: "patch_line \<Rightarrow> patch_chunk \<Rightarrow> patch_chunk" where
  "add_line l c = c\<lparr>pc_lines := pc_lines c @ [l]\<rparr>"

text \<open>
  \<^verbatim>\<open>src\<close> and \<^verbatim>\<open>dst\<close> return references to the line objects of the chunk; a context line is in both. A
  reference is the position of the line in the chunk.
\<close>

definition positions :: "('a \<Rightarrow> bool) \<Rightarrow> 'a list \<Rightarrow> nat list" where
  "positions P xs = filter (\<lambda>i. P (xs ! i)) [0..<length xs]"

definition chunk_src :: "patch_chunk \<Rightarrow> nat list" where
  "chunk_src c = positions is_src (pc_lines c)"

definition chunk_dst :: "patch_chunk \<Rightarrow> nat list" where
  "chunk_dst c = positions is_dst (pc_lines c)"

definition src_len :: "patch_chunk \<Rightarrow> nat" where
  "src_len c = length (chunk_src c)"

definition dst_len :: "patch_chunk \<Rightarrow> nat" where
  "dst_len c = length (chunk_dst c)"

fun write_lines :: "patch_line list \<Rightarrow> string list res" where
  "write_lines [] = Inr []"
| "write_lines (l # ls) = rbind (write_line l) (\<lambda>t. rbind (write_lines ls) (\<lambda>ts. Inr (t # ts)))"

definition chunk_header :: "patch_chunk \<Rightarrow> string" where
  "chunk_header c = ''@@ -'' @ str_of_int (pc_src_pos c) @ '','' @ str_of_int (int (src_len c)) @ '' +'' @
     str_of_int (pc_dst_pos c) @ '','' @ str_of_int (int (dst_len c)) @ '' @@'' @ [CHR 0x0A]"

definition write_chunk :: "patch_chunk \<Rightarrow> string list res" where
  "write_chunk c = rbind (write_lines (pc_lines c)) (\<lambda>ts. Inr (chunk_header c # ts))"

record patch =
  pa_src :: string
  pa_dst :: string
  pa_chunks :: "patch_chunk list"

definition new_patch :: patch where
  "new_patch = \<lparr>pa_src = [], pa_dst = [], pa_chunks = []\<rparr>"

definition add_chunk :: "patch_chunk \<Rightarrow> patch \<Rightarrow> patch" where
  "add_chunk c p = p\<lparr>pa_chunks := pa_chunks p @ [c]\<rparr>"

fun write_chunks :: "patch_chunk list \<Rightarrow> string list res" where
  "write_chunks [] = Inr []"
| "write_chunks (c # cs) = rbind (write_chunk c) (\<lambda>t. rbind (write_chunks cs) (\<lambda>ts. Inr (t @ ts)))"

definition write_patch :: "patch \<Rightarrow> string list res" where
  "write_patch p =
     rbind (write_chunks (pa_chunks p))
       (\<lambda>ts. Inr ((''--- '' @ pa_src p @ [CHR 0x0A]) # (''+++ '' @ pa_dst p @ [CHR 0x0A]) # ts))"

section \<open>parse_patchset\<close>

text \<open>The regular expression \<^verbatim>\<open>^<prefix>(.*)$\<close>: the rest of the line, a final newline excepted.\<close>

definition match_rest :: "string \<Rightarrow> string \<Rightarrow> string option" where
  "match_rest prefix line =
     (let rest = drop (length prefix) line; body = takeWhile (\<lambda>c. c \<noteq> CHR 0x0A) rest in
      if startswith line prefix \<and> drop (length body) rest \<in> {[], [CHR 0x0A]} then Some body else None)"

text \<open>A literal, and a non-empty run of digits, at the start of a string.\<close>

definition eat :: "string \<Rightarrow> string \<Rightarrow> string option" where
  "eat lit s = (if startswith s lit then Some (drop (length lit) s) else None)"

definition eat_number :: "string \<Rightarrow> (string \<times> string) option" where
  "eat_number s = (if takeWhile is_digit s = [] then None else Some (takeWhile is_digit s, dropWhile is_digit s))"

text \<open>\<^verbatim>\<open>chunk_start\<close>: the first and the third of the four numbers.\<close>

definition match_chunk_start :: "string \<Rightarrow> (string \<times> string) option" where
  "match_chunk_start s =
     Option.bind (eat ''@@ -'' s) (\<lambda>s.
     Option.bind (eat_number s) (\<lambda>(src_pos, s).
     Option.bind (eat '','' s) (\<lambda>s.
     Option.bind (eat_number s) (\<lambda>(_, s).
     Option.bind (eat '' +'' s) (\<lambda>s.
     Option.bind (eat_number s) (\<lambda>(dst_pos, s).
     Option.bind (eat '','' s) (\<lambda>s.
     Option.bind (eat_number s) (\<lambda>(_, s).
     Option.bind (eat '' @@'' s) (\<lambda>s. Some (src_pos, dst_pos))))))))))"

text \<open>
  \<^verbatim>\<open>current_patch\<close> is the last patch of the patch set; \<^verbatim>\<open>current_chunk\<close> is a reference (patch, chunk), which
  stays with the patch it was added to when a new patch begins.
\<close>

record patch_parser =
  pp_patchset :: "patch list"
  pp_current_chunk :: "(nat \<times> nat) option"

definition on_current_patch :: "(patch \<Rightarrow> patch) \<Rightarrow> patch_parser \<Rightarrow> patch_parser res" where
  "on_current_patch f st =
     (if pp_patchset st = [] then Inl AttributeError
      else Inr (st\<lparr>pp_patchset := butlast (pp_patchset st) @ [f (last (pp_patchset st))]\<rparr>))"

definition add_current_line :: "patch_line \<Rightarrow> patch_parser \<Rightarrow> patch_parser res" where
  "add_current_line l st =
     (case pp_current_chunk st of
        None \<Rightarrow> Inl UnboundLocalError
      | Some (i, j) \<Rightarrow>
          let p = pp_patchset st ! i
          in Inr (st\<lparr>pp_patchset := (pp_patchset st)[i := p\<lparr>pa_chunks := (pa_chunks p)[j := add_line l (pa_chunks p ! j)]\<rparr>]\<rparr>))"

definition begin_chunk :: "patch_chunk \<Rightarrow> patch_parser \<Rightarrow> patch_parser res" where
  "begin_chunk c st =
     rbind (on_current_patch (add_chunk c) st)
       (\<lambda>st. Inr (st\<lparr>pp_current_chunk := Some (length (pp_patchset st) - 1, length (pa_chunks (last (pp_patchset st))) - 1)\<rparr>))"

definition parse_patch_line :: "string \<Rightarrow> patch_parser \<Rightarrow> patch_parser res" where
  "parse_patch_line line st =
     (case match_rest ''--- '' line of
        Some m \<Rightarrow> Inr (st\<lparr>pp_patchset := pp_patchset st @ [new_patch\<lparr>pa_src := m\<rparr>]\<rparr>)
      | None \<Rightarrow>
     (case match_rest ''+++ '' line of
        Some m \<Rightarrow> on_current_patch (\<lambda>p. p\<lparr>pa_dst := m\<rparr>) st
      | None \<Rightarrow>
     (case match_chunk_start line of
        Some (src_pos, dst_pos) \<Rightarrow> rbind (new_patch_chunk src_pos dst_pos) (\<lambda>c. begin_chunk c st)
      | None \<Rightarrow>
     (case match_rest ''-'' line of
        Some m \<Rightarrow> add_current_line (set_src m new_patch_line) st
      | None \<Rightarrow>
     (case match_rest ''+'' line of
        Some m \<Rightarrow> add_current_line (set_dst m new_patch_line) st
      | None \<Rightarrow>
     (case match_rest '' '' line of
        Some m \<Rightarrow> add_current_line (set_both m new_patch_line) st
      | None \<Rightarrow> Inl GenericException))))))"

definition parse_patchset :: "string list \<Rightarrow> patch list res" where
  "parse_patchset lines =
     rbind (rfold parse_patch_line lines \<lparr>pp_patchset = [], pp_current_chunk = None\<rparr>) (\<lambda>st. Inr (pp_patchset st))"

section \<open>remove_trailing_whitespace_changes\<close>

text \<open>
  \<^verbatim>\<open>^(.*)([ \t]+)$\<close>: the first group is greedy and leaves one blank to the second.
\<close>

definition match_whitespace :: "string \<Rightarrow> (string \<times> string) option" where
  "match_whitespace line =
     (let body = (if line \<noteq> [] \<and> last line = CHR 0x0A then butlast line else line) in
      if body \<noteq> [] \<and> CHR 0x0A \<notin> set body \<and> last body \<in> {CHR '' '', CHR 0x09}
      then Some (butlast body, [last body]) else None)"

text \<open>
  The loop over a chunk. The lists of references are made before the loop; the result tells whether the
  loop ended without an exception, and the lines as the loop leaves them.
\<close>

fun whitespace_loop :: "nat list \<Rightarrow> nat list \<Rightarrow> patch_line list \<Rightarrow> bool \<times> patch_line list" where
  "whitespace_loop [] dst ls = (True, ls)"
| "whitespace_loop (s # src) [] ls = (False, ls)"
| "whitespace_loop (s # src) (d # dst) ls =
     (case match_whitespace (pl_line (ls ! s)) of
        Some (g1, g2) \<Rightarrow>
          whitespace_loop src dst (if g1 = pl_line (ls ! d) then ls[d := append_to_line g2 (ls ! d)] else ls)
      | None \<Rightarrow> whitespace_loop src dst ls)"

definition whitespace_chunk :: "patch_chunk \<Rightarrow> bool \<times> patch_chunk" where
  "whitespace_chunk c =
     (case whitespace_loop (chunk_src c) (chunk_dst c) (pc_lines c) of (ok, ls) \<Rightarrow> (ok, c\<lparr>pc_lines := ls\<rparr>))"

text \<open>The two outer loops; the first exception ends both.\<close>

fun until_failure :: "('a \<Rightarrow> bool \<times> 'a) \<Rightarrow> 'a list \<Rightarrow> bool \<times> 'a list" where
  "until_failure f [] = (True, [])"
| "until_failure f (x # xs) =
     (case f x of
        (False, x') \<Rightarrow> (False, x' # xs)
      | (True, x') \<Rightarrow> (case until_failure f xs of (ok, xs') \<Rightarrow> (ok, x' # xs')))"

definition whitespace_patch :: "patch \<Rightarrow> bool \<times> patch" where
  "whitespace_patch p =
     (case until_failure whitespace_chunk (pa_chunks p) of (ok, cs) \<Rightarrow> (ok, p\<lparr>pa_chunks := cs\<rparr>))"

definition remove_trailing_whitespace_changes :: "string list \<Rightarrow> patch list res" where
  "remove_trailing_whitespace_changes lines =
     rbind (parse_patchset lines) (\<lambda>patchset. Inr (snd (until_failure whitespace_patch patchset)))"

section \<open>Configuration of uncrustify\<close>

text \<open>The three texts, line by line; each begins with an empty line.\<close>

definition level2_config :: "string list" where
  "level2_config = [
    ''nl_collapse_empty_body=False'', ''nl_if_brace=Add'', ''nl_brace_else=Add'', ''nl_elseif_brace=Add'',
    ''nl_else_brace=Add'', ''nl_while_brace=Add'', ''nl_do_brace=Add'', ''nl_for_brace=Add'',
    ''nl_brace_while=Add'', ''nl_switch_brace=Add'', ''nl_after_case=True'', ''nl_namespace_brace=Remove'',
    ''nl_after_brace_open=True'', ''nl_class_leave_one_liners=False'', ''nl_enum_leave_one_liners=False'',
    ''nl_func_leave_one_liners=False'', ''nl_if_leave_one_liners=False'', ''nl_class_colon=Ignore'',
    ''nl_after_access_spec=1'', ''nl_after_semicolon=True'', ''pos_class_colon=Lead'',
    ''pos_class_comma=Trail'', ''pos_bool=Lead'', ''nl_class_init_args=Add'', ''nl_template_class=Add'',
    ''nl_class_brace=Add'', ''# does not work very well'', ''nl_func_type_name=Ignore'',
    ''nl_func_scope_name=Ignore'', ''nl_func_type_name_class=Ignore'', ''nl_func_proto_type_name=Ignore'',
    ''# function'' @ [CHR 0x5C] @ ''n('', ''nl_func_paren=Remove'', ''nl_fdef_brace=Add'',
    ''nl_struct_brace=Add'', ''nl_enum_brace=Add'', ''nl_union_brace=Add'', ''mod_full_brace_do=Add'',
    ''mod_full_brace_for=Add'', ''mod_full_brace_if=Add'', ''mod_full_brace_while=Add'',
    ''mod_full_brace_for=Add'', ''mod_remove_extra_semicolon=True'', ''# max code width'', ''#code_width=128'',
    ''#ls_for_split_full=True'', ''#ls_func_split_full=True'']"

definition level1_config :: "string list" where
  "level1_config = [
    ''# extra spaces here and there'', ''sp_brace_typedef=Add'', ''sp_enum_assign=Add'',
    ''sp_before_sparen=Add'', ''sp_after_semi_for=Add'', ''sp_arith=Add'', ''sp_assign=Add'',
    ''sp_compare=Add'', ''sp_func_class_paren=Add'', ''sp_after_type=Add'', ''sp_type_func=Add'',
    ''sp_angle_paren=Add'']"

definition level0_config :: "string list" where
  "level0_config = [
    ''sp_func_proto_paren=Add'', ''sp_func_def_paren=Add'', ''sp_func_call_paren=Add'',
    ''sp_after_semi_for=Ignore'', ''sp_before_sparen=Ignore'', ''sp_type_func=Ignore'',
    ''sp_after_type=Ignore'', ''nl_class_leave_one_liners=True'', ''nl_enum_leave_one_liners=True'',
    ''nl_func_leave_one_liners=True'', ''nl_assign_leave_one_liners=True'', ''#nl_collapse_empty_body=False'',
    ''nl_getset_leave_one_liners=True'', ''nl_if_leave_one_liners=True'', ''nl_fdef_brace=Ignore'',
    ''# finally, indentation configuration'', ''indent_with_tabs=0'', ''indent_namespace=false'',
    ''indent_columns=2'', ''indent_brace=2'', ''indent_case_brace=2'', ''indent_class=true'',
    ''indent_class_colon=True'', ''# alignment'', ''indent_align_assign=False'', ''align_left_shift=True'',
    ''# comment reformating disabled'', ''cmt_reflow_mode=1 # do not touch comments at all'',
    ''cmt_indent_multi=False # really, do not touch them'']"

definition text_of :: "string list \<Rightarrow> string" where
  "text_of ls = CHR 0x0A # concat (map (\<lambda>l. l @ [CHR 0x0A]) ls)"

definition uncrustify_config_file :: "int \<Rightarrow> string" where
  "uncrustify_config_file level =
     text_of level0_config @
     (if level \<ge> 1 then text_of level1_config else []) @
     (if level \<ge> 2 then text_of level2_config else [])"

section \<open>Indenting files\<close>

text \<open>
  The programs: \<^verbatim>\<open>uncrustify\<close> (\<open>None\<close> when it is not installed) on a configuration and a file that may be
  missing, \<^verbatim>\<open>difflib.unified_diff\<close> and \<^verbatim>\<open>patch\<close>. The file system is a map from names to contents; temporary
  files have fresh names and are the values passed on.
\<close>

record style_tools =
  uncrustify :: "string \<Rightarrow> string list option \<Rightarrow> string list option"
  unified_diff :: "string \<Rightarrow> string list \<Rightarrow> string list \<Rightarrow> string list"
  patch_program :: "string list \<Rightarrow> string list \<Rightarrow> string list"

type_synonym files = "string \<rightharpoonup> string list"

definition final_diff :: "int \<Rightarrow> string list \<Rightarrow> string list res" where
  "final_diff level diff =
     (if level < 3
      then rbind (remove_trailing_whitespace_changes diff)
             (\<lambda>patchset. if patchset \<noteq> [] then write_patch (patchset ! 0) else Inr [])
      else Inr diff)"

text \<open>
  \<^verbatim>\<open>indent\<close>: the contents of its output file. With \<^verbatim>\<open>debug\<close> it writes the bytes a program printed to the text
  stream \<^verbatim>\<open>sys.stderr\<close>, a \<^verbatim>\<open>TypeError\<close>.
\<close>

definition indent :: "style_tools \<Rightarrow> files \<Rightarrow> bool \<Rightarrow> int \<Rightarrow> string \<Rightarrow> string list res" where
  "indent tools fs debug level source =
     (case uncrustify tools (uncrustify_config_file level) (fs source) of
        None \<Rightarrow> Inl GenericException
      | Some formatted \<Rightarrow>
          if debug then Inl TypeError
          else case fs source of
                 None \<Rightarrow> Inl IOError
               | Some content \<Rightarrow>
                   rbind (final_diff level (unified_diff tools source content formatted))
                     (\<lambda>diff. Inr (patch_program tools content diff)))"

fun indent_all :: "style_tools \<Rightarrow> files \<Rightarrow> bool \<Rightarrow> int \<Rightarrow> string list \<Rightarrow> (string \<times> string list) list res" where
  "indent_all tools fs debug level [] = Inr []"
| "indent_all tools fs debug level (f # files) =
     rbind (indent tools fs debug level f) (\<lambda>dst.
     rbind (indent_all tools fs debug level files) (\<lambda>output. Inr ((f, dst) # output)))"

fun copy_all :: "(string \<times> string list) list \<Rightarrow> files \<Rightarrow> files" where
  "copy_all [] fs = fs"
| "copy_all ((src, dst) # output) fs = copy_all output (fs(src \<mapsto> dst))"

definition report :: "style_tools \<Rightarrow> bool \<Rightarrow> files \<Rightarrow> (string \<times> string list) list \<Rightarrow> string list" where
  "report tools diff fs failed =
     (if \<not> diff
      then (''Found '' @ str_of_int (int (length failed)) @ '' badly indented files:'') # map (\<lambda>(src, dst). ''  '' @ src) failed
      else concat (map (\<lambda>(src, dst). unified_diff tools src (the (fs src)) dst) failed))"

text \<open>The result of \<^verbatim>\<open>indent_files\<close>, the files afterwards and what it printed.\<close>

definition indent_files ::
    "style_tools \<Rightarrow> bool \<Rightarrow> bool \<Rightarrow> int \<Rightarrow> bool \<Rightarrow> string list \<Rightarrow> files \<Rightarrow> (bool \<times> files \<times> string list) res"
where
  "indent_files tools diff debug level inplace files fs =
     rbind (indent_all tools fs debug level files) (\<lambda>output.
     if inplace then Inr (True, copy_all output fs, [])
     else let failed = filter (\<lambda>(src, dst). fs src \<noteq> Some dst) output in
          if failed \<noteq> [] then Inr (False, fs, report tools diff fs failed) else Inr (True, fs, []))"

section \<open>Entry points\<close>

definition hg_modified_files :: "string list \<Rightarrow> string list" where
  "hg_modified_files hg_status = map strip hg_status"

definition run_as_hg_hook :: "style_tools \<Rightarrow> string list \<Rightarrow> files \<Rightarrow> bool res" where
  "run_as_hg_hook tools hg_status fs =
     rbind (indent_files tools False False 0 False (hg_modified_files hg_status) fs) (\<lambda>(ok, _). Inr (\<not> ok))"

record style_options =
  opt_debug :: bool
  opt_level :: int
  opt_hg_hook :: bool
  opt_hg :: bool
  opt_file :: string
  opt_diff :: bool
  opt_in_place :: bool

text \<open>The exit status of \<^verbatim>\<open>run_as_main\<close> and the files it leaves.\<close>

definition run_as_main :: "style_tools \<Rightarrow> string list \<Rightarrow> style_options \<Rightarrow> files \<Rightarrow> (int \<times> files) res" where
  "run_as_main tools hg_status opts fs =
     (if opt_hg_hook opts
      then rbind (indent_files tools False (opt_debug opts) (opt_level opts) False (hg_modified_files hg_status) fs)
             (\<lambda>(ok, fs, _). Inr (if \<not> ok then 1 else 0, fs))
      else if opt_hg opts
      then rbind (indent_files tools (opt_diff opts) (opt_debug opts) (opt_level opts) (opt_in_place opts)
                    (hg_modified_files hg_status) fs)
             (\<lambda>(ok, fs, _). Inr (0, fs))
      else if opt_file opts \<noteq> []
      then if fs (opt_file opts) = None then Inr (1, fs)
           else rbind (indent_files tools (opt_diff opts) (opt_debug opts) (opt_level opts) (opt_in_place opts)
                         [opt_file opts] fs)
                  (\<lambda>(ok, fs, _). Inr (0, fs))
      else Inr (0, fs))"

section \<open>Reading back what was written\<close>

definition no_newline :: "string \<Rightarrow> bool" where
  "no_newline s \<longleftrightarrow> CHR 0x0A \<notin> set s"

text \<open>A removed line that begins with two dashes and a blank looks like the name of a source file.\<close>

definition line_ok :: "patch_line \<Rightarrow> bool" where
  "line_ok l \<longleftrightarrow> no_newline (pl_line l) \<and>
     (case pl_type l of
        SRC \<Rightarrow> \<not> startswith (pl_line l) ''-- ''
      | DST \<Rightarrow> \<not> startswith (pl_line l) ''++ ''
      | BOTH \<Rightarrow> True
      | UNSET \<Rightarrow> False)"

definition chunk_ok :: "patch_chunk \<Rightarrow> bool" where
  "chunk_ok c \<longleftrightarrow> list_all line_ok (pc_lines c) \<and> 0 \<le> pc_src_pos c \<and> 0 \<le> pc_dst_pos c"

definition patch_ok :: "patch \<Rightarrow> bool" where
  "patch_ok p \<longleftrightarrow> no_newline (pa_src p) \<and> no_newline (pa_dst p) \<and> list_all chunk_ok (pa_chunks p)"

fun write_patchset :: "patch list \<Rightarrow> string list res" where
  "write_patchset [] = Inr []"
| "write_patchset (p # ps) = rbind (write_patch p) (\<lambda>t. rbind (write_patchset ps) (\<lambda>ts. Inr (t @ ts)))"

lemma match_rest_hit:
  "no_newline body \<Longrightarrow> match_rest prefix (prefix @ body @ [CHR 0x0A]) = Some body"
  by (simp add: match_rest_def Let_def takeWhile_until no_newline_def)

lemma match_rest_miss: "\<not> startswith line prefix \<Longrightarrow> match_rest prefix line = None"
  by (simp add: match_rest_def)

lemma startswith_newline: "no_newline pre \<Longrightarrow> startswith (s @ [CHR 0x0A]) pre \<longleftrightarrow> startswith s pre"
proof (induction pre arbitrary: s)
  case (Cons c pre)
  then show ?case by (cases s) (auto simp: no_newline_def)
qed simp

lemma eat_hit: "eat lit (lit @ s) = Some s"
  by (simp add: eat_def)

lemma eat_number_hit:
  "0 \<le> i \<Longrightarrow> \<not> is_digit c \<Longrightarrow> eat_number (str_of_int i @ c # rest) = Some (str_of_int i, c # rest)"
  using str_of_nat_digits [of _ "nat i"]
  by (auto simp: eat_number_def str_of_int_def takeWhile_append dropWhile_append)

lemma match_chunk_header:
  assumes "chunk_ok c"
  shows "match_chunk_start (chunk_header c) = Some (str_of_int (pc_src_pos c), str_of_int (pc_dst_pos c))"
proof -
  have d: "\<not> is_digit CHR '',''" "\<not> is_digit CHR '' ''" by (simp_all add: is_digit_def)
  have e: "eat ''@@ -'' (CHR ''@'' # CHR ''@'' # CHR '' '' # CHR ''-'' # s) = Some s" "eat '','' (CHR '','' # s) = Some s"
    "eat '' +'' (CHR '' '' # CHR ''+'' # s) = Some s" "eat '' @@'' (CHR '' '' # CHR ''@'' # CHR ''@'' # s) = Some s" for s
    by (simp_all add: eat_def)
  show ?thesis
    using assms by (simp add: match_chunk_start_def chunk_header_def chunk_ok_def e eat_number_hit d)
qed

definition in_chunk :: "patch list \<Rightarrow> patch \<Rightarrow> patch_chunk list \<Rightarrow> patch_chunk \<Rightarrow> patch_parser" where
  "in_chunk ps p cs c =
     \<lparr>pp_patchset = ps @ [p\<lparr>pa_chunks := cs @ [c]\<rparr>], pp_current_chunk = Some (length ps, length cs)\<rparr>"

lemma add_current_line_in_chunk: "add_current_line l (in_chunk ps p cs c) = Inr (in_chunk ps p cs (add_line l c))"
  by (simp add: add_current_line_def in_chunk_def Let_def nth_append list_update_append)

lemma parse_written_line:
  assumes "line_ok l"
  shows "\<exists>t. write_line l = Inr t \<and> parse_patch_line t (in_chunk ps p cs c) = Inr (in_chunk ps p cs (add_line l c))"
proof -
  have rec: "pl_type l = t \<Longrightarrow> \<lparr>pl_type = t, pl_line = pl_line l\<rparr> = l" for t by auto
  have noat: "match_chunk_start (x # s) = None" if "x \<noteq> CHR ''@''" for x s
    using that by (simp add: match_chunk_start_def eat_def)
  have nn: "no_newline (pl_line l)" using assms by (simp add: line_ok_def)
  note hit = match_rest_hit [OF nn, of "''-''"] match_rest_hit [OF nn, of "''+''"] match_rest_hit [OF nn, of "'' ''"]
  show ?thesis
  proof (cases "pl_type l")
    case SRC
    then have "match_rest ''--- '' (''-'' @ pl_line l @ [CHR 0x0A]) = None"
      using assms by (intro match_rest_miss) (simp add: line_ok_def startswith_newline no_newline_def)
    with SRC show ?thesis
      using hit by (simp add: rec [OF SRC] write_line_def parse_patch_line_def noat match_rest_miss add_current_line_in_chunk set_src_def new_patch_line_def)
  next
    case DST
    then have "match_rest ''+++ '' (''+'' @ pl_line l @ [CHR 0x0A]) = None"
      using assms by (intro match_rest_miss) (simp add: line_ok_def startswith_newline no_newline_def)
    with DST show ?thesis
      using hit by (simp add: rec [OF DST] write_line_def parse_patch_line_def noat match_rest_miss add_current_line_in_chunk set_dst_def new_patch_line_def)
  next
    case BOTH
    then show ?thesis
      using hit by (simp add: rec [OF BOTH] write_line_def parse_patch_line_def noat match_rest_miss add_current_line_in_chunk set_both_def new_patch_line_def)
  next
    case UNSET
    then show ?thesis using assms by (simp add: line_ok_def)
  qed
qed

lemma parse_written_lines:
  assumes "list_all line_ok ls"
  shows "\<exists>ts. write_lines ls = Inr ts \<and>
    rfold parse_patch_line ts (in_chunk ps p cs c) = Inr (in_chunk ps p cs (c\<lparr>pc_lines := pc_lines c @ ls\<rparr>))"
  using assms
proof (induction ls arbitrary: c)
  case (Cons l ls)
  then obtain ts where "write_lines ls = Inr ts" "rfold parse_patch_line ts (in_chunk ps p cs (add_line l c)) =
      Inr (in_chunk ps p cs ((add_line l c)\<lparr>pc_lines := pc_lines (add_line l c) @ ls\<rparr>))"
    by force
  moreover obtain t where "write_line l = Inr t"
    "parse_patch_line t (in_chunk ps p cs c) = Inr (in_chunk ps p cs (add_line l c))"
    using parse_written_line [of l ps p cs c] Cons.prems by auto
  ultimately show ?case by (simp add: add_line_def)
qed simp

text \<open>The state after a patch with some of its chunks.\<close>

definition in_patch :: "patch list \<Rightarrow> patch \<Rightarrow> patch_chunk list \<Rightarrow> (nat \<times> nat) option \<Rightarrow> patch_parser" where
  "in_patch ps p cs cur = \<lparr>pp_patchset = ps @ [p\<lparr>pa_chunks := cs\<rparr>], pp_current_chunk = cur\<rparr>"

lemma parse_written_header:
  assumes "chunk_ok c"
  shows "parse_patch_line (chunk_header c) (in_patch ps p cs cur) = Inr (in_chunk ps p cs (c\<lparr>pc_lines := []\<rparr>))"
proof -
  have "match_rest ''--- '' (chunk_header c) = None" "match_rest ''+++ '' (chunk_header c) = None"
    by (simp_all add: match_rest_miss chunk_header_def)
  moreover have "new_patch_chunk (str_of_int (pc_src_pos c)) (str_of_int (pc_dst_pos c)) = Inr (c\<lparr>pc_lines := []\<rparr>)"
    by (simp add: new_patch_chunk_def py_int_str_of_int)
  ultimately show ?thesis
    using match_chunk_header [OF assms]
    by (simp add: parse_patch_line_def begin_chunk_def on_current_patch_def in_patch_def in_chunk_def add_chunk_def)
qed

lemma parse_written_chunks:
  assumes "list_all chunk_ok ks"
  shows "\<exists>ts cur'. write_chunks ks = Inr ts \<and>
    rfold parse_patch_line ts (in_patch ps p cs cur) = Inr (in_patch ps p (cs @ ks) cur')"
  using assms
proof (induction ks arbitrary: cs cur)
  case Nil
  show ?case by auto
next
  case (Cons c ks)
  obtain t where "write_lines (pc_lines c) = Inr t"
    "rfold parse_patch_line t (in_chunk ps p cs (c\<lparr>pc_lines := []\<rparr>)) = Inr (in_chunk ps p cs c)"
    using parse_written_lines [of "pc_lines c" ps p cs "c\<lparr>pc_lines := []\<rparr>"] Cons.prems by (auto simp: chunk_ok_def)
  moreover have "in_chunk ps p cs c = in_patch ps p (cs @ [c]) (Some (length ps, length cs))"
    by (simp add: in_chunk_def in_patch_def)
  moreover obtain ts cur' where "write_chunks ks = Inr ts"
    "rfold parse_patch_line ts (in_patch ps p (cs @ [c]) (Some (length ps, length cs))) =
     Inr (in_patch ps p ((cs @ [c]) @ ks) cur')"
    using Cons by (metis list.pred_inject(2))
  ultimately show ?case
    using parse_written_header [of c ps p cs cur] Cons.prems
    by (auto simp: write_chunk_def rfold_append)
qed

lemma parse_written_patch:
  assumes "patch_ok p"
  shows "\<exists>ts cur'. write_patch p = Inr ts \<and>
    rfold parse_patch_line ts \<lparr>pp_patchset = ps, pp_current_chunk = cur\<rparr> = Inr \<lparr>pp_patchset = ps @ [p], pp_current_chunk = cur'\<rparr>"
proof -
  have "no_newline (pa_src p)" "no_newline (pa_dst p)" "list_all chunk_ok (pa_chunks p)"
    using assms by (simp_all add: patch_ok_def)
  note hit = match_rest_hit [OF this(1), of "''--- ''"] match_rest_hit [OF this(2), of "''+++ ''"]
  have head: "rfold parse_patch_line [''--- '' @ pa_src p @ [CHR 0x0A], ''+++ '' @ pa_dst p @ [CHR 0x0A]]
      \<lparr>pp_patchset = ps, pp_current_chunk = cur\<rparr> = Inr (in_patch ps p [] cur)"
    using hit by (simp add: parse_patch_line_def match_rest_miss on_current_patch_def in_patch_def new_patch_def)
  obtain ts cur' where "write_chunks (pa_chunks p) = Inr ts"
    "rfold parse_patch_line ts (in_patch ps p [] cur) = Inr (in_patch ps p (pa_chunks p) cur')"
    using parse_written_chunks [OF \<open>list_all chunk_ok (pa_chunks p)\<close>, of ps p "[]" cur] by auto
  with head show ?thesis by (auto simp: write_patch_def in_patch_def rbind_eq_Inr_iff)
qed

lemma parse_written_patchset:
  assumes "list_all patch_ok ps"
  shows "\<exists>ts cur'. write_patchset ps = Inr ts \<and>
    rfold parse_patch_line ts \<lparr>pp_patchset = before, pp_current_chunk = cur\<rparr> =
    Inr \<lparr>pp_patchset = before @ ps, pp_current_chunk = cur'\<rparr>"
  using assms
proof (induction ps arbitrary: before cur)
  case (Cons p ps)
  obtain t cur1 where "write_patch p = Inr t" "rfold parse_patch_line t \<lparr>pp_patchset = before, pp_current_chunk = cur\<rparr> =
      Inr \<lparr>pp_patchset = before @ [p], pp_current_chunk = cur1\<rparr>"
    using parse_written_patch [of p before cur] Cons.prems by auto
  moreover obtain ts cur2 where "write_patchset ps = Inr ts"
    "rfold parse_patch_line ts \<lparr>pp_patchset = before @ [p], pp_current_chunk = cur1\<rparr> =
      Inr \<lparr>pp_patchset = (before @ [p]) @ ps, pp_current_chunk = cur2\<rparr>"
    using Cons by (metis list.pred_inject(2))
  ultimately show ?case by (auto simp: rfold_append)
qed auto

section \<open>What the white space filter does\<close>

definition blank :: "char \<Rightarrow> bool" where
  "blank c \<longleftrightarrow> c = CHR '' '' \<or> c = CHR 0x09"

definition touched :: "patch_line \<Rightarrow> patch_line \<Rightarrow> bool" where
  "touched l l' \<longleftrightarrow> l' = l \<or> is_dst l \<and> (\<exists>b. blank b \<and> l' = append_to_line [b] l)"

definition chunk_touched :: "patch_chunk \<Rightarrow> patch_chunk \<Rightarrow> bool" where
  "chunk_touched c c' \<longleftrightarrow> pc_src_pos c' = pc_src_pos c \<and> pc_dst_pos c' = pc_dst_pos c \<and>
     list_all2 touched (pc_lines c) (pc_lines c')"

definition patch_touched :: "patch \<Rightarrow> patch \<Rightarrow> bool" where
  "patch_touched p p' \<longleftrightarrow> pa_src p' = pa_src p \<and> pa_dst p' = pa_dst p \<and>
     list_all2 chunk_touched (pa_chunks p) (pa_chunks p')"

lemma match_whitespace_blank: "match_whitespace s = Some (g1, g2) \<Longrightarrow> \<exists>b. blank b \<and> g2 = [b]"
  by (auto simp: match_whitespace_def blank_def Let_def split: if_splits)

lemma match_whitespace_self: "match_whitespace s = Some (g1, g2) \<Longrightarrow> g1 \<noteq> s"
proof -
  assume "match_whitespace s = Some (g1, g2)"
  then have "length g1 < length s"
    by (cases s rule: rev_cases) (auto simp: match_whitespace_def Let_def split: if_splits)
  then show ?thesis by auto
qed

lemma match_whitespace_plain:
  "no_newline s \<Longrightarrow> match_whitespace s = (if s \<noteq> [] \<and> blank (last s) then Some (butlast s, [last s]) else None)"
  by (cases s rule: rev_cases) (auto simp: match_whitespace_def no_newline_def blank_def Let_def)

lemma whitespace_loop_length [simp]: "length (snd (whitespace_loop src dst ls)) = length ls"
  by (induction src dst ls rule: whitespace_loop.induct) (auto split: option.splits)

lemma whitespace_loop_touched:
  assumes "distinct dst" "\<And>d. d \<in> set dst \<Longrightarrow> is_dst (ls ! d)" "k < length ls"
  shows "touched (ls ! k) (snd (whitespace_loop src dst ls) ! k) \<and>
    (k \<notin> set dst \<longrightarrow> snd (whitespace_loop src dst ls) ! k = ls ! k)"
  using assms
proof (induction src dst ls rule: whitespace_loop.induct)
  case (3 s src d dst ls)
  show ?case
  proof (cases "match_whitespace (pl_line (ls ! s))")
    case None
    then show ?thesis using 3 by auto
  next
    case (Some g)
    obtain g1 g2 where g: "g = (g1, g2)" by force
    let ?ls = "if g1 = pl_line (ls ! d) then ls[d := append_to_line g2 (ls ! d)] else ls"
    obtain b where b: "blank b" "g2 = [b]" using match_whitespace_blank Some g by blast
    have dst: "is_dst (?ls ! e)" if "e \<in> set dst" for e
      using that 3(3,4) by (cases "e = d") auto
    from 3(2) [OF Some g [symmetric] _ dst] have IH: "touched (?ls ! k) (snd (whitespace_loop src dst ?ls) ! k)"
      "k \<notin> set dst \<Longrightarrow> snd (whitespace_loop src dst ?ls) ! k = ?ls ! k"
      using 3(3,5) by auto
    have eq: "whitespace_loop (s # src) (d # dst) ls = whitespace_loop src dst ?ls" using Some g by simp
    show ?thesis
    proof (cases "k = d")
      case True
      then have "k \<notin> set dst" using 3(3) by simp
      with IH(2) True b 3(4) [of d] 3(5) show ?thesis unfolding eq by (auto simp: touched_def)
    next
      case False
      then show ?thesis using IH unfolding eq by auto
    qed
  qed
qed (auto simp: touched_def)

lemma positions_props: "distinct (positions P xs)" "k \<in> set (positions P xs) \<longleftrightarrow> k < length xs \<and> P (xs ! k)"
  by (auto simp: positions_def)

lemma whitespace_chunk_eq:
  "whitespace_chunk c = (fst (whitespace_loop (chunk_src c) (chunk_dst c) (pc_lines c)),
     c\<lparr>pc_lines := snd (whitespace_loop (chunk_src c) (chunk_dst c) (pc_lines c))\<rparr>)"
  by (simp add: whitespace_chunk_def split: prod.splits)

lemma whitespace_chunk_touched: "chunk_touched c (snd (whitespace_chunk c))"
proof -
  have "touched (pc_lines c ! k) (snd (whitespace_loop (chunk_src c) (chunk_dst c) (pc_lines c)) ! k)"
    if "k < length (pc_lines c)" for k
    using whitespace_loop_touched [of "chunk_dst c" "pc_lines c" k "chunk_src c"] that
    by (auto simp: chunk_dst_def positions_props)
  then show ?thesis
    by (auto simp: chunk_touched_def whitespace_chunk_eq list_all2_conv_all_nth)
qed

lemma until_failure_rel:
  assumes "\<And>x. R x (snd (f x))" "\<And>x. R x x"
  shows "list_all2 R xs (snd (until_failure f xs))"
proof (induction xs)
  case (Cons x xs)
  have "list_all2 R xs xs" using assms(2) by (simp add: list_all2_refl)
  then show ?case using Cons assms(1) [of x] by (auto split: prod.splits bool.splits)
qed simp

lemma touched_refl: "touched l l" "chunk_touched c c" "patch_touched p p"
  by (simp_all add: touched_def chunk_touched_def patch_touched_def list_all2_refl)

lemma whitespace_patch_touched: "patch_touched p (snd (whitespace_patch p))"
  using until_failure_rel [of chunk_touched whitespace_chunk "pa_chunks p"] whitespace_chunk_touched touched_refl
  by (auto simp: patch_touched_def whitespace_patch_def split: prod.splits)

section \<open>Aligned chunks\<close>

text \<open>
  A chunk is aligned when the i-th source line and the i-th destination line are the same context line,
  or a removed and an added line. The reference result: an added line that lost one trailing blank of its
  source line gets it back.
\<close>

definition aligned :: "patch_chunk \<Rightarrow> bool" where
  "aligned c \<longleftrightarrow> src_len c \<le> dst_len c \<and> list_all (no_newline \<circ> pl_line) (pc_lines c) \<and>
     list_all (\<lambda>(s, d). s = d \<or> \<not> is_src (pc_lines c ! d)) (zip (chunk_src c) (chunk_dst c))"

definition restore :: "string \<Rightarrow> string \<Rightarrow> string" where
  "restore s d = (if s \<noteq> [] \<and> blank (last s) \<and> butlast s = d then s else d)"

definition restored_line :: "patch_chunk \<Rightarrow> nat \<Rightarrow> patch_line" where
  "restored_line c k =
     (case map_of (zip (chunk_dst c) (chunk_src c)) k of
        None \<Rightarrow> pc_lines c ! k
      | Some s \<Rightarrow> (pc_lines c ! k)\<lparr>pl_line := restore (pl_line (pc_lines c ! s)) (pl_line (pc_lines c ! k))\<rparr>)"

definition restore_chunk :: "patch_chunk \<Rightarrow> patch_chunk" where
  "restore_chunk c = c\<lparr>pc_lines := map (restored_line c) [0..<length (pc_lines c)]\<rparr>"

definition restore_patch :: "patch \<Rightarrow> patch" where
  "restore_patch p = p\<lparr>pa_chunks := map restore_chunk (pa_chunks p)\<rparr>"

lemma restore_self: "restore s s = s"
  by (simp add: restore_def)

lemma whitespace_step_eq:
  assumes "no_newline (pl_line (ls ! s))"
  shows "whitespace_loop (s # src) (d # dst) ls =
    whitespace_loop src dst (ls[d := (ls ! d)\<lparr>pl_line := restore (pl_line (ls ! s)) (pl_line (ls ! d))\<rparr>])"
proof (cases "pl_line (ls ! s) \<noteq> [] \<and> blank (last (pl_line (ls ! s)))")
  case True
  then have "butlast (pl_line (ls ! s)) = pl_line (ls ! d) \<Longrightarrow> pl_line (ls ! d) @ [last (pl_line (ls ! s))] = pl_line (ls ! s)"
    by (metis append_butlast_last_id)
  with True show ?thesis
    using assms by (auto simp: match_whitespace_plain restore_def append_to_line_def)
next
  case False
  then show ?thesis
    using assms by (auto simp: match_whitespace_plain restore_def)
qed

lemma whitespace_loop_aligned:
  assumes "length src \<le> length dst" "distinct dst" "distinct src" "\<And>s. s \<in> set src \<Longrightarrow> no_newline (pl_line (ls ! s))"
    and "\<And>s d. (s, d) \<in> set (zip src dst) \<Longrightarrow> s = d \<or> d \<notin> set src" "\<And>d. d \<in> set dst \<Longrightarrow> d < length ls"
    and "k < length ls"
  shows "fst (whitespace_loop src dst ls) \<and> snd (whitespace_loop src dst ls) ! k =
    (case map_of (zip dst src) k of None \<Rightarrow> ls ! k
     | Some s \<Rightarrow> (ls ! k)\<lparr>pl_line := restore (pl_line (ls ! s)) (pl_line (ls ! k))\<rparr>)"
  using assms
proof (induction src arbitrary: dst ls)
  case (Cons s src)
  then obtain d ds where dst: "dst = d # ds" by (cases dst) auto
  let ?l = "(ls ! d)\<lparr>pl_line := restore (pl_line (ls ! s)) (pl_line (ls ! d))\<rparr>"
  let ?ls = "ls[d := ?l]"
  have step: "whitespace_loop (s # src) dst ls = whitespace_loop src ds ?ls"
    unfolding dst using Cons.prems by (intro whitespace_step_eq) simp
  have same: "?ls ! x = ls ! x" if "x \<in> set src" for x
  proof (cases "s = d")
    case True
    then show ?thesis by (simp add: restore_self)
  next
    case False
    with Cons.prems(5) [of s d] have "d \<notin> set (s # src)" by (auto simp: dst)
    with that show ?thesis by (metis list.set_intros(2) nth_list_update_neq)
  qed
  have pairs: "s' = d' \<or> d' \<notin> set src" if "(s', d') \<in> set (zip src ds)" for s' d'
    using Cons.prems(5) [of s' d'] that by (auto simp: dst)
  have IH: "fst (whitespace_loop src ds ?ls) \<and> snd (whitespace_loop src ds ?ls) ! k =
      (case map_of (zip ds src) k of None \<Rightarrow> ?ls ! k
       | Some s \<Rightarrow> (?ls ! k)\<lparr>pl_line := restore (pl_line (?ls ! s)) (pl_line (?ls ! k))\<rparr>)"
    by (rule Cons.IH) (use Cons.prems pairs same in \<open>auto simp: dst\<close>)
  show ?case
  proof (cases "k = d")
    case True
    then have "map_of (zip ds src) k = None"
      using Cons.prems(2) by (auto simp: dst map_of_eq_None_iff dest: set_zip_leftD)
    with IH True show ?thesis using Cons.prems(6,7) unfolding step by (simp add: dst)
  next
    case False
    have "s' \<in> set src" if "map_of (zip ds src) k = Some s'" for s'
      using map_of_SomeD [OF that] by (rule set_zip_rightD)
    with IH False same show ?thesis unfolding step by (auto simp: dst split: option.splits)
  qed
qed simp

lemma whitespace_chunk_aligned:
  assumes "aligned c"
  shows "whitespace_chunk c = (True, restore_chunk c)"
proof -
  let ?r = "whitespace_loop (chunk_src c) (chunk_dst c) (pc_lines c)"
  have dist: "distinct (chunk_dst c)" "distinct (chunk_src c)" by (simp_all add: chunk_dst_def chunk_src_def positions_props)
  have pair: "s = d \<or> d \<notin> set (chunk_src c)" if "(s, d) \<in> set (zip (chunk_src c) (chunk_dst c))" for s d
    using assms that by (auto simp: aligned_def list_all_iff chunk_src_def positions_props)
  have line: "fst ?r \<and> snd ?r ! k = restored_line c k" if "k < length (pc_lines c)" for k
    unfolding restored_line_def
    by (rule whitespace_loop_aligned)
       (use assms dist pair that in \<open>auto simp: aligned_def src_len_def dst_len_def list_all_iff chunk_src_def chunk_dst_def positions_props\<close>)
  have "fst ?r"
  proof (cases "pc_lines c = []")
    case True
    then show ?thesis by (simp add: chunk_src_def positions_def)
  next
    case False
    then show ?thesis using line [of 0] by simp
  qed
  moreover have "snd ?r = map (restored_line c) [0..<length (pc_lines c)]"
    by (rule nth_equalityI) (use line in auto)
  ultimately show ?thesis by (simp add: whitespace_chunk_eq restore_chunk_def)
qed

lemma until_failure_all: "(\<And>x. x \<in> set xs \<Longrightarrow> f x = (True, g x)) \<Longrightarrow> until_failure f xs = (True, map g xs)"
  by (induction xs) auto

text \<open>The source side of a chunk, which the \<^verbatim>\<open>patch\<close> program looks for in the file.\<close>

definition source_text :: "patch_chunk \<Rightarrow> string list" where
  "source_text c = map pl_line (filter is_src (pc_lines c))"

lemma source_text_positions: "source_text c = map (\<lambda>k. pl_line (pc_lines c ! k)) (chunk_src c)"
proof -
  have "filter is_src (pc_lines c) = map ((!) (pc_lines c)) (chunk_src c)"
    unfolding chunk_src_def positions_def
    by (metis (no_types, lifting) filter_map map_nth o_apply filter_cong)
  then show ?thesis by (simp add: source_text_def)
qed

lemma restored_line_src:
  assumes "aligned c" "k \<in> set (chunk_src c)"
  shows "restored_line c k = pc_lines c ! k"
proof (cases "map_of (zip (chunk_dst c) (chunk_src c)) k")
  case (Some s)
  then have "(s, k) \<in> set (zip (chunk_src c) (chunk_dst c))"
    using map_of_SomeD [OF Some] by (auto simp: set_zip)
  then have "s = k" using assms by (auto simp: aligned_def list_all_iff chunk_src_def positions_props)
  with Some show ?thesis by (simp add: restored_line_def restore_self)
qed (simp add: restored_line_def)

lemma restored_line_type: "is_src (restored_line c k) \<longleftrightarrow> is_src (pc_lines c ! k)"
  by (simp add: restored_line_def is_src_def split: option.splits)

lemma restore_chunk_source:
  assumes "aligned c"
  shows "source_text (restore_chunk c) = source_text c"
proof -
  have "chunk_src (restore_chunk c) = chunk_src c"
    by (auto simp: chunk_src_def positions_def restore_chunk_def restored_line_type intro!: filter_cong)
  then show ?thesis
    using restored_line_src [OF assms]
    by (auto simp: source_text_positions restore_chunk_def chunk_src_def positions_def)
qed

section \<open>Properties\<close>

text \<open>C28. A patch set that was written is read back: \<^verbatim>\<open>parse_patchset\<close> of the lines of a patch set returns it, when
  names and lines have no newline and no removed or added line looks like a file header.\<close>

theorem patchset_roundtrip:
  assumes "list_all patch_ok ps"
  shows "\<exists>lines. write_patchset ps = Inr lines \<and> parse_patchset lines = Inr ps"
  using parse_written_patchset [OF assms, of "[]" None] by (auto simp: parse_patchset_def)

text \<open>C22. The white space filter is the reference filter on patch sets with aligned chunks: every added line that
  only lost one trailing blank of the line it replaces gets it back, nothing else changes, and the source
  side of every chunk, which has to match the file, stays as it was.\<close>

theorem aligned_whitespace_restored:
  assumes "parse_patchset lines = Inr ps" "\<forall>p\<in>set ps. \<forall>c\<in>set (pa_chunks p). aligned c"
  shows "remove_trailing_whitespace_changes lines = Inr (map restore_patch ps) \<and>
    (\<forall>p\<in>set ps. \<forall>c\<in>set (pa_chunks p). source_text (restore_chunk c) = source_text c)"
proof
  have "whitespace_patch p = (True, restore_patch p)" if "p \<in> set ps" for p
    using until_failure_all [of "pa_chunks p" whitespace_chunk restore_chunk] whitespace_chunk_aligned assms(2) that
    by (simp add: whitespace_patch_def restore_patch_def)
  with until_failure_all [of ps whitespace_patch restore_patch] assms(1)
  show "remove_trailing_whitespace_changes lines = Inr (map restore_patch ps)"
    by (simp add: remove_trailing_whitespace_changes_def)
  show "\<forall>p\<in>set ps. \<forall>c\<in>set (pa_chunks p). source_text (restore_chunk c) = source_text c"
    using restore_chunk_source assms(2) by blast
qed

text \<open>C32. On any input the white space filter raises only what the parser raises, and otherwise keeps every file
  name, position and line, except that a blank or a tab may be appended to a line of the destination side.\<close>

theorem whitespace_filter_safe:
  "case remove_trailing_whitespace_changes lines of
     Inl e \<Rightarrow> parse_patchset lines = Inl e
   | Inr ps' \<Rightarrow> \<exists>ps. parse_patchset lines = Inr ps \<and> list_all2 patch_touched ps ps'"
  using until_failure_rel [of patch_touched whitespace_patch] whitespace_patch_touched touched_refl
  by (auto simp: remove_trailing_whitespace_changes_def rbind_eq_Inr_iff rbind_eq_Inl_iff split: sum.splits)








text \<open>
  Where the filter and the parser go wrong: a chunk that is not aligned gets its context changed, so that it
  no longer matches the file; of two trailing blanks none is restored; one chunk with more source lines than
  destination lines stops the filter for all later ones; and the header that \<^verbatim>\<open>difflib\<close> writes for a chunk of
  one line is not recognised.
\<close>

definition chunk_of :: "(line_type \<times> string) list \<Rightarrow> patch_chunk" where
  "chunk_of ls = \<lparr>pc_lines = map (\<lambda>(t, s). \<lparr>pl_type = t, pl_line = s\<rparr>) ls, pc_src_pos = 1, pc_dst_pos = 1\<rparr>"

theorem filter_changes_context:
  "source_text (snd (whitespace_chunk (chunk_of [(SRC, ''a ''), (BOTH, ''a''), (DST, ''b'')]))) = [''a '', ''a '']"
  by code_simp

theorem filter_two_blanks:
  "whitespace_chunk (chunk_of [(SRC, ''a  ''), (DST, ''a'')]) = (True, chunk_of [(SRC, ''a  ''), (DST, ''a'')])"
  by code_simp

theorem filter_stops_early:
  "until_failure whitespace_chunk [chunk_of [(SRC, ''a'')], chunk_of [(SRC, ''b ''), (DST, ''b'')]] =
     (False, [chunk_of [(SRC, ''a'')], chunk_of [(SRC, ''b ''), (DST, ''b'')]])"
  by code_simp

theorem single_line_header_rejected:
  "parse_patchset [''--- a'' @ [CHR 0x0A], ''+++ b'' @ [CHR 0x0A], ''@@ -1 +1 @@'' @ [CHR 0x0A]] = Inl GenericException"
  by code_simp

theorem dashes_start_a_patch:
  "map_sum id (map pa_src) (parse_patchset [''--- a'' @ [CHR 0x0A], ''+++ b'' @ [CHR 0x0A], ''@@ -1,1 +1,0 @@'' @ [CHR 0x0A],
     ''--- i;'' @ [CHR 0x0A]]) = Inr [''a'', ''i;'']"
  by code_simp

theorem debug_raises:
  "uncrustify tools (uncrustify_config_file level) (fs source) \<noteq> None \<Longrightarrow> indent tools fs True level source = Inl TypeError"
  by (auto simp: indent_def)

section \<open>Concrete instances\<close>

definition demo_patch :: patch where
  "demo_patch = \<lparr>pa_src = ''a'', pa_dst = ''b'',
     pa_chunks = [chunk_of [(BOTH, ''x''), (SRC, ''int i; ''), (DST, ''int i;'')]]\<rparr>"

theorem patchset_roundtrip_witness:
  "\<exists>lines. write_patchset [demo_patch, demo_patch] = Inr lines \<and> parse_patchset lines = Inr [demo_patch, demo_patch]"
  by (rule patchset_roundtrip) code_simp

definition demo_diff :: "string list" where
  "demo_diff = [''--- a'' @ [CHR 0x0A], ''+++ b'' @ [CHR 0x0A], ''@@ -1,2 +1,2 @@'' @ [CHR 0x0A], '' x'' @ [CHR 0x0A],
     ''-int i; '' @ [CHR 0x0A], ''+int i;'' @ [CHR 0x0A]]"

theorem aligned_whitespace_restored_witness:
  "remove_trailing_whitespace_changes demo_diff = Inr [restore_patch demo_patch]"
proof -
  have "parse_patchset demo_diff = Inr [demo_patch]" "\<forall>p\<in>set [demo_patch]. \<forall>c\<in>set (pa_chunks p). aligned c"
    by code_simp+
  from aligned_whitespace_restored [OF this] show ?thesis by simp
qed



end
