(* ===== verification/ModuleScan.thy ===== *)
theory ModuleScan
  imports PyPath PyTrace
begin

text \<open>
  The scanner that generates the Python bindings of one module, \<open>src/bindings/python/ns3modulescan-modular.py\<close>
  with the table of annotations of \<open>ns3modulescan.py\<close>: the path of a header inside the ns-3 tree, the hook that
  annotates every declaration before it is wrapped, the list of the callback classes and the handling of the
  output file. The declarations are those of pygccxml, reduced to what the hook reads; the functions of
  pygccxml and the passes of pybindgen are arguments.
\<close>

section \<open>The path of a header\<close>

text \<open>\<open>os.path.split\<close> of the POSIX side\<close>

definition os_split :: "string \<Rightarrow> string \<times> string" where
  "os_split p =
     (let t = rev (takeWhile (\<lambda>c. c \<noteq> CHR ''/'') (rev p));
          h = take (length p - length t) p
      in (if h \<noteq> [] \<and> h \<noteq> replicate (length h) (CHR ''/'') then rev (dropWhile (\<lambda>c. c = CHR ''/'') (rev h)) else h, t))"

lemma strip_prefix: "\<exists>t. h = rev (dropWhile P (rev h)) @ t"
proof -
  have "rev h = takeWhile P (rev h) @ dropWhile P (rev h)" by simp
  then have "h = rev (takeWhile P (rev h) @ dropWhile P (rev h))" by (metis rev_rev_ident)
  then show ?thesis by (metis rev_append)
qed

lemma os_split_prefix: "\<exists>t. p = fst (os_split p) @ t"
proof -
  let ?h = "take (length p - length (rev (takeWhile (\<lambda>c. c \<noteq> CHR ''/'') (rev p)))) p"
  have "fst (os_split p) = ?h \<or> fst (os_split p) = rev (dropWhile (\<lambda>c. c = CHR ''/'') (rev ?h))"
    by (simp add: os_split_def Let_def)
  moreover have "\<exists>t. p = ?h @ t" by (metis append_take_drop_id)
  ultimately show ?thesis using strip_prefix [of ?h "\<lambda>c. c = CHR ''/''"] by (metis append.assoc)
qed

lemma os_split_shrinks: "fst (os_split p) \<noteq> p \<Longrightarrow> length (fst (os_split p)) < length p"
  using os_split_prefix [of p] by (metis append_Nil2 length_append less_add_same_cancel1 length_greater_0_conv)

definition join_all :: "string list \<Rightarrow> string res" where
  "join_all l = (case l of [] \<Rightarrow> Inl TypeError | x # xs \<Rightarrow> Inr (foldl path_join x xs))"

function ns3_path_loop :: "string list \<Rightarrow> string \<Rightarrow> string res" where
  "ns3_path_loop l head =
     (if head = [] then Inl AssertionError
      else case os_split head of (new_head, tail) \<Rightarrow>
        if new_head = head then Inl ValueError
        else if tail = ''ns3'' then join_all l
        else ns3_path_loop (tail # l) new_head)"
  by pat_completeness auto
termination
  by (relation "measure (\<lambda>(l, head). length head)") (auto, metis fst_conv os_split_shrinks)

declare ns3_path_loop.simps [simp del]

definition get_ns3_relative_path :: "string \<Rightarrow> string option res" where
  "get_ns3_relative_path path = (if path = [] then Inr None else rbind (ns3_path_loop [] path) (\<lambda>p. Inr (Some p)))"

text \<open>Paths made of components without separators.\<close>

definition component :: "string \<Rightarrow> bool" where
  "component c = (c \<noteq> [] \<and> CHR ''/'' \<notin> set c)"

lemma join_snoc: "cs \<noteq> [] \<Longrightarrow> join ''/'' (cs @ [c]) = join ''/'' cs @ ''/'' @ c"
  by (induction "''/''" cs rule: join.induct) auto

lemma join_component_last: "cs \<noteq> [] \<Longrightarrow> \<forall>c \<in> set cs. component c \<Longrightarrow> join ''/'' cs \<noteq> [] \<and> last (join ''/'' cs) \<noteq> CHR ''/''"
proof (induction cs rule: rev_induct)
  case (snoc c cs)
  then have "c \<noteq> []" "CHR ''/'' \<notin> set c" by (auto simp: component_def)
  moreover from this have "last c \<noteq> CHR ''/''" using last_in_set [of c] by metis
  moreover have "\<forall>c \<in> set cs. component c" using snoc by simp
  note snoc.IH [OF _ this]
  ultimately show ?case by (cases "cs = []") (simp_all add: join_snoc)
qed simp

lemma os_split_last:
  assumes "component c" "h = [] \<or> h = ''/'' \<or> (\<exists>h'. h = h' @ ''/'' \<and> h' \<noteq> [] \<and> last h' \<noteq> CHR ''/'')"
  shows "os_split (h @ c) = (if h = ''/'' then h else butlast h, c)"
proof -
  have "takeWhile (\<lambda>c. c \<noteq> CHR ''/'') (rev c @ rev h) = rev c @ takeWhile (\<lambda>c. c \<noteq> CHR ''/'') (rev h)"
    using assms(1) by (subst takeWhile_append2) (auto simp: component_def)
  moreover have "takeWhile (\<lambda>c. c \<noteq> CHR ''/'') (rev h) = []" using assms(2) by auto
  ultimately have tail: "rev (takeWhile (\<lambda>c. c \<noteq> CHR ''/'') (rev (h @ c))) = c" by simp
  have head: "take (length (h @ c) - length c) (h @ c) = h" by simp
  have split: "os_split (h @ c) =
      (if h \<noteq> [] \<and> h \<noteq> replicate (length h) (CHR ''/'') then rev (dropWhile (\<lambda>c. c = CHR ''/'') (rev h)) else h, c)"
    unfolding os_split_def tail Let_def head by (rule refl)
  from assms(2) consider "h = [] \<or> h = ''/''" | xs x where "h = xs @ [x] @ ''/''" "x \<noteq> CHR ''/''"
    by (metis append.assoc append_butlast_last_id)
  then show ?thesis
  proof cases
    case 1
    then show ?thesis using split by auto
  next
    case 2
    then have "x \<in> set h" "h \<noteq> ''/''" by auto
    then have "h \<noteq> replicate (length h) (CHR ''/'')" using 2(2) by (metis in_set_replicate)
    then show ?thesis using split 2 by (simp add: butlast_append)
  qed
qed

definition abs_path :: "string list \<Rightarrow> string" where
  "abs_path cs = ''/'' @ join ''/'' cs"

lemma foldl_path_join:
  "\<forall>c \<in> set (x # xs). component c \<Longrightarrow> foldl path_join x xs = join ''/'' (x # xs)"
proof (induction xs rule: rev_induct)
  case (snoc y xs)
  then have "last (join ''/'' (x # xs)) \<noteq> CHR ''/''" "join ''/'' (x # xs) \<noteq> []"
    using join_component_last [of "x # xs"] by auto
  moreover have "\<not> startswith y ''/''" using snoc(2) by (cases y) (auto simp: component_def)
  ultimately show ?case using snoc join_snoc [of "x # xs" y] by (simp add: path_join_def)
qed simp

definition path_result :: "py_exn \<Rightarrow> string list \<Rightarrow> string list \<Rightarrow> string res" where
  "path_result e cs l =
     (if ''ns3'' \<in> set cs then join_all (rev (takeWhile (\<lambda>c. c \<noteq> ''ns3'') (rev cs)) @ l) else Inl e)"

lemma loop_abs: "\<forall>c \<in> set cs. component c \<Longrightarrow> ns3_path_loop l (abs_path cs) = path_result ValueError cs l"
proof (induction cs arbitrary: l rule: rev_induct)
  case Nil
  then show ?case by (simp add: ns3_path_loop.simps abs_path_def os_split_def path_result_def)
next
  case (snoc c cs)
  have split: "os_split (abs_path (cs @ [c])) = (abs_path cs, c)"
  proof (cases "cs = []")
    case True
    then show ?thesis using os_split_last [of c "''/''"] snoc(2) by (simp add: abs_path_def)
  next
    case False
    then show ?thesis
      using os_split_last [of c "abs_path cs @ ''/''"] snoc(2) join_component_last [of cs]
      by (simp add: abs_path_def join_snoc)
  qed
  have "abs_path cs \<noteq> abs_path (cs @ [c])" using snoc(2) by (cases "cs = []") (auto simp: abs_path_def join_snoc component_def)
  then show ?case
    using snoc split by (simp add: ns3_path_loop.simps [of l "abs_path (cs @ [c])"] path_result_def) (simp add: abs_path_def)
qed

lemma loop_rel: "\<forall>c \<in> set cs. component c \<Longrightarrow> ns3_path_loop l (join ''/'' cs) = path_result AssertionError cs l"
proof (induction cs arbitrary: l rule: rev_induct)
  case Nil
  then show ?case by (simp add: ns3_path_loop.simps path_result_def)
next
  case (snoc c cs)
  have split: "os_split (join ''/'' (cs @ [c])) = (join ''/'' cs, c)"
  proof (cases "cs = []")
    case True
    then show ?thesis using os_split_last [of c "[]"] snoc(2) by simp
  next
    case False
    then show ?thesis
      using os_split_last [of c "join ''/'' cs @ ''/''"] snoc(2) join_component_last [of cs]
      by (simp add: join_snoc)
  qed
  have "join ''/'' cs \<noteq> join ''/'' (cs @ [c])" "join ''/'' (cs @ [c]) \<noteq> []"
    using snoc(2) by (cases "cs = []"; auto simp: join_snoc component_def)+
  then show ?case
    using snoc split by (simp add: ns3_path_loop.simps [of l "join ''/'' (cs @ [c])"] path_result_def)
qed

section \<open>The table of annotations\<close>

datatype annotation = AStr string | ANone | ATrue | AParams "(string, (string, string) dict) dict"

type_synonym annotations = "(string, annotation) dict"
type_synonym annotation_table = "(string, annotations) dict"

definition type_annotations :: annotation_table where
  "type_annotations =
     [(''::ns3::AttributeChecker'',
       [(''automatic_type_narrowing'', AStr ''true''), (''allow_subclassing'', AStr ''false'')]),
      (''::ns3::AttributeValue'',
       [(''automatic_type_narrowing'', AStr ''true''), (''allow_subclassing'', AStr ''false'')]),
      (''::ns3::CommandLine'',
       [(''allow_subclassing'', AStr ''true'')]),
      (''::ns3::NscTcpL4Protocol'',
       [(''ignore'', AStr ''true'')]),
      (''ns3::RandomVariable::RandomVariable(ns3::RandomVariableBase const & variable) [constructor]'',
       [(''ignore'', ANone)]),
      (''ns3::RandomVariableBase * ns3::RandomVariable::Peek() const [member function]'',
       [(''ignore'', ANone)]),
      (''void ns3::RandomVariable::GetSeed(uint32_t * seed) const [member function]'',
       [(''params'', AParams [(''seed'', [(''direction'', ''out''), (''array_length'', ''6'')])])]),
      (''bool ns3::TypeId::LookupAttributeByName(std::string name, ns3::TypeId::AttributeInformation * info) const [member function]'',
       [(''params'', AParams [(''info'', [(''transfer_ownership'', ''false'')])])]),
      (''static bool ns3::TypeId::LookupByNameFailSafe(std::string name, ns3::TypeId * tid) [member function]'',
       [(''ignore'', ANone)]),
      (''bool ns3::TraceSourceAccessor::ConnectWithoutContext(ns3::ObjectBase * obj, ns3::CallbackBase const & cb) const [member function]'',
       [(''params'', AParams [(''obj'', [(''transfer_ownership'', ''false'')])])]),
      (''bool ns3::TraceSourceAccessor::Connect(ns3::ObjectBase * obj, std::string context, ns3::CallbackBase const & cb) const [member function]'',
       [(''params'', AParams [(''obj'', [(''transfer_ownership'', ''false'')])])]),
      (''bool ns3::TraceSourceAccessor::DisconnectWithoutContext(ns3::ObjectBase * obj, ns3::CallbackBase const & cb) const [member function]'',
       [(''params'', AParams [(''obj'', [(''transfer_ownership'', ''false'')])])]),
      (''bool ns3::TraceSourceAccessor::Disconnect(ns3::ObjectBase * obj, std::string context, ns3::CallbackBase const & cb) const [member function]'',
       [(''params'', AParams [(''obj'', [(''transfer_ownership'', ''false'')])])]),
      (''bool ns3::AttributeAccessor::Set(ns3::ObjectBase * object, ns3::AttributeValue const & value) const [member function]'',
       [(''params'', AParams [(''object'', [(''transfer_ownership'', ''false'')])])]),
      (''ns3::EmpiricalVariable::EmpiricalVariable(ns3::RandomVariableBase const & variable) [constructor]'',
       [(''ignore'', ANone)]),
      (''static ns3::AttributeList * ns3::AttributeList::GetGlobal() [member function]'',
       [(''caller_owns_return'', AStr ''false'')]),
      (''void ns3::CommandLine::Parse(int argc, char * * argv) const [member function]'',
       [(''ignore'', ANone)]),
      (''extern void ns3::PythonCompleteConstruct(ns3::Ptr<ns3::Object> object, ns3::TypeId typeId, ns3::AttributeList const & attributes) [free function]'',
       [(''ignore'', ANone)]),
      (''ns3::Ptr<ns3::Ipv4RoutingProtocol> ns3::Ipv4ListRouting::GetRoutingProtocol(uint32_t index, int16_t & priority) const [member function]'',
       [(''params'', AParams [(''priority'', [(''direction'', ''out'')])])]),
      (''ns3::Ipv4RoutingTableEntry * ns3::GlobalRouter::GetInjectedRoute(uint32_t i) [member function]'',
       [(''params'', AParams [(''return'', [(''caller_owns_return'', ''false'')])])]),
      (''ns3::Ipv4RoutingTableEntry * ns3::Ipv4GlobalRouting::GetRoute(uint32_t i) const [member function]'',
       [(''params'', AParams [(''return'', [(''caller_owns_return'', ''false'')])])]),
      (''::ns3::TestCase'',
       [(''ignore'', AStr ''true'')]),
      (''::ns3::TestRunner'',
       [(''ignore'', AStr ''true'')]),
      (''::ns3::TestSuite'',
       [(''ignore'', AStr ''true'')])]"

section \<open>The hook before a declaration is wrapped\<close>

datatype decl_kind = MemberFunction | Constructor | FreeFunction | OtherCallable | ClassDecl | EnumDecl | OtherDecl

text \<open>\<open>decl_text\<close> is \<open>str(definition)\<close>; \<open>default_values\<close> are those of the arguments of a callable.\<close>

record decl =
  kind :: decl_kind
  decl_name :: string
  parent_name :: string
  decl_string :: string
  decl_text :: string
  file_name :: string
  default_values :: "string option list"

text \<open>The functions of pygccxml: the arguments and the parts of a template instance, and the file of the
  declaration a template argument names, \<open>None\<close> when it has no location.\<close>

record pygccxml =
  template_args :: "string \<Rightarrow> string list"
  is_instantiation :: "string \<Rightarrow> bool"
  template_parameters :: "string \<Rightarrow> string list"
  declaration_file :: "string \<Rightarrow> string option"

record hook_state =
  global_annotations :: annotations
  parameter_annotations :: "(string, (string, string) dict) dict"
  arg_defaults :: "string option list"
  table :: annotation_table

definition annotate :: "string \<Rightarrow> annotation \<Rightarrow> hook_state \<Rightarrow> hook_state" where
  "annotate k v st = st\<lparr>global_annotations := dict_set k v (global_annotations st)\<rparr>"

definition dict_update :: "('k, 'v) dict \<Rightarrow> ('k, 'v) dict \<Rightarrow> ('k, 'v) dict" where
  "dict_update new d = fold (\<lambda>(k, v). dict_set k v) new d"

text \<open>\<open>repr\<close> of a module name, and \<open>replace('-', '_')\<close>.\<close>

definition py_repr :: "string \<Rightarrow> string" where
  "py_repr s = [CHR 0x27] @ s @ [CHR 0x27]"

definition underscores :: "string \<Rightarrow> string" where
  "underscores s = map (\<lambda>c. if c = CHR ''-'' then CHR ''_'' else c) s"

definition is_callable :: "decl \<Rightarrow> bool" where
  "is_callable d = (kind d \<in> {MemberFunction, Constructor, FreeFunction})"

definition is_method_of :: "decl \<Rightarrow> string \<Rightarrow> bool" where
  "is_method_of d cls = (kind d = MemberFunction \<and> parent_name d = cls)"

definition pygen_comment :: "string \<Rightarrow> string \<Rightarrow> decl \<Rightarrow> string" where
  "pygen_comment header m d = header @ '' (module '' @ py_repr m @ ''): '' @ decl_text d"

definition method_annotations :: "pygccxml \<Rightarrow> decl \<Rightarrow> hook_state \<Rightarrow> hook_state" where
  "method_annotations px d st =
     (let st = (if is_method_of d ''Object'' \<and> decl_name d = ''GetObject'' \<and> template_args px (decl_text d) = [''ns3::Object'']
                then annotate ''template_instance_names'' (AStr ''ns3::Object=>GetObject'') st else st);
          st = (if is_method_of d ''Simulator'' \<and> startswith (decl_name d) ''Schedule'' then annotate ''ignore'' ANone st else st)
      in if is_method_of d ''Simulator'' \<and> decl_name d = ''Run'' then annotate ''ignore'' ATrue st else st)"

definition fix_default :: "string option \<Rightarrow> string option" where
  "fix_default v =
     (if v = Some ''ns3::MilliSeconds( )'' then Some ''ns3::MilliSeconds(0)''
      else if v = Some ''ns3::Seconds( )'' then Some ''ns3::Seconds(0)'' else v)"

definition fix_defaults :: "decl \<Rightarrow> hook_state \<Rightarrow> hook_state" where
  "fix_defaults d st = (if is_callable d \<or> kind d = OtherCallable then st\<lparr>arg_defaults := map fix_default (arg_defaults st)\<rparr> else st)"

text \<open>The modules of the template arguments; a declaration outside ns-3 is skipped, and a header that is in no
  module is a \<open>KeyError\<close>.\<close>

fun parameter_modules :: "(string, string) dict \<Rightarrow> string option list \<Rightarrow> string list res" where
  "parameter_modules headers_map [] = Inr []"
| "parameter_modules headers_map (None # fs) = parameter_modules headers_map fs"
| "parameter_modules headers_map (Some f # fs) =
     (case get_ns3_relative_path f of
        Inl ValueError \<Rightarrow> parameter_modules headers_map fs
      | Inl e \<Rightarrow> Inl e
      | Inr None \<Rightarrow> Inl KeyError
      | Inr (Some h) \<Rightarrow> rbind (dict_get headers_map h) (\<lambda>m. rbind (parameter_modules headers_map fs) (\<lambda>ms. Inr (m # ms))))"

definition class_module :: "pygccxml \<Rightarrow> (string, string) dict \<Rightarrow> string \<Rightarrow> decl \<Rightarrow> string \<Rightarrow> string res" where
  "class_module px headers_map this_module d m =
     (if is_instantiation px (decl_string d)
      then rbind (parameter_modules headers_map (map (declaration_file px) (template_parameters px (decl_name d))))
             (\<lambda>ms. Inr (if this_module \<in> set ms then this_module else m))
      else Inr m)"

definition apply_class_table :: "decl \<Rightarrow> hook_state \<Rightarrow> hook_state" where
  "apply_class_table d st =
     (case dict_get (table st) (decl_string d) of
        Inl e \<Rightarrow> st
      | Inr anns \<Rightarrow> st\<lparr>global_annotations := dict_update anns (global_annotations st)\<rparr>)"

text \<open>The customization of a class; the flag says whether the hook returned.\<close>

definition class_annotations :: "decl \<Rightarrow> hook_state \<Rightarrow> hook_state \<times> bool" where
  "class_annotations d st =
     (if startswith (decl_string d) ''::ns3::SimpleRefCount<''
      then (annotate ''automatic_type_narrowing'' (AStr ''true'')
              (annotate ''peekref_method'' (AStr ''GetReferenceCount'')
                (annotate ''decref_method'' (AStr ''Unref'') (annotate ''incref_method'' (AStr ''Ref'') st))), True)
      else if startswith (decl_string d) ''::ns3::Callback<'' then (annotate ''ignore'' ANone st, True)
      else if startswith (decl_string d) ''::ns3::TracedCallback<'' then (annotate ''ignore'' ANone st, True)
      else if startswith (decl_string d) ''::ns3::Ptr<'' then (annotate ''ignore'' ANone st, True)
      else (apply_class_table d st, False))"

definition apply_function_item :: "string \<Rightarrow> string \<times> annotation \<Rightarrow> hook_state \<Rightarrow> hook_state" where
  "apply_function_item key kv st =
     (case kv of
        (k, v) \<Rightarrow> if k = ''params'' then
            (case v of
               AParams ps \<Rightarrow> st\<lparr>parameter_annotations := dict_update ps (parameter_annotations st),
                  table := dict_set key (AList.delete ''params'' (dict_get_default (table st) key [])) (table st)\<rparr>
             | _ \<Rightarrow> st)
          else st)"

definition apply_function_table :: "decl \<Rightarrow> hook_state \<Rightarrow> hook_state" where
  "apply_function_table d st =
     (case dict_get (table st) (decl_text d) of
        Inl e \<Rightarrow> st
      | Inr anns \<Rightarrow>
          let st = fold (apply_function_item (decl_text d)) anns st
          in st\<lparr>global_annotations := dict_update (dict_get_default (table st) (decl_text d) []) (global_annotations st)\<rparr>)"

definition hook_body :: "pygccxml \<Rightarrow> (string, string) dict \<Rightarrow> string \<Rightarrow> decl \<Rightarrow> string \<Rightarrow> string \<Rightarrow> hook_state \<Rightarrow> hook_state res" where
  "hook_body px headers_map this_module d header m st =
     (let st = fix_defaults d (method_annotations px d (annotate ''pygen_comment'' (AStr (pygen_comment header m d)) st))
      in if kind d = ClassDecl then
           rbind (class_module px headers_map this_module d m) (\<lambda>m.
             Inr (fst (class_annotations d
               (if m \<noteq> this_module then annotate ''import_from_module'' (AStr (''ns.'' @ underscores m)) st else st))))
         else if kind d = EnumDecl then
           Inr (if m \<noteq> this_module then annotate ''import_from_module'' (AStr (''ns.'' @ m)) st else st)
         else if kind d = FreeFunction \<and> (m \<noteq> this_module \<or> decl_name d = ''PeekPointer'') then Inr (annotate ''ignore'' ANone st)
         else if is_callable d then Inr (apply_function_table d st)
         else Inr st)"

definition pre_scan_hook :: "pygccxml \<Rightarrow> (string, string) dict \<Rightarrow> string \<Rightarrow> decl \<Rightarrow> hook_state \<Rightarrow> hook_state res" where
  "pre_scan_hook px headers_map this_module d st =
     (case get_ns3_relative_path (file_name d) of
        Inl ValueError \<Rightarrow> Inr st
      | Inl e \<Rightarrow> Inl e
      | Inr None \<Rightarrow> Inr st
      | Inr (Some header) \<Rightarrow>
          if header = [] then Inr st
          else rbind (dict_get headers_map header) (\<lambda>m. hook_body px headers_map this_module d header m st))"

section \<open>The callback classes\<close>

definition callback_line :: "pygccxml \<Rightarrow> decl \<Rightarrow> string" where
  "callback_line px d =
     ''    ['' @ join '', '' (map py_repr (template_parameters px (decl_string d))) @ ''],'' @ [CHR 0x0A]"

fun callback_lines :: "pygccxml \<Rightarrow> decl list \<Rightarrow> string list \<times> py_exn option" where
  "callback_lines px [] = ([], None)"
| "callback_lines px (d # ds) =
     (if \<not> startswith (decl_name d) ''Callback<'' then callback_lines px ds
      else if \<not> is_instantiation px (decl_string d) then ([], Some AssertionError)
      else case callback_lines px ds of (ls, e) \<Rightarrow> (callback_line px d # ls, e))"

definition scan_callback_classes :: "pygccxml \<Rightarrow> decl list \<Rightarrow> string list \<times> py_exn option" where
  "scan_callback_classes px ds =
     (case callback_lines px ds of
        (ls, None) \<Rightarrow> ((''callback_classes = ['' @ [CHR 0x0A]) # ls @ ['']'' @ [CHR 0x0A]], None)
      | (ls, Some e) \<Rightarrow> ((''callback_classes = ['' @ [CHR 0x0A]) # ls, Some e))"

section \<open>The scan of a module\<close>

datatype scan_event = Unlink string | MakeDirs string | OpenOutput string | ParseInit string | ScanTypes
  | WriteCallbacks string "string list" | ScanMethods | ScanFunctions | ParseFinalize | CloseOutput | Chmod string nat

text \<open>The world the scan acts on: whether a file exists, the exception an action raises, and the classes that
  \<open>scan_types\<close> found in the module.\<close>

record scan_world =
  path_exists :: "string \<Rightarrow> bool"
  raises :: "scan_event \<Rightarrow> py_exn option"
  module_classes :: "decl list"

definition act :: "scan_world \<Rightarrow> scan_event \<Rightarrow> (scan_event, unit) io" where
  "act w ev = io_bind (tell ev) (\<lambda>_. case raises w ev of None \<Rightarrow> io_return () | Some e \<Rightarrow> io_raise e)"

definition ignoring_OSError :: "('ev, unit) io \<Rightarrow> ('ev, unit) io" where
  "ignoring_OSError m = (case m of (tr, Inl OSError) \<Rightarrow> (tr, Inr ()) | _ \<Rightarrow> m)"

definition scan_header :: "scan_world \<Rightarrow> string \<Rightarrow> string \<Rightarrow> string \<Rightarrow> string" where
  "scan_header w top_builddir module_name output_file_name =
     (let h = path_join (fst (os_split output_file_name)) ''scan-header.h''
      in if path_exists w h then h
         else path_join (path_join top_builddir ''ns3'') (module_name @ ''-module.h''))"

definition ns3_module_scan :: "scan_world \<Rightarrow> pygccxml \<Rightarrow> string \<Rightarrow> string \<Rightarrow> string \<Rightarrow> (scan_event, unit) io" where
  "ns3_module_scan w px top_builddir module_name out =
     io_bind (ignoring_OSError (act w (Unlink out))) (\<lambda>_.
     io_bind (ignoring_OSError (act w (MakeDirs (fst (os_split out))))) (\<lambda>_.
     io_bind (act w (OpenOutput out)) (\<lambda>_.
     io_bind (act w (ParseInit (scan_header w top_builddir module_name out))) (\<lambda>_.
     io_bind (act w ScanTypes) (\<lambda>_.
     io_bind (case scan_callback_classes px (module_classes w) of
                (ls, e) \<Rightarrow> io_bind (act w (WriteCallbacks (path_join (fst (os_split out)) ''callbacks_list.py'') ls))
                            (\<lambda>_. case e of None \<Rightarrow> io_return () | Some e \<Rightarrow> io_raise e)) (\<lambda>_.
     io_bind (act w ScanMethods) (\<lambda>_.
     io_bind (act w ScanFunctions) (\<lambda>_.
     io_bind (act w ParseFinalize) (\<lambda>_.
     io_bind (act w CloseOutput) (\<lambda>_.
       act w (Chmod out 256)))))))))))"

section \<open>Properties\<close>

definition inside_ns3 :: "string list \<Rightarrow> string list" where
  "inside_ns3 cs = rev (takeWhile (\<lambda>c. c \<noteq> ''ns3'') (rev cs))"

lemma set_inside_ns3: "set (inside_ns3 cs) \<subseteq> set cs"
  by (auto simp: inside_ns3_def dest: set_takeWhileD)

lemma join_all_components: "\<forall>c \<in> set cs. component c \<Longrightarrow> join_all cs = (if cs = [] then Inl TypeError else Inr (join ''/'' cs))"
  using foldl_path_join by (cases cs) (simp_all add: join_all_def)

text \<open>C39. The search for the path of a header inside the ns-3 tree always ends: on a path with a directory \<open>ns3\<close> it
  returns the components after the last one, or raises a \<open>TypeError\<close> when there are none; on any other path it
  raises a \<open>ValueError\<close> when the path is absolute and an \<open>AssertionError\<close> when it is relative.\<close>

theorem ns3_relative_path_correct:
  assumes "cs \<noteq> []" "\<forall>c \<in> set cs. component c"
  shows "get_ns3_relative_path (abs_path cs) =
      (if ''ns3'' \<notin> set cs then Inl ValueError
       else if last cs = ''ns3'' then Inl TypeError else Inr (Some (join ''/'' (inside_ns3 cs)))) \<and>
    get_ns3_relative_path (join ''/'' cs) =
      (if ''ns3'' \<notin> set cs then Inl AssertionError
       else if last cs = ''ns3'' then Inl TypeError else Inr (Some (join ''/'' (inside_ns3 cs))))"
proof -
  have "\<forall>c \<in> set (inside_ns3 cs). component c" using assms(2) set_inside_ns3 by blast
  then have join: "join_all (inside_ns3 cs) = (if inside_ns3 cs = [] then Inl TypeError else Inr (join ''/'' (inside_ns3 cs)))"
    by (rule join_all_components)
  have empty: "inside_ns3 cs = [] \<longleftrightarrow> last cs = ''ns3''" using assms(1)
    by (cases cs rule: rev_cases) (auto simp: inside_ns3_def)
  have "join ''/'' cs \<noteq> []" using join_component_last [OF assms] by simp
  then show ?thesis
    using loop_abs [OF assms(2), of "[]"] loop_rel [OF assms(2), of "[]"] join empty
    by (auto simp: get_ns3_relative_path_def path_result_def inside_ns3_def) (simp_all add: abs_path_def)
qed

theorem ns3_relative_path_correct_witness:
  "get_ns3_relative_path ''/b/ns3/model/node.h'' = Inr (Some ''model/node.h'')"
proof -
  have "\<forall>c \<in> set [''b'', ''ns3'', ''model'', ''node.h'']. component c" by code_simp
  from ns3_relative_path_correct [OF _ this] show ?thesis by (simp add: abs_path_def inside_ns3_def)
qed

lemma dict_set_get [simp]: "dict_get (dict_set k v d) k' = (if k' = k then Inr v else dict_get d k')"
  by (simp add: dict_get_def)

lemma map_of_dict_update: "map_of (dict_update new d) k = (case map_of (rev new) k of Some v \<Rightarrow> Some v | None \<Rightarrow> map_of d k)"
proof (induction new arbitrary: d)
  case (Cons kv new)
  have "dict_update (kv # new) d = dict_update new (dict_set (fst kv) (snd kv) d)"
    by (simp add: dict_update_def split_beta)
  then show ?case using Cons by (auto simp: map_add_def split: option.splits)
qed (simp add: dict_update_def)



lemma annotate_simps [simp]:
  "map_of (global_annotations (annotate k v st)) k' = (if k' = k then Some v else map_of (global_annotations st) k')"
  "table (annotate k v st) = table st" "parameter_annotations (annotate k v st) = parameter_annotations st"
  by (simp_all add: annotate_def)




lemma first_steps [simp]:
  "table (fix_defaults d (method_annotations px d st)) = table st"
  "parameter_annotations (fix_defaults d (method_annotations px d st)) = parameter_annotations st"
  by (simp_all add: fix_defaults_def method_annotations_def Let_def)


lemma header_inside:
  assumes "\<forall>c \<in> set (pre @ ''ns3'' # post). component c" "post \<noteq> []" "''ns3'' \<notin> set post"
  shows "get_ns3_relative_path (abs_path (pre @ ''ns3'' # post)) = Inr (Some (join ''/'' post)) \<and> join ''/'' post \<noteq> []"
proof -
  have "takeWhile (\<lambda>c. c \<noteq> ''ns3'') (rev post @ ''ns3'' # rev pre) = rev post"
    by (subst takeWhile_append2) (use assms(3) in auto)
  then have inside: "inside_ns3 (pre @ ''ns3'' # post) = post" by (simp add: inside_ns3_def)
  moreover have "last (pre @ ''ns3'' # post) \<noteq> ''ns3''" using assms(2,3) last_in_set [of post] by (metis append_is_Nil_conv last_ConsR last_appendR list.distinct(1))
  moreover have "join ''/'' post \<noteq> []" using assms join_component_last [of post] by simp
  moreover have "join_all post = Inr (join ''/'' post)" using assms join_all_components [of post] by simp
  moreover have "ns3_path_loop [] (abs_path (pre @ ''ns3'' # post)) = join_all (inside_ns3 (pre @ ''ns3'' # post))"
    using loop_abs [OF assms(1), of "[]"] by (simp add: path_result_def inside_ns3_def)
  ultimately show ?thesis by (simp add: get_ns3_relative_path_def) (simp add: abs_path_def)
qed


definition sample_px :: pygccxml where
  "sample_px = \<lparr>template_args = (\<lambda>s. []), is_instantiation = (\<lambda>s. CHR ''<'' \<in> set s),
     template_parameters = (\<lambda>s. [''ns3::Node'']), declaration_file = (\<lambda>s. Some ''/b/ns3/node.h'')\<rparr>"

definition sample_headers :: "(string, string) dict" where
  "sample_headers = [(''node.h'', ''network''), (''ptr.h'', ''core''), (''config.h'', ''config-store'')]"

definition fresh_hook :: "string option list \<Rightarrow> annotation_table \<Rightarrow> hook_state" where
  "fresh_hook vs t = \<lparr>global_annotations = [], parameter_annotations = [], arg_defaults = vs, table = t\<rparr>"




text \<open>The annotations of the parameters of a function are applied once: the first time the hook sees a function
  with such an entry in the table it takes the annotations over and deletes them from the table, so that a
  second declaration with the same text gets none of them, while its other annotations stay.\<close>

definition takes_table :: "decl \<Rightarrow> string \<Rightarrow> string \<Rightarrow> bool" where
  "takes_table d m this_module = (kind d \<in> {MemberFunction, Constructor} \<or>
     kind d = FreeFunction \<and> m = this_module \<and> decl_name d \<noteq> ''PeekPointer'')"

lemma apply_function_item_simps:
  "apply_function_item key (''params'', AParams ps) st =
     st\<lparr>parameter_annotations := dict_update ps (parameter_annotations st),
        table := dict_set key (AList.delete ''params'' (dict_get_default (table st) key [])) (table st)\<rparr>"
  "k \<noteq> ''params'' \<Longrightarrow> apply_function_item key (k, v) st = st"
  by (simp_all add: apply_function_item_def)

lemma fold_no_params: "''params'' \<notin> fst ` set anns \<Longrightarrow> fold (apply_function_item key) anns st = st"
  by (induction anns arbitrary: st) (auto simp: apply_function_item_def)

lemma fold_params:
  "distinct (map fst anns) \<Longrightarrow> map_of anns ''params'' = Some (AParams ps) \<Longrightarrow>
   fold (apply_function_item key) anns st =
     st\<lparr>parameter_annotations := dict_update ps (parameter_annotations st),
        table := dict_set key (AList.delete ''params'' (dict_get_default (table st) key [])) (table st)\<rparr>"
proof (induction anns arbitrary: st)
  case (Cons kv anns)
  show ?case
  proof (cases "fst kv = ''params''")
    case True
    then have "''params'' \<notin> fst ` set anns" "snd kv = AParams ps" using Cons.prems by (auto split: if_splits)
    then show ?thesis using True fold_no_params by (cases kv) (simp add: apply_function_item_simps)
  next
    case False
    then show ?thesis using Cons by (cases kv) (simp add: apply_function_item_simps)
  qed
qed simp

lemma apply_function_table_params:
  assumes "dict_get (table st) (decl_text d) = Inr anns" "dict_ok anns" "map_of anns ''params'' = Some (AParams ps)"
  shows "parameter_annotations (apply_function_table d st) = dict_update ps (parameter_annotations st) \<and>
    dict_get (table (apply_function_table d st)) (decl_text d) = Inr (AList.delete ''params'' anns)"
proof -
  have "dict_get_default (table st) (decl_text d) [] = anns"
    using assms(1) by (auto simp: dict_get_def dict_get_default_def split: option.splits)
  then show ?thesis
    using assms fold_params [of anns ps "decl_text d" st] by (simp add: apply_function_table_def Let_def dict_ok_def)
qed

lemma apply_function_table_plain:
  assumes "dict_get (table st) (decl_text d) = Inr anns" "''params'' \<notin> fst ` set anns"
  shows "parameter_annotations (apply_function_table d st) = parameter_annotations st \<and>
    global_annotations (apply_function_table d st) = dict_update anns (global_annotations st)"
proof -
  have "dict_get_default (table st) (decl_text d) [] = anns"
    using assms(1) by (auto simp: dict_get_def dict_get_default_def split: option.splits)
  then show ?thesis using assms fold_no_params [of anns "decl_text d" st] by (simp add: apply_function_table_def Let_def)
qed

theorem params_applied_once:
  assumes "\<forall>c \<in> set (pre @ ''ns3'' # post). component c" "post \<noteq> []" "''ns3'' \<notin> set post"
    and "file_name d = abs_path (pre @ ''ns3'' # post)" "dict_get headers_map (join ''/'' post) = Inr m"
    and "takes_table d m this_module"
    and "dict_get t (decl_text d) = Inr anns" "dict_ok anns" "map_of anns ''params'' = Some (AParams ps)"
  shows "\<exists>st1 st2. pre_scan_hook px headers_map this_module d (fresh_hook vs t) = Inr st1 \<and>
    parameter_annotations st1 = dict_update ps [] \<and>
    pre_scan_hook px headers_map this_module d (fresh_hook vs (table st1)) = Inr st2 \<and>
    parameter_annotations st2 = [] \<and>
    (\<forall>k v. k \<noteq> ''params'' \<and> map_of anns k = Some v \<longrightarrow> map_of (global_annotations st2) k = Some v)"
proof -
  define first where "first st = fix_defaults d (method_annotations px d (annotate ''pygen_comment''
    (AStr (pygen_comment (join ''/'' post) m d)) st))" for st
  have hook: "pre_scan_hook px headers_map this_module d st = Inr (apply_function_table d (first st))" for st
    using header_inside [OF assms(1-3)] assms(4-6)
    by (auto simp: pre_scan_hook_def hook_body_def takes_table_def is_callable_def Let_def first_def)
  let ?st1 = "apply_function_table d (first (fresh_hook vs t))"
  have st1: "parameter_annotations ?st1 = dict_update ps []" "dict_get (table ?st1) (decl_text d) = Inr (AList.delete ''params'' anns)"
    using apply_function_table_params [of "first (fresh_hook vs t)" d anns ps] assms(7-9)
    by (simp_all add: first_def fresh_hook_def)
  let ?st2 = "apply_function_table d (first (fresh_hook vs (table ?st1)))"
  have "dict_get (table (first (fresh_hook vs (table ?st1)))) (decl_text d) = Inr (AList.delete ''params'' anns)"
    using st1(2) by (simp add: first_def fresh_hook_def)
  moreover have "''params'' \<notin> fst ` set (AList.delete ''params'' anns)"
    using dict_keys_delete [of "''params''" anns] by simp
  ultimately have st2: "parameter_annotations ?st2 = []"
    "global_annotations ?st2 = dict_update (AList.delete ''params'' anns) (global_annotations (first (fresh_hook vs (table ?st1))))"
    using apply_function_table_plain by (auto simp: first_def fresh_hook_def)
  have "map_of (rev (AList.delete ''params'' anns)) k = map_of anns k" if "k \<noteq> ''params''" for k
  proof -
    have "distinct (map fst (AList.delete ''params'' anns))" using assms(8) by (simp add: dict_ok_def distinct_delete)
    then have "map_of (rev (AList.delete ''params'' anns)) = map_of (AList.delete ''params'' anns)"
      by (intro map_of_inject_set [THEN iffD2]) (simp_all add: rev_map [symmetric])
    then show ?thesis using that by (simp add: delete_conv')
  qed
  then show ?thesis using hook st1(1) st2 by (auto simp: map_of_dict_update)
qed

definition sample_method :: decl where
  "sample_method = \<lparr>kind = MemberFunction, decl_name = ''GetSeed'', parent_name = ''RandomVariable'', decl_string = '''',
     decl_text = ''void ns3::RandomVariable::GetSeed(uint32_t * seed) const [member function]'',
     file_name = ''/b/ns3/node.h'', default_values = [None]\<rparr>"

theorem params_applied_once_witness:
  "\<exists>st1 st2. pre_scan_hook sample_px sample_headers ''network'' sample_method (fresh_hook [None] type_annotations) = Inr st1 \<and>
     parameter_annotations st1 = [(''seed'', [(''direction'', ''out''), (''array_length'', ''6'')])] \<and>
     pre_scan_hook sample_px sample_headers ''network'' sample_method (fresh_hook [None] (table st1)) = Inr st2 \<and>
     parameter_annotations st2 = []"
proof -
  let ?anns = "[(''params'', AParams [(''seed'', [(''direction'', ''out''), (''array_length'', ''6'')])])]"
  have "\<forall>c \<in> set ([''b''] @ ''ns3'' # [''node.h'']). component c" by code_simp
  moreover have "file_name sample_method = abs_path ([''b''] @ ''ns3'' # [''node.h''])" by code_simp
  moreover have "dict_get sample_headers (join ''/'' [''node.h'']) = Inr ''network''" by code_simp
  moreover have "takes_table sample_method ''network'' ''network''" by code_simp
  moreover have "dict_get type_annotations (decl_text sample_method) = Inr ?anns" by code_simp
  moreover have "dict_ok ?anns" "map_of ?anns ''params'' = Some (AParams [(''seed'', [(''direction'', ''out''), (''array_length'', ''6'')])])"
    by (simp_all add: dict_ok_def)
  moreover have "dict_update [(''seed'', [(''direction'', ''out''), (''array_length'', ''6'')])] [] =
      [(''seed'', [(''direction'', ''out''), (''array_length'', ''6'')])]" by code_simp
  ultimately show ?thesis
    using params_applied_once [of "[''b'']" "[''node.h'']" sample_method sample_headers "''network''" "''network''"
        type_annotations ?anns "[(''seed'', [(''direction'', ''out''), (''array_length'', ''6'')])]" sample_px "[None]"]
    by auto
qed

text \<open>The actions of a scan, in order: \<open>follows evs m\<close> says that \<open>m\<close> performs a first part of them, all of them
  when it returns.\<close>

definition follows :: "'ev list \<Rightarrow> ('ev, unit) io \<Rightarrow> bool" where
  "follows evs m = (\<exists>n. fst m = take n evs \<and> (snd m = Inr () \<longrightarrow> length evs \<le> n))"

lemma act_cases: "act w ev = ([ev], Inr ()) \<or> (\<exists>e. act w ev = ([ev], Inl e))"
  by (simp add: act_def tell_def io_return_def io_raise_def split: option.split)

lemma follows_act: "follows [ev] (act w ev)"
  using act_cases [of w ev] by (force simp: follows_def intro: exI [of _ 1])

lemma follows_step:
  assumes "m = ([ev], Inr ()) \<or> (\<exists>e. m = ([ev], Inl e))" "follows evs (f ())"
  shows "follows (ev # evs) (io_bind m f)"
proof -
  from assms(2) obtain n where n: "fst (f ()) = take n evs" "snd (f ()) = Inr () \<longrightarrow> length evs \<le> n"
    by (auto simp: follows_def)
  from assms(1) show ?thesis
  proof
    assume "m = ([ev], Inr ())"
    then show ?thesis using n unfolding follows_def by (intro exI [of _ "Suc n"]) simp
  next
    assume "\<exists>e. m = ([ev], Inl e)"
    then show ?thesis unfolding follows_def by (intro exI [of _ 1]) auto
  qed
qed

lemma ignoring_cases: "ignoring_OSError (act w ev) = ([ev], Inr ()) \<or> (\<exists>e. ignoring_OSError (act w ev) = ([ev], Inl e))"
  using act_cases [of w ev] by (auto simp: ignoring_OSError_def split: py_exn.split)

lemma raise_after_cases:
  "io_bind (act w ev) (\<lambda>_. case e of None \<Rightarrow> io_return () | Some e \<Rightarrow> io_raise e) = ([ev], Inr ()) \<or>
   (\<exists>e'. io_bind (act w ev) (\<lambda>_. case e of None \<Rightarrow> io_return () | Some e \<Rightarrow> io_raise e) = ([ev], Inl e'))"
  using act_cases [of w ev] by (auto simp: io_return_def io_raise_def split: option.split)

definition scan_actions :: "scan_world \<Rightarrow> pygccxml \<Rightarrow> string \<Rightarrow> string \<Rightarrow> string \<Rightarrow> scan_event list" where
  "scan_actions w px top_builddir module_name out =
     [Unlink out, MakeDirs (fst (os_split out)), OpenOutput out,
      ParseInit (scan_header w top_builddir module_name out), ScanTypes,
      WriteCallbacks (path_join (fst (os_split out)) ''callbacks_list.py'') (fst (scan_callback_classes px (module_classes w))),
      ScanMethods, ScanFunctions, ParseFinalize, CloseOutput, Chmod out 256]"

text \<open>A scan performs its actions in one order and stops at the first failure: it removes the old output, makes
  its directory (both may fail with an \<open>OSError\<close>), opens the output, parses the header it chose, runs the
  passes of the scanner with the list of the callback classes after the types, and closes the output and makes
  it read-only last; so an output left read-only is that of a scan all of whose passes succeeded.\<close>

theorem scan_actions_in_order:
  "\<exists>n. fst (ns3_module_scan w px top_builddir module_name out) = take n (scan_actions w px top_builddir module_name out) \<and>
    (snd (ns3_module_scan w px top_builddir module_name out) = Inr () \<longrightarrow>
       length (scan_actions w px top_builddir module_name out) \<le> n)"
proof -
  have "follows (scan_actions w px top_builddir module_name out) (ns3_module_scan w px top_builddir module_name out)"
    unfolding ns3_module_scan_def scan_actions_def case_prod_unfold
    by (intro follows_step ignoring_cases act_cases follows_act raise_after_cases)
  then show ?thesis by (simp add: follows_def)
qed

definition sample_world :: scan_world where
  "sample_world = \<lparr>path_exists = (\<lambda>p. False),
     raises = (\<lambda>ev. case ev of Unlink p \<Rightarrow> Some OSError | ScanMethods \<Rightarrow> Some GenericException | _ \<Rightarrow> None), module_classes = []\<rparr>"

theorem scan_actions_in_order_witness:
  "Chmod ''/s/out.py'' 256 \<notin> set (fst (ns3_module_scan sample_world sample_px ''/b'' ''core'' ''/s/out.py''))"
proof -
  have len: "length (fst (ns3_module_scan sample_world sample_px ''/b'' ''core'' ''/s/out.py'')) = 7" by code_simp
  obtain n where n: "fst (ns3_module_scan sample_world sample_px ''/b'' ''core'' ''/s/out.py'') =
      take n (scan_actions sample_world sample_px ''/b'' ''core'' ''/s/out.py'')"
    using scan_actions_in_order by blast
  have "length (scan_actions sample_world sample_px ''/b'' ''core'' ''/s/out.py'') = 11" by code_simp
  with len have "n = 7" unfolding n by (simp add: min_def split: if_splits)
  moreover have "Chmod ''/s/out.py'' 256 \<notin> set (take 7 (scan_actions sample_world sample_px ''/b'' ''core'' ''/s/out.py''))"
    by code_simp
  ultimately show ?thesis unfolding n by simp
qed

end
