(* ===== verification/Runs.thy ===== *)
theory Runs
  imports Main
begin

text \<open>
  Runs of a labelled step relation, and what follows of a run from a property of the single steps: the
  locales \<open>preserved\<close> (an invariant) and \<open>decreasing\<close> (a weight that every step but the silent ones reduces).
\<close>

inductive runs :: "('ev \<Rightarrow> 's \<Rightarrow> 's \<Rightarrow> bool) \<Rightarrow> 'ev list \<Rightarrow> 's \<Rightarrow> 's \<Rightarrow> bool" for step where
  run_none: "runs step [] s s"
| run_more: "runs step evs s s' \<Longrightarrow> step ev s' s'' \<Longrightarrow> runs step (evs @ [ev]) s s''"

lemma runs_append: "runs step ys s' s'' \<Longrightarrow> runs step xs s s' \<Longrightarrow> runs step (xs @ ys) s s''"
  by (induction rule: runs.induct) (auto intro: runs.intros simp flip: append_assoc)

lemma runs_Cons: "step ev s s' \<Longrightarrow> runs step evs s' s'' \<Longrightarrow> runs step (ev # evs) s s''"
  using runs_append [of step evs s' s'' "[ev]" s] run_more [OF run_none, of step ev s s'] by simp

locale preserved =
  fixes step :: "'ev \<Rightarrow> 's \<Rightarrow> 's \<Rightarrow> bool" and inv :: "'s \<Rightarrow> bool"
  assumes step_inv: "step ev s s' \<Longrightarrow> inv s \<Longrightarrow> inv s'"
begin

lemma runs_inv: "runs step evs s s' \<Longrightarrow> inv s \<Longrightarrow> inv s'"
  by (induction rule: runs.induct) (auto intro: step_inv)

end

locale decreasing =
  fixes step :: "'ev \<Rightarrow> 's \<Rightarrow> 's \<Rightarrow> bool" and silent :: "'ev \<Rightarrow> bool" and weight :: "'s \<Rightarrow> nat"
  assumes step_weight: "step ev s s' \<Longrightarrow> \<not> silent ev \<Longrightarrow> weight s' < weight s"
    and silent_weight: "step ev s s' \<Longrightarrow> silent ev \<Longrightarrow> weight s' \<le> weight s"
begin

lemma runs_bound: "runs step evs s s' \<Longrightarrow> length (filter (\<lambda>ev. \<not> silent ev) evs) + weight s' \<le> weight s"
proof (induction rule: runs.induct)
  case (run_more evs s s' ev s'')
  then show ?case using step_weight [of ev s' s''] silent_weight [of ev s' s''] by (cases "silent ev") auto
qed simp

lemma runs_stuck: "\<exists>evs s'. runs step evs s s' \<and> (\<forall>ev s''. step ev s' s'' \<longrightarrow> silent ev)"
proof (induction "weight s" arbitrary: s rule: less_induct)
  case less
  show ?case
  proof (cases "\<exists>ev s'. step ev s s' \<and> \<not> silent ev")
    case True
    then obtain ev s' where "step ev s s'" "\<not> silent ev" by blast
    with less [of s'] step_weight show ?thesis by (meson runs_Cons)
  qed (auto intro: run_none)
qed

end

text \<open>When the weight can be brought down in every state that is not at rest, a state at rest is never out of reach.\<close>

locale settling = decreasing step silent weight + preserved step inv
  for step :: "'ev \<Rightarrow> 's \<Rightarrow> 's \<Rightarrow> bool" and silent :: "'ev \<Rightarrow> bool" and weight :: "'s \<Rightarrow> nat" and inv :: "'s \<Rightarrow> bool" +
  fixes rest :: "'s \<Rightarrow> bool"
  assumes settle: "inv s \<Longrightarrow> \<not> rest s \<Longrightarrow> \<exists>evs s'. runs step evs s s' \<and> weight s' < weight s"
begin

lemma runs_rest: "inv s \<Longrightarrow> \<exists>evs s'. runs step evs s s' \<and> rest s'"
proof (induction "weight s" arbitrary: s rule: less_induct)
  case less
  show ?case
  proof (cases "rest s")
    case False
    with less.prems settle obtain evs s' where "runs step evs s s'" "weight s' < weight s" by blast
    moreover from this less.prems less.hyps [of s'] runs_inv obtain evs' s'' where
      "runs step evs' s' s''" "rest s''" by blast
    ultimately show ?thesis by (meson runs_append)
  qed (blast intro: run_none)
qed

end

end
