(* ===== verification/VisSim.thy ===== *)
theory VisSim
  imports PyPrelude Runs
begin

text \<open>
  The two threads of the visualizer, \<open>src/src/visualizer/visualizer/core.py\<close>: the simulation thread
  (\<open>SimulationThread.run\<close>) and the main thread, which runs the Gtk event loop and dispatches the callbacks
  of \<open>Visualizer\<close>. A state is a record of the variables the threads share, of the sources of the event loop,
  of the program counter of the simulation thread and of the stack of callbacks the main thread is in: the
  callback of the update timer runs a nested event loop while the simulator holds the lock. A step is one
  access to the shared state; \<open>vis_step\<close> computes the successor for an event, so that schedules evaluate.
  The C++ simulator is seen as its header documents it: a run ends at or before the time asked for, and
  forgets the pause messages of the run before.
\<close>

section \<open>State\<close>

datatype sim_pc = SimTest | SimWait | SimClear | SimBreak | SimAcquire | SimRun | SimExtend | SimIdleAdd
  | SimRelease | SimDone

datatype owner = ByView | BySim

datatype update_pc = TryLock | EventLoop | TakeMessages | UpdateView | SetTarget | ReleaseLock | ReleaseRaise
  | ShowDialog | TestPlaying | SetGo

datatype locked_pc = LAcquire | LBody | LRelease

datatype quit_pc = QRemoveTimer | QSetFlag | QSetGo | QJoin | QMainQuit

datatype locked_handler = UpdateModel | SetNodesOfInterest | TooltipQuery | BeginNodeDrag | NodeDragMotion
  | UpdateSelectedNode | AddInformationWindow | UpdateCaptureOptions | RunCode

datatype unlocked_handler = AutoScaleView | PopupNodeMenu

datatype frame =
    Update update_pc nat "string list"
  | Locked locked_handler locked_pc
  | Unlocked unlocked_handler
  | Quit quit_pc

record vis =
  pc :: sim_pc
  go :: bool
  quit :: bool
  lock :: "owner option"
  target_time :: rat
  now :: rat
  sample_period :: rat
  helper :: "string list"
  pause_messages :: "string list"
  idles :: nat
  autoscale :: bool
  frames :: "frame list"
  playing :: bool
  timeout_id :: "nat option"
  sources :: "nat list"
  next_source :: nat
  main_quit :: bool
  handled :: "(bool \<times> string list) list"
  produced :: "string list"

definition SAMPLE_PERIOD :: rat where
  "SAMPLE_PERIOD = 1 / 10"

definition source_remove :: "nat option \<Rightarrow> vis \<Rightarrow> vis" where
  "source_remove i s = (case i of None \<Rightarrow> s | Some i \<Rightarrow> s\<lparr>sources := removeAll i (sources s)\<rparr>)"

definition start_update_timer :: "vis \<Rightarrow> vis" where
  "start_update_timer s =
     (let s = source_remove (timeout_id s) s
      in s\<lparr>timeout_id := Some (next_source s), sources := sources s @ [next_source s],
           next_source := Suc (next_source s)\<rparr>)"

definition speed_changed :: "rat \<Rightarrow> vis \<Rightarrow> vis" where
  "speed_changed v s = start_update_timer (s\<lparr>sample_period := SAMPLE_PERIOD * v\<rparr>)"

text \<open>\<open>vis0\<close>: after \<open>__init__\<close>, whose \<open>create_gui\<close> ends in \<open>_speed_changed\<close>, and \<open>start\<close>.\<close>

definition vis0 :: vis where
  "vis0 = speed_changed 1
     \<lparr>pc = SimTest, go = False, quit = False, lock = None, target_time = 0, now = 0,
      sample_period = SAMPLE_PERIOD, helper = [], pause_messages = [], idles = 0, autoscale = True, frames = [],
      playing = False, timeout_id = None, sources = [], next_source = 1, main_quit = False, handled = [], produced = []\<rparr>"

text \<open>The handler of the play button, which \<open>set_active\<close> calls when the state of the button changes.\<close>

definition play_button_toggled :: "vis \<Rightarrow> vis" where
  "play_button_toggled s =
     (let s = s\<lparr>playing := \<not> playing s\<rparr>
      in if playing s then start_update_timer s else source_remove (timeout_id s) s)"

definition play_set_inactive :: "vis \<Rightarrow> vis" where
  "play_set_inactive s = (if playing s then play_button_toggled s else s)"

section \<open>The simulation thread\<close>

definition sim_step :: "vis \<Rightarrow> vis option" where
  "sim_step s =
     (case pc s of
        SimTest \<Rightarrow> Some (s\<lparr>pc := if quit s then SimDone else SimWait\<rparr>)
      | SimWait \<Rightarrow> if go s then Some (s\<lparr>pc := SimClear\<rparr>) else None
      | SimClear \<Rightarrow> Some (s\<lparr>go := False, pc := SimBreak\<rparr>)
      | SimBreak \<Rightarrow> Some (s\<lparr>pc := if quit s then SimDone else SimAcquire\<rparr>)
      | SimAcquire \<Rightarrow> if lock s = None then Some (s\<lparr>lock := Some BySim, pc := SimRun\<rparr>) else None
      | SimRun \<Rightarrow> None
      | SimExtend \<Rightarrow> Some (s\<lparr>pause_messages := pause_messages s @ helper s, pc := SimIdleAdd\<rparr>)
      | SimIdleAdd \<Rightarrow> Some (s\<lparr>idles := Suc (idles s), pc := SimRelease\<rparr>)
      | SimRelease \<Rightarrow> Some (s\<lparr>lock := None, pc := SimTest\<rparr>)
      | SimDone \<Rightarrow> None)"

text \<open>\<open>SimulatorRunUntil\<close>: the simulator stops at \<open>t\<close> with the pause messages \<open>ms\<close>.\<close>

definition sim_run :: "rat \<Rightarrow> string list \<Rightarrow> vis \<Rightarrow> vis option" where
  "sim_run t ms s =
     (if pc s = SimRun \<and> (if target_time s \<le> now s then t = now s \<and> ms = [] else now s \<le> t \<and> t \<le> target_time s)
      then Some (s\<lparr>now := t, helper := ms, produced := produced s @ ms, pc := SimExtend\<rparr>)
      else None)"

section \<open>The callbacks of the main thread\<close>

fun update_view_timeout :: "update_pc \<Rightarrow> nat \<Rightarrow> string list \<Rightarrow> frame list \<Rightarrow> vis \<Rightarrow> vis option" where
  "update_view_timeout TryLock i ms fs s =
     (if lock s = None then Some (s\<lparr>lock := Some ByView, frames := Update TakeMessages i ms # fs\<rparr>) else None)"
| "update_view_timeout EventLoop i ms fs s = None"
| "update_view_timeout TakeMessages i ms fs s =
     Some (s\<lparr>pause_messages := [], frames := Update UpdateView i (pause_messages s) # fs\<rparr>)"
| "update_view_timeout UpdateView i ms fs s = Some (s\<lparr>frames := Update SetTarget i ms # fs\<rparr>)"
| "update_view_timeout SetTarget i ms fs s =
     Some (s\<lparr>target_time := now s + sample_period s, frames := Update ReleaseLock i ms # fs\<rparr>)"
| "update_view_timeout ReleaseLock i ms fs s = Some (s\<lparr>lock := None, frames := Update ShowDialog i ms # fs\<rparr>)"
| "update_view_timeout ReleaseRaise i ms fs s =
     Some (source_remove (Some i) (s\<lparr>lock := None, handled := handled s @ [(False, ms)], frames := fs\<rparr>))"
| "update_view_timeout ShowDialog i ms fs s =
     Some (if ms = [] then s\<lparr>frames := Update TestPlaying i ms # fs\<rparr>
           else play_set_inactive (s\<lparr>handled := handled s @ [(True, ms)], frames := Update TestPlaying i ms # fs\<rparr>))"
| "update_view_timeout TestPlaying i ms fs s =
     Some (if playing s then s\<lparr>frames := Update SetGo i ms # fs\<rparr>
           else source_remove (Some i) (s\<lparr>timeout_id := None, frames := fs\<rparr>))"
| "update_view_timeout SetGo i ms fs s = Some (s\<lparr>go := True, frames := fs\<rparr>)"

fun locked_callback :: "locked_handler \<Rightarrow> locked_pc \<Rightarrow> frame list \<Rightarrow> vis \<Rightarrow> vis option" where
  "locked_callback h LAcquire fs s =
     (if lock s = None then Some (s\<lparr>lock := Some ByView, frames := Locked h LBody # fs\<rparr>) else None)"
| "locked_callback h LBody fs s = Some (s\<lparr>frames := Locked h LRelease # fs\<rparr>)"
| "locked_callback h LRelease fs s = Some (s\<lparr>lock := None, frames := fs\<rparr>)"

fun quit_callback :: "quit_pc \<Rightarrow> frame list \<Rightarrow> vis \<Rightarrow> vis option" where
  "quit_callback QRemoveTimer fs s =
     Some ((source_remove (timeout_id s) s)\<lparr>timeout_id := None, frames := Quit QSetFlag # fs\<rparr>)"
| "quit_callback QSetFlag fs s = Some (s\<lparr>quit := True, frames := Quit QSetGo # fs\<rparr>)"
| "quit_callback QSetGo fs s = Some (s\<lparr>go := True, frames := Quit QJoin # fs\<rparr>)"
| "quit_callback QJoin fs s = (if pc s = SimDone then Some (s\<lparr>frames := Quit QMainQuit # fs\<rparr>) else None)"
| "quit_callback QMainQuit fs s = Some (s\<lparr>main_quit := True, frames := fs\<rparr>)"

definition view_step :: "vis \<Rightarrow> vis option" where
  "view_step s =
     (case frames s of
        [] \<Rightarrow> None
      | Update u i ms # fs \<Rightarrow> update_view_timeout u i ms fs s
      | Locked h l # fs \<Rightarrow> locked_callback h l fs s
      | Unlocked h # fs \<Rightarrow> Some (s\<lparr>frames := fs\<rparr>)
      | Quit q # fs \<Rightarrow> quit_callback q fs s)"

text \<open>An exception of \<open>update_view\<close>: the \<open>finally\<close> releases the lock and the source is dropped.\<close>

definition view_raises :: "vis \<Rightarrow> vis option" where
  "view_raises s =
     (case frames s of
        Update UpdateView i ms # fs \<Rightarrow> Some (s\<lparr>frames := Update ReleaseRaise i ms # fs\<rparr>)
      | _ \<Rightarrow> None)"

text \<open>The loop of \<open>update_view_timeout\<close> that waits for the lock: a failed attempt, and the end of the events.\<close>

definition spin :: "vis \<Rightarrow> vis option" where
  "spin s =
     (case frames s of
        Update TryLock i ms # fs \<Rightarrow> if lock s = None then None else Some (s\<lparr>frames := Update EventLoop i ms # fs\<rparr>)
      | Update EventLoop i ms # fs \<Rightarrow> Some (s\<lparr>frames := Update TryLock i ms # fs\<rparr>)
      | _ \<Rightarrow> None)"

section \<open>The event loop\<close>

datatype dispatch = TimerFires nat | IdleRuns | PlayClicked | SpeedChanged rat | WindowDeleted
  | LockedCallback locked_handler | UnlockedCallback unlocked_handler

definition in_event_loop :: "vis \<Rightarrow> bool" where
  "in_event_loop s = (case frames s of [] \<Rightarrow> \<not> main_quit s | Update EventLoop i ms # fs \<Rightarrow> True | _ \<Rightarrow> False)"

fun source_of :: "frame \<Rightarrow> nat option" where
  "source_of (Update u i ms) = Some i"
| "source_of _ = None"

fun dispatch_step :: "dispatch \<Rightarrow> vis \<Rightarrow> vis option" where
  "dispatch_step (TimerFires i) s =
     (if i \<in> set (sources s) \<and> Some i \<notin> source_of ` set (frames s)
      then Some (s\<lparr>frames := Update TryLock i [] # frames s\<rparr>) else None)"
| "dispatch_step IdleRuns s =
     (if idles s = 0 then None else Some (s\<lparr>idles := idles s - 1, frames := Locked UpdateModel LAcquire # frames s\<rparr>))"
| "dispatch_step PlayClicked s = Some (play_button_toggled s)"
| "dispatch_step (SpeedChanged v) s = (if 1 / 100 \<le> v \<and> v \<le> 10 then Some (speed_changed v s) else None)"
| "dispatch_step WindowDeleted s = Some (s\<lparr>frames := Quit QRemoveTimer # frames s\<rparr>)"
| "dispatch_step (LockedCallback h) s =
     (if h = UpdateModel then None else Some (s\<lparr>frames := Locked h LAcquire # frames s\<rparr>))"
| "dispatch_step (UnlockedCallback h) s =
     (if h = AutoScaleView then
        if autoscale s then Some (s\<lparr>autoscale := False, frames := Unlocked h # frames s\<rparr>) else None
      else Some (s\<lparr>frames := Unlocked h # frames s\<rparr>))"

datatype vis_event = Sim | SimRuns rat "string list" | View | ViewRaises | Spin | Dispatch dispatch

fun vis_next :: "vis_event \<Rightarrow> vis \<Rightarrow> vis option" where
  "vis_next Sim s = sim_step s"
| "vis_next (SimRuns t ms) s = sim_run t ms s"
| "vis_next View s = view_step s"
| "vis_next ViewRaises s = view_raises s"
| "vis_next Spin s = spin s"
| "vis_next (Dispatch d) s = (if in_event_loop s then dispatch_step d s else None)"

definition vis_step :: "vis_event \<Rightarrow> vis \<Rightarrow> vis \<Rightarrow> bool" where
  "vis_step ev s s' = (vis_next ev s = Some s')"

fun vis_run :: "vis_event list \<Rightarrow> vis \<Rightarrow> vis option" where
  "vis_run [] s = Some s"
| "vis_run (ev # evs) s = (case vis_next ev s of None \<Rightarrow> None | Some s' \<Rightarrow> vis_run evs s')"

lemma runs_vis_run: "vis_run evs s = Some s' \<Longrightarrow> runs vis_step evs s s'"
  by (induction evs arbitrary: s) (auto split: option.splits simp: vis_step_def intro: run_none runs_Cons)

section \<open>Who holds the lock\<close>

definition sim_holds :: "sim_pc \<Rightarrow> bool" where
  "sim_holds p = (p \<in> {SimRun, SimExtend, SimIdleAdd, SimRelease})"

fun view_holds :: "frame \<Rightarrow> bool" where
  "view_holds (Update u i ms) = (u \<in> {TakeMessages, UpdateView, SetTarget, ReleaseLock, ReleaseRaise})"
| "view_holds (Locked h l) = (l \<noteq> LAcquire)"
| "view_holds _ = False"

fun in_nested_loop :: "frame \<Rightarrow> bool" where
  "in_nested_loop (Update EventLoop i ms) = True"
| "in_nested_loop _ = False"

definition lock_inv :: "vis \<Rightarrow> bool" where
  "lock_inv s = (lock s = (if sim_holds (pc s) then Some BySim
                           else if frames s \<noteq> [] \<and> view_holds (hd (frames s)) then Some ByView else None) \<and>
     (sim_holds (pc s) \<longrightarrow> frames s = [] \<or> \<not> view_holds (hd (frames s))) \<and>
     (\<forall>f \<in> set (tl (frames s)). in_nested_loop f))"

lemmas vis_defs = vis_step_def sim_step_def sim_run_def view_step_def view_raises_def spin_def in_event_loop_def
  play_set_inactive_def play_button_toggled_def speed_changed_def start_update_timer_def source_remove_def Let_def

lemma in_nested_loop_iff: "in_nested_loop f \<longleftrightarrow> (\<exists>i ms. f = Update EventLoop i ms)"
  by (cases f rule: in_nested_loop.cases) auto

lemma in_event_loop_frames: "in_event_loop s \<Longrightarrow> frames s = [] \<or> in_nested_loop (hd (frames s))"
  by (auto simp: in_event_loop_def split: list.splits frame.splits update_pc.splits)

lemma nested_not_holds: "in_nested_loop f \<Longrightarrow> \<not> view_holds f"
  by (auto simp: in_nested_loop_iff)

text \<open>A part of the step keeps \<open>P\<close> when its result, if there is one, satisfies \<open>P\<close>.\<close>

lemma lock_inv_sim: "lock_inv s \<Longrightarrow> pred_option lock_inv (sim_step s)"
  by (cases "pc s") (simp_all add: lock_inv_def sim_step_def sim_holds_def)

lemma lock_inv_run: "lock_inv s \<Longrightarrow> pred_option lock_inv (sim_run t ms s)"
  by (simp add: lock_inv_def sim_run_def sim_holds_def)

definition same_shared :: "vis \<Rightarrow> vis \<Rightarrow> bool" where
  "same_shared s' s = (pc s' = pc s \<and> lock s' = lock s \<and> go s' = go s \<and> quit s' = quit s \<and>
     (target_time s' = target_time s \<and> now s' = now s \<and> main_quit s' = main_quit s) \<and>
     (helper s' = helper s \<and> pause_messages s' = pause_messages s \<and> handled s' = handled s \<and> produced s' = produced s))"

lemma timer_frames [simp]:
  "frames (source_remove i s) = frames s" "frames (start_update_timer s) = frames s"
  "frames (speed_changed v s) = frames s" "frames (play_button_toggled s) = frames s"
  "frames (play_set_inactive s) = frames s"
  by (simp_all add: vis_defs split: option.splits)

lemma timer_shared [simp]:
  "same_shared (source_remove i s) s" "same_shared (play_button_toggled s) s" "same_shared (speed_changed v s) s"
  "same_shared (play_set_inactive s) s" "same_shared (start_update_timer s) s"
  by (simp_all add: same_shared_def vis_defs split: option.splits)

lemmas timer_fields [simp] = timer_shared [unfolded same_shared_def, THEN conjunct1]
  timer_shared [unfolded same_shared_def, THEN conjunct2, THEN conjunct1]
  timer_shared [unfolded same_shared_def, THEN conjunct2, THEN conjunct2, THEN conjunct1]
  timer_shared [unfolded same_shared_def, THEN conjunct2, THEN conjunct2, THEN conjunct2, THEN conjunct1]
  timer_shared [unfolded same_shared_def, THEN conjunct2, THEN conjunct2, THEN conjunct2, THEN conjunct2, THEN conjunct1]
  timer_shared [unfolded same_shared_def, THEN conjunct2, THEN conjunct2, THEN conjunct2, THEN conjunct2, THEN conjunct2]

lemma lock_inv_pop: "lock_inv s \<Longrightarrow> frames s = f # fs \<Longrightarrow> frames s' = fs \<Longrightarrow> pc s' = pc s \<Longrightarrow> 
  lock s' = (if view_holds f then None else lock s) \<Longrightarrow> lock_inv s'"
  by (cases fs) (simp_all add: lock_inv_def nested_not_holds)

lemma lock_inv_update:
  "lock_inv s \<Longrightarrow> frames s = Update u i ms # fs \<Longrightarrow> pred_option lock_inv (update_view_timeout u i ms fs s)"
  by (cases u; cases fs) (simp_all add: lock_inv_def nested_not_holds)

lemma lock_inv_locked:
  "lock_inv s \<Longrightarrow> frames s = Locked h l # fs \<Longrightarrow> pred_option lock_inv (locked_callback h l fs s)"
  by (cases l; cases fs) (simp_all add: lock_inv_def nested_not_holds)

lemma lock_inv_quit:
  "lock_inv s \<Longrightarrow> frames s = Quit q # fs \<Longrightarrow> pred_option lock_inv (quit_callback q fs s)"
  by (cases q; cases fs) (simp_all add: lock_inv_def nested_not_holds)

lemma lock_inv_view: "lock_inv s \<Longrightarrow> pred_option lock_inv (view_step s)"
  by (simp add: view_step_def lock_inv_update lock_inv_locked lock_inv_quit lock_inv_pop
      split: list.split frame.split)

lemma lock_inv_raises: "lock_inv s \<Longrightarrow> pred_option lock_inv (view_raises s)"
  by (auto simp: view_raises_def lock_inv_def split: list.split frame.split update_pc.split)

lemma lock_inv_spin: "lock_inv s \<Longrightarrow> pred_option lock_inv (spin s)"
  by (simp add: spin_def lock_inv_def split: list.split frame.split update_pc.split)

fun at_entry :: "frame \<Rightarrow> bool" where
  "at_entry (Update u i ms) = (u = TryLock \<and> ms = [])"
| "at_entry (Locked h l) = (l = LAcquire)"
| "at_entry (Unlocked h) = True"
| "at_entry (Quit q) = (q = QRemoveTimer)"

lemma dispatch_shape:
  "pred_option (\<lambda>s'. same_shared s' s \<and> (frames s' = frames s \<or> (\<exists>f. at_entry f \<and> frames s' = f # frames s)))
     (dispatch_step d s)"
  by (cases d) (simp_all add: same_shared_def)

lemma entry_not_holds: "at_entry f \<Longrightarrow> \<not> view_holds f"
  by (cases f) auto

lemma dispatch_keeps:
  assumes "\<And>f s'. same_shared s' s \<Longrightarrow> frames s' = frames s \<Longrightarrow> P s'"
    and "\<And>f s'. same_shared s' s \<Longrightarrow> at_entry f \<Longrightarrow> frames s' = f # frames s \<Longrightarrow> P s'"
  shows "pred_option P (dispatch_step d s)"
  using dispatch_shape [of s d] assms by (auto simp: option.pred_set)

lemma vis_step_keeps:
  assumes "vis_step ev s s'"
    and "pred_option P (sim_step s)" "\<And>t ms. pred_option P (sim_run t ms s)" "pred_option P (view_step s)"
    and "pred_option P (view_raises s)" "pred_option P (spin s)"
    and "\<And>d. in_event_loop s \<Longrightarrow> pred_option P (dispatch_step d s)"
  shows "P s'"
  using assms by (cases ev) (auto simp: vis_step_def option.pred_set split: if_split_asm)

lemma lock_inv_dispatch: "lock_inv s \<Longrightarrow> in_event_loop s \<Longrightarrow> pred_option lock_inv (dispatch_step d s)"
  by (rule dispatch_keeps; cases "frames s")
    (simp_all add: lock_inv_def same_shared_def entry_not_holds, auto dest!: in_event_loop_frames dest: nested_not_holds)

section \<open>The quit signal\<close>

text \<open>A simulation thread that waits after the window was closed has its signal set, or gets it in the next
  step of \<open>_quit\<close>; and \<open>_quit\<close> joins a thread that was told to stop.\<close>

definition top_frame :: "vis \<Rightarrow> frame option" where
  "top_frame s = (case frames s of [] \<Rightarrow> None | f # fs \<Rightarrow> Some f)"

definition quit_inv :: "vis \<Rightarrow> bool" where
  "quit_inv s = ((quit s \<and> pc s = SimWait \<longrightarrow> go s \<or> top_frame s = Some (Quit QSetGo)) \<and>
     (\<forall>q \<in> {QSetGo, QJoin, QMainQuit}. top_frame s = Some (Quit q) \<longrightarrow> quit s))"

lemma top_frame_Nil [simp]: "frames s = [] \<Longrightarrow> top_frame s = None"
  and top_frame_Cons [simp]: "frames s = f # fs \<Longrightarrow> top_frame s = Some f"
  by (simp_all add: top_frame_def)

lemma nested_frames: "lock_inv s \<Longrightarrow> frames s = f # g # fs \<Longrightarrow> in_nested_loop g"
  by (simp add: lock_inv_def)

lemma nested_not_quit: "in_nested_loop f \<Longrightarrow> f \<noteq> Quit q"
  by (auto simp: in_nested_loop_iff)

lemma top_frame_in_loop: "in_event_loop s \<Longrightarrow> top_frame s \<noteq> Some (Quit q)"
  by (cases "frames s") (auto dest!: in_event_loop_frames dest: nested_not_quit)

lemma quit_inv_sim: "quit_inv s \<Longrightarrow> pred_option quit_inv (sim_step s)"
  by (cases "pc s") (simp_all add: sim_step_def quit_inv_def top_frame_def)

lemma quit_inv_run: "quit_inv s \<Longrightarrow> pred_option quit_inv (sim_run t ms s)"
  by (simp add: sim_run_def quit_inv_def top_frame_def)

lemma quit_inv_update: "lock_inv s \<Longrightarrow> quit_inv s \<Longrightarrow> frames s = Update u i ms # fs \<Longrightarrow>
    pred_option quit_inv (update_view_timeout u i ms fs s)"
  by (cases u; cases fs) (simp_all add: quit_inv_def nested_not_quit [OF nested_frames])

lemma quit_inv_locked: "lock_inv s \<Longrightarrow> quit_inv s \<Longrightarrow> frames s = Locked h l # fs \<Longrightarrow>
    pred_option quit_inv (locked_callback h l fs s)"
  by (cases l; cases fs) (simp_all add: quit_inv_def nested_not_quit [OF nested_frames])

lemma quit_inv_quit: "lock_inv s \<Longrightarrow> quit_inv s \<Longrightarrow> frames s = Quit q # fs \<Longrightarrow>
    pred_option quit_inv (quit_callback q fs s)"
  by (cases q; cases fs) (simp_all add: quit_inv_def nested_not_quit [OF nested_frames])

lemma quit_inv_unlocked: "lock_inv s \<Longrightarrow> quit_inv s \<Longrightarrow> frames s = Unlocked h # fs \<Longrightarrow> quit_inv (s\<lparr>frames := fs\<rparr>)"
  by (cases fs) (simp_all add: quit_inv_def nested_not_quit [OF nested_frames])

lemma quit_inv_view: "lock_inv s \<Longrightarrow> quit_inv s \<Longrightarrow> pred_option quit_inv (view_step s)"
  by (simp add: view_step_def quit_inv_update quit_inv_locked quit_inv_quit quit_inv_unlocked
      split: list.split frame.split)

lemma quit_inv_raises: "quit_inv s \<Longrightarrow> pred_option quit_inv (view_raises s)"
  by (auto simp: view_raises_def quit_inv_def split: list.split frame.split update_pc.split)

lemma quit_inv_spin: "quit_inv s \<Longrightarrow> pred_option quit_inv (spin s)"
  by (auto simp: spin_def quit_inv_def split: list.split frame.split update_pc.split)

lemma entry_not_quit: "at_entry f \<Longrightarrow> f \<noteq> Quit QSetGo \<and> f \<noteq> Quit QJoin \<and> f \<noteq> Quit QMainQuit"
  by (cases f) simp_all

lemma quit_inv_dispatch: "quit_inv s \<Longrightarrow> in_event_loop s \<Longrightarrow> pred_option quit_inv (dispatch_step d s)"
proof (rule dispatch_keeps)
  fix s'
  assume "quit_inv s" "same_shared s' s" "frames s' = frames s"
  moreover from this have "top_frame s' = top_frame s" by (simp add: top_frame_def)
  ultimately show "quit_inv s'" by (simp add: quit_inv_def same_shared_def)
qed (simp add: quit_inv_def same_shared_def entry_not_quit top_frame_in_loop)

section \<open>The pause messages\<close>

fun held :: "frame \<Rightarrow> string list" where
  "held (Update u i ms) = (if u \<in> {UpdateView, SetTarget, ReleaseLock, ReleaseRaise, ShowDialog} then ms else [])"
| "held _ = []"

definition messages_inv :: "vis \<Rightarrow> bool" where
  "messages_inv s =
     (produced s = concat (map snd (handled s)) @ (case frames s of [] \<Rightarrow> [] | f # fs \<Rightarrow> held f) @ pause_messages s @
        (if pc s = SimExtend then helper s else []) \<and>
      (\<forall>i ms. top_frame s = Some (Update TestPlaying i ms) \<longrightarrow> ms = [] \<or> \<not> playing s) \<and>
      (\<forall>i ms. top_frame s = Some (Update SetGo i ms) \<longrightarrow> ms = []))"

lemma nested_held: "in_nested_loop f \<Longrightarrow> held f = []"
  by (auto simp: in_nested_loop_iff)

lemma nested_not_update: "in_nested_loop f \<Longrightarrow> u \<noteq> EventLoop \<Longrightarrow> f \<noteq> Update u i ms"
  by (auto simp: in_nested_loop_iff)

lemma timer_playing [simp]:
  "playing (source_remove i s) = playing s" "playing (start_update_timer s) = playing s"
  "playing (speed_changed v s) = playing s" "\<not> playing (play_set_inactive s)"
  by (simp_all add: vis_defs split: option.splits)

lemma messages_inv_sim: "messages_inv s \<Longrightarrow> pred_option messages_inv (sim_step s)"
  by (cases "pc s") (simp_all add: sim_step_def messages_inv_def top_frame_def)

lemma messages_inv_run: "messages_inv s \<Longrightarrow> pred_option messages_inv (sim_run t ms s)"
  by (simp add: sim_run_def messages_inv_def top_frame_def)

lemma messages_inv_update: "lock_inv s \<Longrightarrow> messages_inv s \<Longrightarrow> frames s = Update u i ms # fs \<Longrightarrow>
    pred_option messages_inv (update_view_timeout u i ms fs s)"
  by (cases u; cases fs) (auto simp: messages_inv_def nested_not_update nested_held lock_inv_def sim_holds_def)

lemma messages_inv_locked: "lock_inv s \<Longrightarrow> messages_inv s \<Longrightarrow> frames s = Locked h l # fs \<Longrightarrow>
    pred_option messages_inv (locked_callback h l fs s)"
  by (cases l; cases fs) (simp_all add: messages_inv_def nested_not_update nested_held lock_inv_def)

lemma messages_inv_quit: "lock_inv s \<Longrightarrow> messages_inv s \<Longrightarrow> frames s = Quit q # fs \<Longrightarrow>
    pred_option messages_inv (quit_callback q fs s)"
  by (cases q; cases fs) (simp_all add: messages_inv_def nested_not_update nested_held lock_inv_def)

lemma messages_inv_unlocked:
  "lock_inv s \<Longrightarrow> messages_inv s \<Longrightarrow> frames s = Unlocked h # fs \<Longrightarrow> messages_inv (s\<lparr>frames := fs\<rparr>)"
  by (cases fs) (simp_all add: messages_inv_def nested_not_update nested_held lock_inv_def)

lemma messages_inv_view: "lock_inv s \<Longrightarrow> messages_inv s \<Longrightarrow> pred_option messages_inv (view_step s)"
  by (simp add: view_step_def messages_inv_update messages_inv_locked messages_inv_quit messages_inv_unlocked
      split: list.split frame.split)

lemma messages_inv_raises: "messages_inv s \<Longrightarrow> pred_option messages_inv (view_raises s)"
  by (auto simp: view_raises_def messages_inv_def split: list.split frame.split update_pc.split)

lemma messages_inv_spin: "messages_inv s \<Longrightarrow> pred_option messages_inv (spin s)"
  by (auto simp: spin_def messages_inv_def split: list.split frame.split update_pc.split)

lemma entry_not_update: "at_entry f \<Longrightarrow> u \<noteq> TryLock \<Longrightarrow> f \<noteq> Update u i ms"
  and entry_held: "at_entry f \<Longrightarrow> held f = []"
  by (cases f, auto)+

lemma in_loop_cases: "in_event_loop s \<Longrightarrow> (frames s = [] \<Longrightarrow> P) \<Longrightarrow>
    (\<And>f fs. frames s = f # fs \<Longrightarrow> in_nested_loop f \<Longrightarrow> P) \<Longrightarrow> P"
  by (cases "frames s") (auto dest: in_event_loop_frames)

lemma messages_inv_dispatch: "messages_inv s \<Longrightarrow> in_event_loop s \<Longrightarrow> pred_option messages_inv (dispatch_step d s)"
  by (rule dispatch_keeps; erule in_loop_cases)
    (simp_all add: messages_inv_def same_shared_def entry_not_update entry_held nested_not_update nested_held)

section \<open>The clock of the simulator\<close>

text \<open>The simulator never runs past the time the view asked for.\<close>

definition clock_inv :: "vis \<Rightarrow> bool" where
  "clock_inv s = (now s \<le> target_time s \<and> 0 < sample_period s)"

lemma timer_period [simp]:
  "sample_period (source_remove i s) = sample_period s" "sample_period (start_update_timer s) = sample_period s"
  "sample_period (play_button_toggled s) = sample_period s" "sample_period (play_set_inactive s) = sample_period s"
  "sample_period (speed_changed v s) = SAMPLE_PERIOD * v"
  by (simp_all add: vis_defs split: option.splits)

lemma clock_inv_sim: "clock_inv s \<Longrightarrow> pred_option clock_inv (sim_step s)"
  by (cases "pc s") (simp_all add: sim_step_def clock_inv_def)

lemma clock_inv_run: "clock_inv s \<Longrightarrow> pred_option clock_inv (sim_run t ms s)"
  by (simp add: sim_run_def clock_inv_def)

lemma clock_inv_update: "clock_inv s \<Longrightarrow> pred_option clock_inv (update_view_timeout u i ms fs s)"
  by (cases u) (simp_all add: clock_inv_def)

lemma clock_inv_view: "clock_inv s \<Longrightarrow> pred_option clock_inv (view_step s)"
proof -
  assume inv: "clock_inv s"
  have "pred_option clock_inv (locked_callback h l fs s)" for h l fs
    using inv by (cases l) (simp_all add: clock_inv_def)
  moreover have "pred_option clock_inv (quit_callback q fs s)" for q fs
    using inv by (cases q) (simp_all add: clock_inv_def)
  moreover have "clock_inv (s\<lparr>frames := fs\<rparr>)" for fs
    using inv by (simp add: clock_inv_def)
  ultimately show ?thesis
    using inv by (simp add: view_step_def clock_inv_update split: list.split frame.split)
qed

lemma clock_inv_raises: "clock_inv s \<Longrightarrow> pred_option clock_inv (view_raises s)"
  by (auto simp: view_raises_def clock_inv_def split: list.split frame.split update_pc.split)

lemma clock_inv_spin: "clock_inv s \<Longrightarrow> pred_option clock_inv (spin s)"
  by (auto simp: spin_def clock_inv_def split: list.split frame.split update_pc.split)

lemma clock_inv_dispatch: "clock_inv s \<Longrightarrow> pred_option clock_inv (dispatch_step d s)"
  by (cases d) (simp_all add: clock_inv_def SAMPLE_PERIOD_def)

section \<open>The invariant\<close>

definition vis_inv :: "vis \<Rightarrow> bool" where
  "vis_inv s = (lock_inv s \<and> quit_inv s \<and> messages_inv s \<and> clock_inv s)"

lemma vis_inv_step: "vis_step ev s s' \<Longrightarrow> vis_inv s \<Longrightarrow> vis_inv s'"
  unfolding vis_inv_def
  by (intro conjI; elim conjE; erule vis_step_keeps)
    (simp_all add: lock_inv_sim lock_inv_run lock_inv_view lock_inv_raises lock_inv_spin lock_inv_dispatch
      quit_inv_sim quit_inv_run quit_inv_view quit_inv_raises quit_inv_spin quit_inv_dispatch
      messages_inv_sim messages_inv_run messages_inv_view messages_inv_raises messages_inv_spin messages_inv_dispatch
      clock_inv_sim clock_inv_run clock_inv_view clock_inv_raises clock_inv_spin clock_inv_dispatch)

interpretation vis: preserved vis_step vis_inv
  by unfold_locales (rule vis_inv_step)

definition vis_reachable :: "vis \<Rightarrow> bool" where
  "vis_reachable s = (\<exists>evs. runs vis_step evs vis0 s)"

lemma vis0_fields [simp]: "frames vis0 = []" "pc vis0 = SimTest" "lock vis0 = None"
  by (simp_all add: vis0_def speed_changed_def start_update_timer_def source_remove_def)

lemma vis_reachable_inv: "vis_reachable s \<Longrightarrow> vis_inv s"
proof -
  assume "vis_reachable s"
  moreover have "vis_inv vis0"
    by (simp add: vis_inv_def lock_inv_def quit_inv_def messages_inv_def clock_inv_def sim_holds_def)
      (simp add: vis0_def vis_defs SAMPLE_PERIOD_def)
  ultimately show ?thesis unfolding vis_reachable_def using vis.runs_inv by blast
qed

lemma vis_run_reachable: "vis_run evs vis0 = Some s \<Longrightarrow> vis_reachable s"
  unfolding vis_reachable_def using runs_vis_run by blast

section \<open>Progress\<close>

text \<open>Without new callbacks the two threads come to rest: every step but the polling of the lock in
  \<open>update_view_timeout\<close> reduces a weight, and a state with nothing but polling left is at rest.\<close>

definition quiet_step :: "vis_event \<Rightarrow> vis \<Rightarrow> vis \<Rightarrow> bool" where
  "quiet_step ev s s' = (vis_step ev s s' \<and> (\<forall>d. ev \<noteq> Dispatch d))"

definition sim_weight :: "vis \<Rightarrow> nat" where
  "sim_weight s =
     (let g = (if go s then 9 else 0)
      in case pc s of
           SimDone \<Rightarrow> 0 | SimWait \<Rightarrow> 1 + g | SimClear \<Rightarrow> 9 | SimTest \<Rightarrow> 2 + g | SimRelease \<Rightarrow> 3 + g | SimIdleAdd \<Rightarrow> 4 + g
         | SimExtend \<Rightarrow> 5 + g | SimRun \<Rightarrow> 6 + g | SimAcquire \<Rightarrow> 7 + g | SimBreak \<Rightarrow> 8 + g)"

fun frame_weight :: "frame \<Rightarrow> nat" where
  "frame_weight (Update u i ms) =
     (case u of SetGo \<Rightarrow> 10 | TestPlaying \<Rightarrow> 11 | ShowDialog \<Rightarrow> 12 | ReleaseLock \<Rightarrow> 13 | SetTarget \<Rightarrow> 14
      | UpdateView \<Rightarrow> 15 | TakeMessages \<Rightarrow> 16 | TryLock \<Rightarrow> 17 | EventLoop \<Rightarrow> 17 | ReleaseRaise \<Rightarrow> 1)"
| "frame_weight (Locked h l) = (case l of LAcquire \<Rightarrow> 3 | LBody \<Rightarrow> 2 | LRelease \<Rightarrow> 1)"
| "frame_weight (Unlocked h) = 1"
| "frame_weight (Quit q) =
     (case q of QRemoveTimer \<Rightarrow> 14 | QSetFlag \<Rightarrow> 13 | QSetGo \<Rightarrow> 12 | QJoin \<Rightarrow> 2 | QMainQuit \<Rightarrow> 1)"

definition vis_weight :: "vis \<Rightarrow> nat" where
  "vis_weight s = sim_weight s + sum_list (map frame_weight (frames s))"

lemma sim_weight_same: "pc s' = pc s \<Longrightarrow> go s' = go s \<Longrightarrow> sim_weight s' = sim_weight s"
  by (simp add: sim_weight_def)

lemma sim_weight_go: "pc s' = pc s \<Longrightarrow> sim_weight s' \<le> sim_weight s + 9"
  by (simp add: sim_weight_def split: sim_pc.split)

lemma weight_sim: "pred_option (\<lambda>s'. vis_weight s' < vis_weight s) (sim_step s)"
  by (cases "pc s") (simp_all add: sim_step_def vis_weight_def sim_weight_def)

lemma weight_run: "pred_option (\<lambda>s'. vis_weight s' < vis_weight s) (sim_run t ms s)"
  by (simp add: sim_run_def vis_weight_def sim_weight_def)

lemma timer_weight [simp]:
  "sim_weight (source_remove i s) = sim_weight s" "sim_weight (play_set_inactive s) = sim_weight s"
  by (simp_all add: sim_weight_def)

lemma frame_fields_weight [simp]:
  "sim_weight (s\<lparr>frames := fs\<rparr>) = sim_weight s" "sim_weight (s\<lparr>lock := l\<rparr>) = sim_weight s"
  "sim_weight (s\<lparr>pause_messages := ms\<rparr>) = sim_weight s" "sim_weight (s\<lparr>target_time := t\<rparr>) = sim_weight s"
  "sim_weight (s\<lparr>handled := hs\<rparr>) = sim_weight s" "sim_weight (s\<lparr>timeout_id := i\<rparr>) = sim_weight s"
  "sim_weight (s\<lparr>quit := b\<rparr>) = sim_weight s" "sim_weight (s\<lparr>main_quit := b\<rparr>) = sim_weight s"
  by (simp_all add: sim_weight_def)

lemma weight_update: "frames s = Update u i ms # fs \<Longrightarrow>
    pred_option (\<lambda>s'. vis_weight s' < vis_weight s) (update_view_timeout u i ms fs s)"
  using sim_weight_go [of "s\<lparr>go := True\<rparr>" s]
  by (cases u) (simp_all add: vis_weight_def)

lemma weight_locked: "frames s = Locked h l # fs \<Longrightarrow>
    pred_option (\<lambda>s'. vis_weight s' < vis_weight s) (locked_callback h l fs s)"
  by (cases l) (simp_all add: vis_weight_def)

lemma weight_quit: "frames s = Quit q # fs \<Longrightarrow>
    pred_option (\<lambda>s'. vis_weight s' < vis_weight s) (quit_callback q fs s)"
  using sim_weight_go [of "s\<lparr>go := True\<rparr>" s]
  by (cases q) (simp_all add: vis_weight_def)

lemma weight_view: "pred_option (\<lambda>s'. vis_weight s' < vis_weight s) (view_step s)"
  by (simp add: view_step_def weight_update weight_locked weight_quit split: list.split frame.split)
    (auto simp: vis_weight_def)

lemma weight_raises: "pred_option (\<lambda>s'. vis_weight s' < vis_weight s) (view_raises s)"
  by (auto simp: view_raises_def vis_weight_def split: list.split frame.split update_pc.split)

lemma weight_spin: "pred_option (\<lambda>s'. vis_weight s' = vis_weight s) (spin s)"
  by (auto simp: spin_def vis_weight_def split: list.split frame.split update_pc.split)

interpretation quiet: decreasing quiet_step "\<lambda>ev. ev = Spin" vis_weight
proof
  fix ev s s'
  assume "quiet_step ev s s'" "ev \<noteq> Spin"
  then show "vis_weight s' < vis_weight s"
    using weight_sim [of s] weight_run [of s] weight_view [of s] weight_raises [of s]
    by (cases ev) (auto simp: quiet_step_def vis_step_def option.pred_set)
next
  fix ev s s'
  assume "quiet_step ev s s'" "ev = Spin"
  then show "vis_weight s' \<le> vis_weight s"
    using weight_spin [of s] by (simp add: quiet_step_def vis_step_def option.pred_set)
qed

definition at_rest :: "vis \<Rightarrow> bool" where
  "at_rest s = (frames s = [] \<and> (pc s = SimDone \<or> pc s = SimWait \<and> \<not> go s))"

lemma sim_enabled:
  assumes "pc s \<noteq> SimDone" "pc s = SimWait \<Longrightarrow> go s" "pc s = SimAcquire \<Longrightarrow> lock s = None"
  shows "\<exists>ev s'. quiet_step ev s s' \<and> ev \<noteq> Spin"
proof (cases "pc s = SimRun")
  case True
  then have "\<exists>s'. quiet_step (SimRuns (now s) []) s s'" by (simp add: sim_run_def quiet_step_def vis_step_def)
  then show ?thesis by blast
next
  case False
  then have "\<exists>s'. quiet_step Sim s s'"
    using assms by (cases "pc s") (simp_all add: sim_step_def quiet_step_def vis_step_def)
  then show ?thesis by blast
qed

lemma view_enabled:
  assumes "frames s = f # fs" "lock s = None \<or> view_holds f" "\<not> in_nested_loop f" "f = Quit QJoin \<Longrightarrow> pc s = SimDone"
  shows "\<exists>ev s'. quiet_step ev s s' \<and> ev \<noteq> Spin"
proof -
  have "\<exists>s'. view_step s = Some s'"
  proof (cases f)
    case (Update u i ms)
    then show ?thesis using assms by (cases u) (simp_all add: view_step_def)
  next
    case (Locked h l)
    then show ?thesis using assms by (cases l) (simp_all add: view_step_def)
  next
    case (Quit q)
    then show ?thesis using assms by (cases q) (simp_all add: view_step_def)
  qed (use assms in \<open>simp add: view_step_def\<close>)
  then have "\<exists>s'. quiet_step View s s'" by (simp add: quiet_step_def vis_step_def)
  then show ?thesis by blast
qed

lemma quiet_reduces: "quiet_step ev s s' \<Longrightarrow> ev \<noteq> Spin \<Longrightarrow> \<exists>evs s'. runs quiet_step evs s s' \<and> vis_weight s' < vis_weight s"
  using quiet.step_weight by (blast intro: runs_Cons run_none)

lemma not_at_rest:
  assumes inv: "vis_inv s" and rest: "\<not> at_rest s"
  shows "\<exists>evs s'. runs quiet_step evs s s' \<and> vis_weight s' < vis_weight s"
proof -
  have linv: "lock_inv s" using inv by (simp add: vis_inv_def)
  show ?thesis
  proof (cases "pc s \<noteq> SimDone \<and> (pc s = SimWait \<longrightarrow> go s) \<and> (pc s = SimAcquire \<longrightarrow> lock s = None)")
    case True
    then show ?thesis using sim_enabled [of s] quiet_reduces by blast
  next
    case False
    then have sim: "\<not> sim_holds (pc s)" by (auto simp: sim_holds_def)
    show ?thesis
    proof (cases "frames s")
      case Nil
      then have "lock s = None" using linv sim by (simp add: lock_inv_def)
      then show ?thesis using False rest Nil by (auto simp: at_rest_def)
    next
      case (Cons f fs)
      have lk: "lock s = (if view_holds f then Some ByView else None)" using linv sim Cons by (simp add: lock_inv_def)
      show ?thesis
      proof (cases "in_nested_loop f")
        case True
        then obtain i ms where f: "f = Update EventLoop i ms" by (auto simp: in_nested_loop_iff)
        let ?s1 = "s\<lparr>frames := Update TryLock i ms # fs\<rparr>"
        have "quiet_step Spin s ?s1" using f Cons by (simp add: quiet_step_def vis_step_def spin_def)
        moreover from this have "vis_weight ?s1 \<le> vis_weight s" by (rule quiet.silent_weight) simp
        moreover have "\<exists>ev s'. quiet_step ev ?s1 s' \<and> ev \<noteq> Spin"
          using lk f by (intro view_enabled [of _ "Update TryLock i ms" fs]) simp_all
        ultimately show ?thesis using quiet_reduces by (meson order_less_le_trans runs_Cons)
      next
        case False
        have "f = Quit QJoin \<Longrightarrow> pc s = SimDone"
          using inv lk Cons \<open>\<not> (pc s \<noteq> SimDone \<and> _ \<and> _)\<close> by (auto simp: vis_inv_def quit_inv_def)
        then have "\<exists>ev s'. quiet_step ev s s' \<and> ev \<noteq> Spin"
          using lk Cons False by (intro view_enabled) auto
        then show ?thesis using quiet_reduces by blast
      qed
    qed
  qed
qed

interpretation settled: settling quiet_step "\<lambda>ev. ev = Spin" vis_weight vis_inv at_rest
  by unfold_locales (auto simp: quiet_step_def intro: vis_inv_step dest: not_at_rest)

text \<open>Closing the window ends both threads.\<close>

definition closing :: "vis \<Rightarrow> bool" where
  "closing s = ((\<exists>q. Quit q \<in> set (frames s)) \<or> main_quit s \<and> quit s)"

lemma closing_sim: "closing s \<Longrightarrow> pred_option closing (sim_step s)"
  by (cases "pc s") (simp_all add: sim_step_def closing_def)

lemma closing_run: "closing s \<Longrightarrow> pred_option closing (sim_run t ms s)"
  by (simp add: sim_run_def closing_def)

lemma timer_quit [simp]: 
  "quit (source_remove i s) = quit s" "main_quit (source_remove i s) = main_quit s"
  "quit (play_set_inactive s) = quit s" "main_quit (play_set_inactive s) = main_quit s"
  using timer_shared unfolding same_shared_def by blast+

lemma closing_view: "quit_inv s \<Longrightarrow> closing s \<Longrightarrow> pred_option closing (view_step s)"
proof -
  assume inv: "quit_inv s" and cl: "closing s"
  have "pred_option closing (update_view_timeout u i ms fs s)" if "frames s = Update u i ms # fs" for u i ms fs
    using cl that by (cases u) (auto simp: closing_def)
  moreover have "pred_option closing (locked_callback h l fs s)" if "frames s = Locked h l # fs" for h l fs
    using cl that by (cases l) (auto simp: closing_def)
  moreover have "pred_option closing (quit_callback q fs s)" if "frames s = Quit q # fs" for q fs
    using cl inv that by (cases q) (auto simp: closing_def quit_inv_def)
  moreover have "closing (s\<lparr>frames := fs\<rparr>)" if "frames s = Unlocked h # fs" for h fs
    using cl that by (auto simp: closing_def)
  ultimately show ?thesis by (simp add: view_step_def split: list.split frame.split)
qed

lemma closing_raises: "closing s \<Longrightarrow> pred_option closing (view_raises s)"
  by (auto simp: view_raises_def closing_def split: list.split frame.split update_pc.split)

lemma closing_spin: "closing s \<Longrightarrow> pred_option closing (spin s)"
  by (auto simp: spin_def closing_def split: list.split frame.split update_pc.split)

lemma closing_dispatch: "closing s \<Longrightarrow> pred_option closing (dispatch_step d s)"
  by (rule dispatch_keeps) (auto simp: closing_def same_shared_def)

interpretation vis_closing: preserved vis_step "\<lambda>s. vis_inv s \<and> closing s"
proof
  fix ev s s'
  assume step: "vis_step ev s s'" and inv: "vis_inv s \<and> closing s"
  then have "closing s'"
    by (elim vis_step_keeps) (simp_all add: vis_inv_def closing_sim closing_run closing_view closing_raises
        closing_spin closing_dispatch)
  then show "vis_inv s' \<and> closing s'" using vis_inv_step [OF step] inv by blast
qed

lemma runs_mono: "runs step evs s s' \<Longrightarrow> (\<And>ev s s'. step ev s s' \<Longrightarrow> step' ev s s') \<Longrightarrow> runs step' evs s s'"
  by (induction rule: runs.induct) (auto intro: runs.intros)

lemma quiet_runs: "runs quiet_step evs s s' \<Longrightarrow> runs vis_step evs s s'"
  by (erule runs_mono) (simp add: quiet_step_def)

lemma closing_at_rest: "vis_inv s \<Longrightarrow> closing s \<Longrightarrow> at_rest s \<Longrightarrow> pc s = SimDone \<and> main_quit s"
  by (auto simp: closing_def at_rest_def vis_inv_def quit_inv_def)

section \<open>The update timer\<close>

text \<open>As long as no update raised and the window is open, the play button being down means that the update
  timer is armed.\<close>

definition calm_step :: "vis_event \<Rightarrow> vis \<Rightarrow> vis \<Rightarrow> bool" where
  "calm_step ev s s' = (vis_step ev s s' \<and> ev \<noteq> ViewRaises \<and> ev \<noteq> Dispatch WindowDeleted)"

fun calm_frame :: "frame \<Rightarrow> bool" where
  "calm_frame (Quit q) = False"
| "calm_frame (Update u i ms) = (u \<noteq> ReleaseRaise)"
| "calm_frame _ = True"

definition timer_inv :: "vis \<Rightarrow> bool" where
  "timer_inv s = ((playing s \<longrightarrow> (\<exists>i. timeout_id s = Some i \<and> i \<in> set (sources s))) \<and>
     (\<forall>f \<in> set (frames s). calm_frame f))"

lemma timer_inv_toggle: "timer_inv s \<Longrightarrow> timer_inv (play_button_toggled s)"
  by (simp add: timer_inv_def vis_defs split: option.split)

lemma timer_inv_inactive: "timer_inv s \<Longrightarrow> timer_inv (play_set_inactive s)"
  by (simp add: play_set_inactive_def timer_inv_toggle)

lemma timer_inv_speed: "timer_inv s \<Longrightarrow> timer_inv (speed_changed v s)"
  by (simp add: timer_inv_def vis_defs split: option.split)

lemma timer_inv_sim: "timer_inv s \<Longrightarrow> pred_option timer_inv (sim_step s)"
  by (cases "pc s") (simp_all add: sim_step_def timer_inv_def)

lemma timer_inv_run: "timer_inv s \<Longrightarrow> pred_option timer_inv (sim_run t ms s)"
  by (simp add: sim_run_def timer_inv_def)

lemma timer_inv_view: "timer_inv s \<Longrightarrow> pred_option timer_inv (view_step s)"
proof -
  assume inv: "timer_inv s"
  have "pred_option timer_inv (update_view_timeout u i ms fs s)" if "frames s = Update u i ms # fs" for u i ms fs
    using inv that
    by (cases u) (simp_all add: timer_inv_def)
  moreover have "pred_option timer_inv (locked_callback h l fs s)" if "frames s = Locked h l # fs" for h l fs
    using inv that by (cases l) (auto simp: timer_inv_def)
  moreover have "\<not> (frames s = Quit q # fs)" for q fs
    using inv by (auto simp: timer_inv_def)
  moreover have "timer_inv (s\<lparr>frames := fs\<rparr>)" if "frames s = Unlocked h # fs" for h fs
    using inv that by (auto simp: timer_inv_def)
  ultimately show ?thesis by (simp add: view_step_def split: list.split frame.split)
qed

lemma timer_inv_spin: "timer_inv s \<Longrightarrow> pred_option timer_inv (spin s)"
  by (auto simp: spin_def timer_inv_def split: list.split frame.split update_pc.split)

lemma timer_inv_dispatch: "timer_inv s \<Longrightarrow> d \<noteq> WindowDeleted \<Longrightarrow> pred_option timer_inv (dispatch_step d s)"
  by (cases d) (simp_all add: timer_inv_toggle timer_inv_speed, simp_all add: timer_inv_def)

interpretation calm: preserved calm_step timer_inv
proof
  fix ev s s'
  assume "calm_step ev s s'" "timer_inv s"
  then show "timer_inv s'"
    using timer_inv_sim [of s] timer_inv_run [of s] timer_inv_view [of s] timer_inv_spin [of s]
      timer_inv_dispatch [of s]
    by (cases ev) (auto simp: calm_step_def vis_step_def option.pred_set split: if_split_asm)
qed

section \<open>Schedules\<close>

definition one_update :: "vis_event list" where
  "one_update = [Dispatch PlayClicked, Dispatch (TimerFires 2), View, View, View, View, View, View, View, View]"

definition sim_starts :: "vis_event list" where
  "sim_starts = [Sim, Sim, Sim, Sim, Sim]"

definition sim_ends :: "string list \<Rightarrow> vis_event list" where
  "sim_ends ms = [SimRuns (1 / 20) ms, Sim, Sim, Sim]"

definition update_raises :: "vis_event list" where
  "update_raises = [Dispatch (TimerFires 2), View, View, ViewRaises, View]"

definition pause_while_busy :: "vis_event list" where
  "pause_while_busy = [Dispatch (TimerFires 2), Spin, Dispatch PlayClicked, Dispatch (SpeedChanged 2)]"

definition paused_update :: "vis_event list" where
  "paused_update = [Spin, View, View, View, View, View, View, View]"

definition vis_after :: "vis_event list \<Rightarrow> vis" where
  "vis_after evs = the (vis_run evs vis0)"

lemma vis_after_reachable: "\<not> Option.is_none (vis_run evs vis0) \<Longrightarrow> vis_reachable (vis_after evs)"
  by (cases "vis_run evs vis0") (auto simp: vis_after_def intro: vis_run_reachable)

lemma vis_after_run: "\<not> Option.is_none (vis_run evs vis0) \<Longrightarrow> runs vis_step evs vis0 (vis_after evs)"
  by (cases "vis_run evs vis0") (auto simp: vis_after_def intro: runs_vis_run)

section \<open>Properties\<close>

text \<open>C2. The lock of the simulation thread excludes the two threads from their critical sections: at every
  moment of every schedule the lock is held by the simulation thread exactly while it runs the simulator,
  collects its messages and schedules the update of the model, and by the main thread exactly while the
  callback it is in stands between its \<open>acquire\<close> and its \<open>release\<close>; so never are both inside, and a callback that
  waits in a nested event loop never holds the lock.\<close>

theorem vis_mutual_exclusion:
  assumes "vis_reachable s"
  shows "(lock s = Some BySim \<longleftrightarrow> sim_holds (pc s)) \<and>
         (lock s = Some ByView \<longleftrightarrow> (\<exists>f. top_frame s = Some f \<and> view_holds f)) \<and>
         \<not> (sim_holds (pc s) \<and> (\<exists>f \<in> set (frames s). view_holds f))"
proof -
  have "lock_inv s" using assms vis_reachable_inv by (simp add: vis_inv_def)
  then show ?thesis by (cases "frames s") (auto simp: lock_inv_def dest: nested_not_holds)
qed

theorem vis_mutual_exclusion_witness: "lock (vis_after (one_update @ sim_starts)) = Some BySim"
proof -
  have "\<not> Option.is_none (vis_run (one_update @ sim_starts) vis0)" by code_simp
  moreover have "sim_holds (pc (vis_after (one_update @ sim_starts)))" by code_simp
  ultimately show ?thesis using vis_mutual_exclusion [OF vis_after_reachable] by blast
qed

text \<open>C6. No pause message of the simulator is lost between the threads, and none is shown twice: at every
  moment the messages the simulator produced are, in order, those handled by updates of the view, those the
  running update has taken, those still in \<open>pause_messages\<close> and those the simulation thread is about to append;
  every handled message was shown in a dialog or dropped by an \<open>update_view\<close> that raised; and an update that
  showed messages does not give the simulator its next signal.\<close>

theorem vis_pause_messages:
  assumes "vis_reachable s"
  shows "produced s = concat (map snd (handled s)) @ (case top_frame s of None \<Rightarrow> [] | Some f \<Rightarrow> held f) @
           pause_messages s @ (if pc s = SimExtend then helper s else []) \<and>
         (\<forall>i ms. top_frame s = Some (Update SetGo i ms) \<longrightarrow> ms = [])"
proof -
  have "messages_inv s" using assms vis_reachable_inv by (simp add: vis_inv_def)
  then show ?thesis by (cases "frames s") (simp_all add: messages_inv_def)
qed

theorem vis_pause_messages_witness:
  "produced (vis_after (one_update @ sim_starts @ sim_ends [''stop''] @ [Dispatch (TimerFires 2), View, View, View])) =
   [''stop'']"
proof -
  let ?evs = "one_update @ sim_starts @ sim_ends [''stop''] @ [Dispatch (TimerFires 2), View, View, View]"
  have "\<not> Option.is_none (vis_run ?evs vis0)" by code_simp
  then have "vis_reachable (vis_after ?evs)" by (rule vis_after_reachable)
  from vis_pause_messages [OF this] have "produced (vis_after ?evs) =
      concat (map snd (handled (vis_after ?evs))) @
      (case top_frame (vis_after ?evs) of None \<Rightarrow> [] | Some f \<Rightarrow> held f) @
      pause_messages (vis_after ?evs) @ (if pc (vis_after ?evs) = SimExtend then helper (vis_after ?evs) else [])"
    by (rule conjunct1)
  also have "\<dots> = [''stop'']" by code_simp
  finally show ?thesis .
qed

text \<open>The simulator never runs ahead of the view: its time never exceeds the target time, which an update
  sets to the time it shows plus the sample period, and the sample period stays positive.\<close>

theorem vis_clock_bound:
  assumes "vis_reachable s"
  shows "now s \<le> target_time s \<and> 0 < sample_period s"
  using vis_reachable_inv [OF assms] by (simp add: vis_inv_def clock_inv_def)

theorem vis_clock_bound_witness: "now (vis_after (one_update @ sim_starts @ sim_ends [])) \<le> 1 / 10"
proof -
  have "\<not> Option.is_none (vis_run (one_update @ sim_starts @ sim_ends []) vis0)" by code_simp
  moreover have "target_time (vis_after (one_update @ sim_starts @ sim_ends [])) = 1 / 10" by code_simp
  ultimately show ?thesis using vis_clock_bound [OF vis_after_reachable] by metis
qed

text \<open>C7. The two threads never block each other for good: whatever has happened, once no further callback is
  dispatched at most \<open>vis_weight\<close> steps are made besides the polling of the lock, and a state in which every
  callback has returned and the simulation thread waits for its signal or has ended stays within reach.\<close>

theorem vis_settles:
  assumes "vis_reachable s" "runs quiet_step evs s s'"
  shows "length (filter (\<lambda>ev. ev \<noteq> Spin) evs) \<le> vis_weight s \<and> (\<exists>evs' s''. runs quiet_step evs' s' s'' \<and> at_rest s'')"
proof -
  have "vis_inv s'" using vis.runs_inv [OF quiet_runs [OF assms(2)]] assms(1) vis_reachable_inv by blast
  then show ?thesis using quiet.runs_bound [OF assms(2)] settled.runs_rest by force
qed

theorem vis_settles_witness:
  "\<exists>evs s. runs quiet_step evs (vis_after (one_update @ sim_starts)) s \<and> at_rest s"
proof -
  have "\<not> Option.is_none (vis_run (one_update @ sim_starts) vis0)" by code_simp
  from vis_settles [OF vis_after_reachable [OF this] run_none] show ?thesis by blast
qed

text \<open>C8. Closing the window ends both threads: from the moment \<open>_quit\<close> is called, whatever else happens, a state
  at rest can be reached, and in every state at rest the simulation thread has ended, so that the \<open>join\<close> of
  \<open>_quit\<close> returned, and the main loop has been told to quit.\<close>

theorem vis_window_closes:
  assumes "vis_reachable s" "Quit q \<in> set (frames s)" "runs vis_step evs s s'"
  shows "(\<exists>evs' s''. runs quiet_step evs' s' s'' \<and> at_rest s'' \<and> pc s'' = SimDone \<and> main_quit s'') \<and>
         (at_rest s' \<longrightarrow> pc s' = SimDone \<and> main_quit s')"
proof -
  have inv': "vis_inv s' \<and> closing s'"
    using vis_closing.runs_inv [OF assms(3)] vis_reachable_inv [OF assms(1)] assms(2) by (auto simp: closing_def)
  obtain evs' s'' where rest: "runs quiet_step evs' s' s''" "at_rest s''" using settled.runs_rest inv' by blast
  moreover have "vis_inv s'' \<and> closing s''" using vis_closing.runs_inv [OF quiet_runs [OF rest(1)]] inv' by blast
  ultimately show ?thesis using closing_at_rest inv' by blast
qed

definition window_closes :: "vis_event list" where
  "window_closes = [Dispatch WindowDeleted, View, View, View]"

theorem vis_window_closes_witness:
  "\<exists>evs s. runs quiet_step evs (vis_after (one_update @ sim_starts @ pause_while_busy @ window_closes)) s \<and>
     pc s = SimDone \<and> main_quit s"
proof -
  let ?evs = "one_update @ sim_starts @ pause_while_busy @ window_closes"
  have "\<not> Option.is_none (vis_run ?evs vis0)" by code_simp
  then have reach: "vis_reachable (vis_after ?evs)" by (rule vis_after_reachable)
  have "Quit QJoin \<in> set (frames (vis_after ?evs))" by code_simp
  from vis_window_closes [OF reach this run_none] show ?thesis by blast
qed

text \<open>C19. While no update of the view raised and the window is open, the play button never stays down without
  an armed update timer: the source that \<open>_update_timeout_id\<close> names is registered with the event loop.\<close>

theorem vis_play_armed:
  assumes "runs calm_step evs vis0 s" "playing s"
  shows "\<exists>i. timeout_id s = Some i \<and> i \<in> set (sources s)"
proof -
  have "timer_inv vis0" by (simp add: timer_inv_def) (simp add: vis0_def vis_defs)
  from calm.runs_inv [OF assms(1) this] assms(2) show ?thesis by (simp add: timer_inv_def)
qed

lemma runs_calm: "runs vis_step evs s s' \<Longrightarrow> list_all (\<lambda>ev. ev \<noteq> ViewRaises \<and> ev \<noteq> Dispatch WindowDeleted) evs \<Longrightarrow>
    runs calm_step evs s s'"
  by (induction rule: runs.induct) (auto simp: calm_step_def intro: runs.intros)

theorem vis_play_armed_witness:
  "\<exists>i. timeout_id (vis_after one_update) = Some i \<and> i \<in> set (sources (vis_after one_update))"
proof -
  have "\<not> Option.is_none (vis_run one_update vis0)" by code_simp
  moreover have "list_all (\<lambda>ev. ev \<noteq> ViewRaises \<and> ev \<noteq> Dispatch WindowDeleted) one_update" by code_simp
  ultimately have "runs calm_step one_update vis0 (vis_after one_update)" by (intro runs_calm vis_after_run)
  moreover have "playing (vis_after one_update)" by code_simp
  ultimately show ?thesis by (rule vis_play_armed)
qed

text \<open>What the lock and the timer do not give: \<open>autoscale_view\<close> reads the positions of the nodes while the
  simulation thread runs the simulator; a speed change while an update waits for the lock leaves two timers
  running once the simulation is played again; and an update that raises loses its messages and leaves the play
  button down with no timer.\<close>

lemma autoscale_unlocked:
  "let s = vis_after (one_update @ sim_starts @ [Dispatch (UnlockedCallback AutoScaleView)])
   in vis_reachable s \<and> pc s = SimRun \<and> frames s = [Unlocked AutoScaleView]"
proof -
  let ?evs = "one_update @ sim_starts @ [Dispatch (UnlockedCallback AutoScaleView)]"
  have "\<not> Option.is_none (vis_run ?evs vis0)" by code_simp
  then have "vis_reachable (vis_after ?evs)" by (rule vis_after_reachable)
  moreover have "pc (vis_after ?evs) = SimRun \<and> frames (vis_after ?evs) = [Unlocked AutoScaleView]" by code_simp
  ultimately show ?thesis by (simp add: Let_def)
qed

lemma two_update_timers:
  "let s = vis_after (one_update @ sim_starts @ pause_while_busy @ sim_ends [] @ paused_update @ [Dispatch PlayClicked])
   in vis_reachable s \<and> playing s \<and> frames s = [] \<and> sources s = [3, 4] \<and> timeout_id s = Some 4"
proof -
  let ?evs = "one_update @ sim_starts @ pause_while_busy @ sim_ends [] @ paused_update @ [Dispatch PlayClicked]"
  have "\<not> Option.is_none (vis_run ?evs vis0)" by code_simp
  then have "vis_reachable (vis_after ?evs)" by (rule vis_after_reachable)
  moreover have "playing (vis_after ?evs) \<and> frames (vis_after ?evs) = [] \<and> sources (vis_after ?evs) = [3, 4] \<and>
      timeout_id (vis_after ?evs) = Some 4" by code_simp
  ultimately show ?thesis by (simp add: Let_def)
qed

lemma update_raise_stalls:
  "let s = vis_after (one_update @ sim_starts @ sim_ends [''stop''] @ update_raises)
   in vis_reachable s \<and> playing s \<and> frames s = [] \<and> sources s = [] \<and> handled s = [(False, [''stop''])]"
proof -
  let ?evs = "one_update @ sim_starts @ sim_ends [''stop''] @ update_raises"
  have "\<not> Option.is_none (vis_run ?evs vis0)" by code_simp
  then have "vis_reachable (vis_after ?evs)" by (rule vis_after_reachable)
  moreover have "playing (vis_after ?evs) \<and> frames (vis_after ?evs) = [] \<and> sources (vis_after ?evs) = [] \<and>
      handled (vis_after ?evs) = [(False, [''stop''])]" by code_simp
  ultimately show ?thesis by (simp add: Let_def)
qed

end
