(* ===== verification/VisStats.thy ===== *)
theory VisStats
  imports PyPrelude PyNum
begin

text \<open>
  The samples the visualizer keeps of the running simulation: the statistics of the interfaces
  (\<open>plugins/interface_statistics.py\<close>) and the transmissions and drops of the last periods
  (\<open>do_simulation_periodic_update\<close> and the averages of \<open>_update_transmissions_view\<close> and \<open>_update_drops_view\<close>
  in \<open>core.py\<close>). Floats are exact rationals.
\<close>

section \<open>A bounded history\<close>

text \<open>\<open>while len(xs) > n: xs.pop(0)\<close>\<close>

fun pop_excess :: "nat \<Rightarrow> 'a list \<Rightarrow> 'a list" where
  "pop_excess n xs = (if n < length xs then pop_excess n (tl xs) else xs)"

declare pop_excess.simps [simp del]

definition last_n :: "nat \<Rightarrow> 'a list \<Rightarrow> 'a list" where
  "last_n n xs = drop (length xs - n) xs"

lemma pop_excess_last_n: "pop_excess n xs = last_n n xs"
proof (induction n xs rule: pop_excess.induct)
  case (1 n xs)
  then show ?case
    by (cases xs) (simp_all add: pop_excess.simps [of n] last_n_def Suc_diff_le flip: not_less)
qed

lemma last_n_append: "last_n n (last_n n xs @ ys) = last_n n (xs @ ys)"
  by (cases "n \<le> length xs") (auto simp: last_n_def add.commute)

lemma length_last_n [simp]: "length (last_n n xs) = min n (length xs)"
  by (auto simp: last_n_def)

section \<open>Statistics of the interfaces\<close>

record net_dev_counters =
  transmittedPackets :: int
  receivedPackets :: int
  transmittedBytes :: int
  receivedBytes :: int

record net_dev_stats =
  rxPackets :: int
  rxBytes :: int
  txPackets :: int
  txBytes :: int
  rxPacketRate :: rat
  rxBitRate :: rat
  txPacketRate :: rat
  txBitRate :: rat

definition NODE_STATISTICS_MEMORY :: nat where
  "NODE_STATISTICS_MEMORY = 10"

type_synonym node_statistics = "(int, net_dev_counters list list) dict"

definition collect_node :: "int \<times> net_dev_counters list \<Rightarrow> node_statistics \<Rightarrow> node_statistics" where
  "collect_node st d =
     dict_set (fst st) (pop_excess NODE_STATISTICS_MEMORY (dict_get_default d (fst st) [] @ [snd st])) d"

definition simulation_periodic_update :: "(int \<times> net_dev_counters list) list \<Rightarrow> node_statistics \<Rightarrow> node_statistics" where
  "simulation_periodic_update sts d = fold collect_node sts d"

definition rate :: "rat \<Rightarrow> int \<Rightarrow> rat res" where
  "rate k n = (if k = 0 then Inl ZeroDivisionError else Inr (of_int n / k))"

definition device_stats :: "rat \<Rightarrow> net_dev_counters list \<Rightarrow> int \<Rightarrow> net_dev_counters \<Rightarrow> net_dev_stats res" where
  "device_stats k old iface st =
     rbind (py_nth (map transmittedPackets old) iface) (\<lambda>tp.
     rbind (rate k (transmittedPackets st - tp)) (\<lambda>tpr.
     rbind (py_nth (map receivedPackets old) iface) (\<lambda>rp.
     rbind (rate k (receivedPackets st - rp)) (\<lambda>rpr.
     rbind (py_nth (map transmittedBytes old) iface) (\<lambda>tb.
     rbind (rate k ((transmittedBytes st - tb) * 8)) (\<lambda>tbr.
     rbind (py_nth (map receivedBytes old) iface) (\<lambda>rb.
     rbind (rate k ((receivedBytes st - rb) * 8)) (\<lambda>rbr.
       Inr \<lparr>rxPackets = receivedPackets st, rxBytes = receivedBytes st, txPackets = transmittedPackets st,
            txBytes = transmittedBytes st, rxPacketRate = rpr, rxBitRate = rbr, txPacketRate = tpr,
            txBitRate = tbr\<rparr>))))))))"

fun device_stats_loop ::
    "rat \<Rightarrow> net_dev_counters list \<Rightarrow> int \<Rightarrow> net_dev_counters list \<Rightarrow> net_dev_stats list res" where
  "device_stats_loop k old iface [] = Inr []"
| "device_stats_loop k old iface (st # sts) =
     rbind (device_stats k old iface st) (\<lambda>out. rbind (device_stats_loop k old (iface + 1) sts) (\<lambda>outs. Inr (out # outs)))"

definition get_interface_statistics :: "rat \<Rightarrow> node_statistics \<Rightarrow> int \<Rightarrow> net_dev_stats list res" where
  "get_interface_statistics period d node =
     (case dict_get d node of
        Inl e \<Rightarrow> Inr []
      | Inr raw \<Rightarrow>
          if length raw < NODE_STATISTICS_MEMORY then Inr []
          else if length raw \<noteq> NODE_STATISTICS_MEMORY then Inl AssertionError
          else device_stats_loop (period * (of_nat NODE_STATISTICS_MEMORY - 1)) (raw ! 0) 0 (last raw))"

text \<open>The specification: the samples of a node in the order of the updates.\<close>

definition node_history :: "(int \<times> net_dev_counters list) list list \<Rightarrow> int \<Rightarrow> net_dev_counters list list" where
  "node_history upds node = map snd (filter (\<lambda>st. fst st = node) (concat upds))"

definition collected_stats :: "(int \<times> net_dev_counters list) list list \<Rightarrow> node_statistics" where
  "collected_stats upds = fold simulation_periodic_update upds []"

definition stats_agree :: "node_statistics \<Rightarrow> (int \<times> net_dev_counters list) list \<Rightarrow> bool" where
  "stats_agree d sts = (\<forall>node. map_of d node =
     (let h = map snd (filter (\<lambda>st. fst st = node) sts)
      in if h = [] then None else Some (last_n NODE_STATISTICS_MEMORY h)))"

lemma last_n_Nil [simp]: "last_n n [] = []"
  by (simp add: last_n_def)

lemma collect_node_agree: "stats_agree d sts \<Longrightarrow> stats_agree (collect_node st d) (sts @ [st])"
  by (auto simp: stats_agree_def collect_node_def dict_get_default_def pop_excess_last_n Let_def last_n_append
      split: if_splits)

lemma collect_nodes_agree: "stats_agree d sts \<Longrightarrow> stats_agree (fold collect_node sts' d) (sts @ sts')"
proof (induction sts' arbitrary: d sts)
  case (Cons st sts')
  from Cons.IH [OF collect_node_agree [OF Cons.prems]] show ?case by simp
qed simp

lemma collected_agree: "stats_agree d sts \<Longrightarrow> stats_agree (fold simulation_periodic_update upds d) (sts @ concat upds)"
proof (induction upds arbitrary: d sts)
  case (Cons upd upds)
  from Cons.IH [OF collect_nodes_agree [OF Cons.prems]] show ?case by (simp add: simulation_periodic_update_def)
qed simp

lemma map_of_collected:
  "map_of (collected_stats upds) node =
   (if node_history upds node = [] then None else Some (last_n NODE_STATISTICS_MEMORY (node_history upds node)))"
  using collected_agree [of "[]" "[]" upds]
  by (simp add: stats_agree_def collected_stats_def node_history_def Let_def)

text \<open>The rates the code promises: differences over nine sample periods, bytes as bits.\<close>

definition expected_stats :: "rat \<Rightarrow> net_dev_counters \<Rightarrow> net_dev_counters \<Rightarrow> net_dev_stats" where
  "expected_stats period old new =
     \<lparr>rxPackets = receivedPackets new, rxBytes = receivedBytes new, txPackets = transmittedPackets new,
      txBytes = transmittedBytes new,
      rxPacketRate = of_int (receivedPackets new - receivedPackets old) / (9 * period),
      rxBitRate = of_int (8 * (receivedBytes new - receivedBytes old)) / (9 * period),
      txPacketRate = of_int (transmittedPackets new - transmittedPackets old) / (9 * period),
      txBitRate = of_int (8 * (transmittedBytes new - transmittedBytes old)) / (9 * period)\<rparr>"

lemma device_stats_ok: "k \<noteq> 0 \<Longrightarrow> i < length old \<Longrightarrow> device_stats (9 * k) old (int i) st = Inr (expected_stats k (old ! i) st)"
  by (simp add: device_stats_def expected_stats_def rate_def py_nth_of_nat algebra_simps)

lemma device_stats_beyond: "length old \<le> i \<Longrightarrow> device_stats k old (int i) st = Inl IndexError"
  by (simp add: device_stats_def py_nth_def)

lemma device_stats_loop_eq:
  assumes "k \<noteq> 0"
  shows "device_stats_loop (9 * k) old (int i) sts =
    (if sts \<noteq> [] \<and> length old < i + length sts then Inl IndexError
     else Inr (map2 (expected_stats k) (drop i old) sts))"
proof (induction sts arbitrary: i)
  case (Cons st sts)
  show ?case
  proof (cases "i < length old")
    case True
    then have "drop i old = old ! i # drop (Suc i) old" by (simp add: Cons_nth_drop_Suc)
    then show ?thesis using Cons [of "Suc i"] True assms by (auto simp: device_stats_ok add.commute)
  next
    case False
    then show ?thesis by (simp add: device_stats_beyond)
  qed
qed simp

text \<open>C20. The statistics window of a node shows the rates of the last ten samples, whatever was collected
  before: with fewer than ten samples it shows nothing; otherwise the newest sample is compared with the tenth
  newest, interface by interface, as counts per second (bytes as bits) over nine sample periods; and the only
  way the window can fail is that the newest sample has more interfaces than the tenth newest, which is an
  \<open>IndexError\<close>.\<close>

theorem interface_statistics_correct:
  assumes "period \<noteq> 0"
  shows "get_interface_statistics period (collected_stats upds) node =
    (let h = node_history upds node; old = h ! (length h - 10); new = last h
     in if length h < 10 then Inr []
        else if length old < length new then Inl IndexError
        else Inr (map2 (expected_stats period) old new))"
proof -
  let ?h = "node_history upds node"
  have hd: "last_n 10 ?h ! 0 = ?h ! (length ?h - 10)" "last (last_n 10 ?h) = last ?h" if "10 \<le> length ?h"
    using that by (auto simp: last_n_def)
  have period: "period * 9 = 9 * period" by simp
  show ?thesis
    using hd device_stats_loop_eq [OF assms, of "?h ! (length ?h - 10)" 0 "last ?h"]
    by (simp add: get_interface_statistics_def dict_get_def map_of_collected NODE_STATISTICS_MEMORY_def Let_def
        period)
qed

definition sample_counters :: "int \<Rightarrow> net_dev_counters" where
  "sample_counters n = \<lparr>transmittedPackets = n, receivedPackets = 2 * n, transmittedBytes = 100 * n, receivedBytes = 200 * n\<rparr>"

theorem interface_statistics_correct_witness:
  "get_interface_statistics (1 / 10) (collected_stats (map (\<lambda>n. [(7, [sample_counters n])]) [0..11])) 7 =
   Inr [\<lparr>rxPackets = 22, rxBytes = 2200, txPackets = 11, txBytes = 1100, rxPacketRate = 20, rxBitRate = 16000,
         txPacketRate = 10, txBitRate = 8000\<rparr>]"
  by (subst interface_statistics_correct) (simp, code_simp)

section \<open>Transmissions and drops of the last periods\<close>

record transmission =
  transmitter :: int
  receiver :: "int option"
  tx_bytes :: int

record packet_drop =
  drop_transmitter :: int
  drop_bytes :: int

record recent =
  last_transmissions :: "transmission list list"
  last_drops :: "packet_drop list list"

text \<open>The smoothing slider holds tenths between 0.1 and 10, so that the factor is at least one.\<close>

definition smooth_factor :: "rat \<Rightarrow> nat" where
  "smooth_factor v = nat (rat_trunc (v * 10))"

definition do_simulation_periodic_update :: "rat \<Rightarrow> transmission list \<Rightarrow> packet_drop list \<Rightarrow> recent \<Rightarrow> recent" where
  "do_simulation_periodic_update smooth ts ds s =
     s\<lparr>last_transmissions := pop_excess (smooth_factor smooth) (last_transmissions s @ [ts]),
       last_drops := pop_excess (smooth_factor smooth) (last_drops s @ [ds])\<rparr>"

definition node_id :: "int option \<Rightarrow> int res" where
  "node_id n = (case n of None \<Rightarrow> Inl AttributeError | Some i \<Rightarrow> Inr i)"

definition add_sample :: "'k \<Rightarrow> int \<Rightarrow> ('k, int \<times> int) dict \<Rightarrow> ('k, int \<times> int) dict" where
  "add_sample key n d = (case dict_get_default d key (0, 0) of (bytes, cnt) \<Rightarrow> dict_set key (bytes + n, cnt + 1) d)"

definition transmissions_average :: "transmission list list \<Rightarrow> (int \<times> int, int \<times> int) dict res" where
  "transmissions_average sets =
     rfold (rfold (\<lambda>t d. rbind (node_id (receiver t)) (\<lambda>r. Inr (add_sample (transmitter t, r) (tx_bytes t) d)))) sets []"

definition drops_average :: "packet_drop list list \<Rightarrow> (int, int \<times> int) dict" where
  "drops_average sets = fold (fold (\<lambda>t. add_sample (drop_transmitter t) (drop_bytes t))) sets []"

lemma recent_last_n:
  "last_transmissions (do_simulation_periodic_update v ts ds s) = last_n (smooth_factor v) (last_transmissions s @ [ts])"
  "last_drops (do_simulation_periodic_update v ts ds s) = last_n (smooth_factor v) (last_drops s @ [ds])"
  by (simp_all add: do_simulation_periodic_update_def pop_excess_last_n)

lemma smooth_factor_pos: "1 / 10 \<le> v \<Longrightarrow> 1 \<le> smooth_factor v"
proof -
  assume "1 / 10 \<le> v"
  then have "1 \<le> \<lfloor>v * 10\<rfloor>" by (simp add: le_floor_iff)
  then show ?thesis using \<open>1 / 10 \<le> v\<close> by (simp add: smooth_factor_def rat_trunc_def Suc_le_eq zero_less_nat_eq)
qed

text \<open>The sums over all samples with one key.\<close>

definition sums_of :: "('k \<times> int) list \<Rightarrow> 'k \<Rightarrow> (int \<times> int) option" where
  "sums_of ss k =
     (let ns = map snd (filter (\<lambda>s. fst s = k) ss) in if ns = [] then None else Some (sum_list ns, int (length ns)))"

lemma add_sample_sums: "map_of d = sums_of ss \<Longrightarrow> map_of (add_sample k n d) = sums_of (ss @ [(k, n)])"
  by (auto simp: add_sample_def dict_get_default_def sums_of_def Let_def fun_eq_iff split: if_splits)

lemma add_samples_sums: "map_of d = sums_of ss \<Longrightarrow> map_of (fold (\<lambda>s. add_sample (fst s) (snd s)) ss' d) = sums_of (ss @ ss')"
proof (induction ss' arbitrary: ss d)
  case (Cons s ss')
  from Cons.IH [OF add_sample_sums [OF Cons.prems]] show ?case by simp
qed simp

lemma add_samples_ok: "dict_ok d \<Longrightarrow> dict_ok (fold (\<lambda>s. add_sample (fst s) (snd s)) ss d)"
  by (induction ss arbitrary: d) (simp_all add: add_sample_def split_beta)

lemma sums_of_Nil: "map_of [] = sums_of []"
  by (simp add: sums_of_def fun_eq_iff)

lemma fold_fold: "fold (fold f) xss d = fold f (concat xss) d"
  by (induction xss arbitrary: d) simp_all

lemma rfold_rfold: "rfold (rfold f) xss d = rfold f (concat xss) d"
  by (induction xss arbitrary: d) (auto simp: rfold_append intro!: rbind_cong)

lemma rfold_unicast:
  "\<forall>t \<in> set ts. receiver t \<noteq> None \<Longrightarrow>
   rfold (\<lambda>t d. rbind (node_id (receiver t)) (\<lambda>r. Inr (add_sample (transmitter t, r) (tx_bytes t) d))) ts d =
   Inr (fold (\<lambda>s. add_sample (fst s) (snd s)) (map (\<lambda>t. ((transmitter t, the (receiver t)), tx_bytes t)) ts) d)"
  by (induction ts arbitrary: d) (auto simp: node_id_def)

lemma rfold_broadcast:
  "\<exists>t \<in> set ts. receiver t = None \<Longrightarrow>
   rfold (\<lambda>t d. rbind (node_id (receiver t)) (\<lambda>r. Inr (add_sample (transmitter t, r) (tx_bytes t) d))) ts d =
   Inl AttributeError"
  by (induction ts arbitrary: d) (auto simp: node_id_def split: option.splits)

lemma fold_drops: "fold (\<lambda>t. add_sample (drop_transmitter t) (drop_bytes t)) ts d =
    fold (\<lambda>s. add_sample (fst s) (snd s)) (map (\<lambda>t. (drop_transmitter t, drop_bytes t)) ts) d"
  by (induction ts arbitrary: d) simp_all

text \<open>The view averages exactly the samples of the remembered periods: for every pair of transmitter and
  receiver with a sample it holds the sum of their bytes and their number, and nothing for other pairs; a
  sample without receiver, which the header of the simulator allows for broadcasts, is an \<open>AttributeError\<close>; and
  the drops are summed by transmitter in the same way.\<close>

theorem transmissions_average_correct:
  "(if \<exists>t \<in> set (concat sets). receiver t = None then transmissions_average sets = Inl AttributeError
    else \<exists>d. transmissions_average sets = Inr d \<and> dict_ok d \<and>
           map_of d = sums_of (map (\<lambda>t. ((transmitter t, the (receiver t)), tx_bytes t)) (concat sets))) \<and>
   dict_ok (drops_average drops) \<and>
   map_of (drops_average drops) = sums_of (map (\<lambda>t. (drop_transmitter t, drop_bytes t)) (concat drops))"
  using rfold_broadcast [of "concat sets" "[]"] rfold_unicast [of "concat sets" "[]"]
    add_samples_sums [OF sums_of_Nil, where ?'a = int] add_samples_sums [OF sums_of_Nil, where ?'a = "int \<times> int"]
  by (simp add: transmissions_average_def rfold_rfold drops_average_def fold_fold fold_drops add_samples_ok)

end
