(* ===== verification/VisScene.thy ===== *)
theory VisScene
  imports PyPrelude PyString PyNum
begin

text \<open>
  What the visualizer draws: the views of the nodes and channels of the simulation, the links between them,
  the selected node, the nodes whose transmissions are watched and the node the user drags
  (\<open>Node\<close>, \<open>Channel\<close>, \<open>WiredLink\<close>, \<open>scan_topology\<close>, \<open>select_node\<close>, \<open>set_show_transmissions_mode\<close>,
  \<open>begin_node_drag\<close>, \<open>node_drag_motion\<close>, \<open>end_node_drag\<close> of \<open>core.py\<close>, the transformations and the traits of
  \<open>base.py\<close>). Views refer to each other by keys: a node by its index, a channel by its identity, a link by its
  number. The simulated network and the layout that Graphviz computes are arguments; floats are exact.
\<close>

section \<open>The simulated network\<close>

type_synonym point = "rat \<times> rat"

record sim_device =
  dev_type :: string
  dev_channel :: "int option"

record sim_node =
  mobility :: "point option"
  devices :: "sim_device list"

record sim_net =
  sim_nodes :: "sim_node list"
  chan_nodes :: "int \<Rightarrow> int list"

text \<open>\<open>chan_nodes\<close>: the indices of the nodes of the devices attached to a channel.\<close>

definition sim_node_at :: "sim_net \<Rightarrow> int \<Rightarrow> sim_node" where
  "sim_node_at net i = sim_nodes net ! nat i"

section \<open>Canvas and simulation coordinates\<close>

definition PIXELS_PER_METER :: rat where
  "PIXELS_PER_METER = 3"

definition transform_point_simulation_to_canvas :: "point \<Rightarrow> point" where
  "transform_point_simulation_to_canvas p = (fst p * PIXELS_PER_METER, snd p * PIXELS_PER_METER)"

definition transform_point_canvas_to_simulation :: "point \<Rightarrow> point" where
  "transform_point_canvas_to_simulation p = (fst p / PIXELS_PER_METER, snd p / PIXELS_PER_METER)"

definition transform_distance_canvas_to_simulation :: "rat \<Rightarrow> rat" where
  "transform_distance_canvas_to_simulation d = d / PIXELS_PER_METER"

definition transform_distance_simulation_to_canvas :: "rat \<Rightarrow> rat" where
  "transform_distance_simulation_to_canvas d = d * PIXELS_PER_METER"

section \<open>Traits of the devices\<close>

record netdevice_traits =
  is_wireless :: "bool option"
  is_virtual :: bool

definition netdevice_traits0 :: "(string, netdevice_traits) dict" where
  "netdevice_traits0 =
     [(''PointToPointNetDevice'', \<lparr>is_wireless = Some False, is_virtual = False\<rparr>),
      (''CsmaNetDevice'', \<lparr>is_wireless = Some False, is_virtual = False\<rparr>),
      (''WifiNetDevice'', \<lparr>is_wireless = Some True, is_virtual = False\<rparr>),
      (''BridgeNetDevice'', \<lparr>is_wireless = None, is_virtual = True\<rparr>),
      (''LoopbackNetDevice'', \<lparr>is_wireless = Some False, is_virtual = True\<rparr>),
      (''MeshPointDevice'', \<lparr>is_wireless = None, is_virtual = True\<rparr>),
      (''SubscriberStationNetDevice'', \<lparr>is_wireless = Some True, is_virtual = False\<rparr>),
      (''BaseStationNetDevice'', \<lparr>is_wireless = Some True, is_virtual = False\<rparr>),
      (''LteUeNetDevice'', \<lparr>is_wireless = Some True, is_virtual = False\<rparr>),
      (''LteEnbNetDevice'', \<lparr>is_wireless = Some True, is_virtual = False\<rparr>)]"

text \<open>The traits of an unknown type are those of a wireless device, and are remembered.\<close>

definition lookup_netdevice_traits ::
    "string \<Rightarrow> (string, netdevice_traits) dict \<Rightarrow> netdevice_traits \<times> (string, netdevice_traits) dict" where
  "lookup_netdevice_traits ty d =
     (case dict_get d ty of
        Inr t \<Rightarrow> (t, d)
      | Inl e \<Rightarrow> (let t = \<lparr>is_wireless = Some True, is_virtual = False\<rparr> in (t, dict_set ty t d)))"

section \<open>Views\<close>

record view_node =
  position :: point
  node_links :: "nat list"
  has_mobility_cache :: "bool option"
  is_selected :: bool

record view_channel =
  chan_position :: point
  chan_links :: "nat list"

datatype link_end = NodeEnd int | ChannelEnd int

record wired_link =
  node1 :: int
  node2 :: link_end
  points :: "(point \<times> point) option"

datatype show_transmissions = ShowAll | ShowNone | ShowSelected

record node_drag =
  canvas0 :: point
  sim0 :: point

record graph =
  graph_nodes :: "string list"
  graph_edges :: "(string \<times> string) list"

record scene =
  nodes :: "(int, view_node) dict"
  channels :: "(int, view_channel) dict"
  wired :: "wired_link list"
  traits :: "(string, netdevice_traits) dict"
  canvas_bounds :: "point \<times> point"
  selected_node :: "int option"
  show_mode :: "show_transmissions option"
  nodes_of_interest :: "int list"
  node_drag_state :: "node_drag option"

definition new_node :: view_node where
  "new_node = \<lparr>position = (0, 0), node_links = [], has_mobility_cache = None, is_selected = False\<rparr>"

definition new_channel :: view_channel where
  "new_channel = \<lparr>chan_position = (0, 0), chan_links = []\<rparr>"

definition node_at :: "scene \<Rightarrow> int \<Rightarrow> view_node" where
  "node_at sc i = dict_get_default (nodes sc) i new_node"

definition channel_at :: "scene \<Rightarrow> int \<Rightarrow> view_channel" where
  "channel_at sc c = dict_get_default (channels sc) c new_channel"

definition get_node :: "int \<Rightarrow> scene \<Rightarrow> scene" where
  "get_node i sc = (if has_key (nodes sc) i then sc else sc\<lparr>nodes := dict_set i new_node (nodes sc)\<rparr>)"

definition get_channel :: "int \<Rightarrow> scene \<Rightarrow> scene" where
  "get_channel c sc = (if has_key (channels sc) c then sc else sc\<lparr>channels := dict_set c new_channel (channels sc)\<rparr>)"

definition change_node :: "int \<Rightarrow> (view_node \<Rightarrow> view_node) \<Rightarrow> scene \<Rightarrow> scene" where
  "change_node i f sc = sc\<lparr>nodes := dict_set i (f (node_at sc i)) (nodes sc)\<rparr>"

definition change_channel :: "int \<Rightarrow> (view_channel \<Rightarrow> view_channel) \<Rightarrow> scene \<Rightarrow> scene" where
  "change_channel c f sc = sc\<lparr>channels := dict_set c (f (channel_at sc c)) (channels sc)\<rparr>"

fun end_position :: "scene \<Rightarrow> link_end \<Rightarrow> point" where
  "end_position sc (NodeEnd i) = position (node_at sc i)"
| "end_position sc (ChannelEnd c) = chan_position (channel_at sc c)"

definition update_points :: "nat \<Rightarrow> scene \<Rightarrow> scene" where
  "update_points l sc =
     (let lk = wired sc ! l
      in sc\<lparr>wired := (wired sc)[l := lk\<lparr>points := Some (position (node_at sc (node1 lk)), end_position sc (node2 lk))\<rparr>]\<rparr>)"

text \<open>Moving a view moves the ends of its links and widens the bounds of the canvas.\<close>

definition widen_bounds :: "point \<Rightarrow> scene \<Rightarrow> scene" where
  "widen_bounds p sc =
     (case canvas_bounds sc of ((min_x, min_y), (max_x, max_y)) \<Rightarrow>
        sc\<lparr>canvas_bounds := ((min (fst p) min_x, min (snd p) min_y), (max (fst p) max_x, max (snd p) max_y))\<rparr>)"

definition set_node_position :: "int \<Rightarrow> point \<Rightarrow> scene \<Rightarrow> scene" where
  "set_node_position i p sc =
     (let sc = change_node i (\<lambda>v. v\<lparr>position := p\<rparr>) sc
      in widen_bounds p (fold update_points (node_links (node_at sc i)) sc))"

definition set_channel_position :: "int \<Rightarrow> point \<Rightarrow> scene \<Rightarrow> scene" where
  "set_channel_position c p sc =
     (let sc = change_channel c (\<lambda>v. v\<lparr>chan_position := p\<rparr>) sc
      in fold update_points (chan_links (channel_at sc c)) sc)"

fun add_end_link :: "nat \<Rightarrow> link_end \<Rightarrow> scene \<Rightarrow> scene" where
  "add_end_link l (NodeEnd i) sc = change_node i (\<lambda>v. v\<lparr>node_links := node_links v @ [l]\<rparr>) sc"
| "add_end_link l (ChannelEnd c) sc = change_channel c (\<lambda>v. v\<lparr>chan_links := chan_links v @ [l]\<rparr>) sc"

definition create_link :: "int \<Rightarrow> link_end \<Rightarrow> scene \<Rightarrow> scene" where
  "create_link i e sc =
     (let l = length (wired sc)
      in add_end_link l e (add_end_link l (NodeEnd i) (sc\<lparr>wired := wired sc @ [\<lparr>node1 = i, node2 = e, points = None\<rparr>]\<rparr>)))"

definition has_mobility :: "sim_net \<Rightarrow> int \<Rightarrow> scene \<Rightarrow> bool \<times> scene" where
  "has_mobility net i sc =
     (case has_mobility_cache (node_at sc i) of
        Some b \<Rightarrow> (b, sc)
      | None \<Rightarrow> (let b = (mobility (sim_node_at net i) \<noteq> None)
                 in (b, change_node i (\<lambda>v. v\<lparr>has_mobility_cache := Some b\<rparr>) sc)))"

section \<open>Scanning the topology\<close>

definition graph_add_node :: "string \<Rightarrow> graph \<Rightarrow> graph" where
  "graph_add_node n g = (if n \<in> set (graph_nodes g) then g else g\<lparr>graph_nodes := graph_nodes g @ [n]\<rparr>)"

definition graph_add_edge :: "string \<Rightarrow> string \<Rightarrow> graph \<Rightarrow> graph" where
  "graph_add_edge n m g =
     (let g = graph_add_node m (graph_add_node n g) in g\<lparr>graph_edges := graph_edges g @ [(n, m)]\<rparr>)"

definition node_name :: "int \<Rightarrow> string" where
  "node_name i = ''Node '' @ str_of_int i"

definition channel_name :: "int \<Rightarrow> string" where
  "channel_name c = ''Channel '' @ str_of_int c"

definition REPRESENT_CHANNELS_AS_NODES :: bool where
  "REPRESENT_CHANNELS_AS_NODES = True"

definition link_other :: "sim_net \<Rightarrow> int \<Rightarrow> int \<Rightarrow> graph \<times> scene \<Rightarrow> graph \<times> scene" where
  "link_other net i j gs =
     (case gs of (g, sc) \<Rightarrow>
        let sc = get_node j sc
        in if j = i then (g, sc)
           else let (edge, sc) = (if mobility (sim_node_at net i) = None
                                  then (case has_mobility net j sc of (b, sc) \<Rightarrow> (\<not> b, sc)) else (False, sc));
                    g = (if edge then graph_add_edge (node_name i) (node_name j) g else g)
                in (g, create_link i (NodeEnd j) (get_node i sc)))"

definition link_channel :: "sim_net \<Rightarrow> int \<Rightarrow> int \<Rightarrow> graph \<times> scene \<Rightarrow> graph \<times> scene" where
  "link_channel net i c gs =
     (case gs of (g, sc) \<Rightarrow>
        let g = (if mobility (sim_node_at net i) = None then graph_add_edge (node_name i) (channel_name c) g else g)
        in (g, create_link i (ChannelEnd c) (get_channel c (get_node i (get_channel c sc)))))"

definition scan_device :: "sim_net \<Rightarrow> int \<Rightarrow> sim_device \<Rightarrow> graph \<times> scene \<Rightarrow> (graph \<times> scene) res" where
  "scan_device net i dev gs =
     (case gs of (g, sc) \<Rightarrow>
        let (t, d) = lookup_netdevice_traits (dev_type dev) (traits sc); sc = sc\<lparr>traits := d\<rparr>
        in if is_wireless t = Some True \<or> is_virtual t then Inr (g, sc)
           else case dev_channel dev of
                  None \<Rightarrow> Inl AttributeError
                | Some c \<Rightarrow>
                    Inr (if 2 < length (chan_nodes net c) \<and> REPRESENT_CHANNELS_AS_NODES then link_channel net i c (g, sc)
                         else fold (link_other net i) (chan_nodes net c) (g, sc)))"

definition scan_node :: "sim_net \<Rightarrow> int \<Rightarrow> graph \<times> scene \<Rightarrow> (graph \<times> scene) res" where
  "scan_node net i gs =
     (case gs of (g, sc) \<Rightarrow>
        let sc = get_node i sc; node = sim_node_at net i
        in rfold (scan_device net i) (devices node)
             (case mobility node of
                Some p \<Rightarrow> (g, set_node_position i (transform_point_simulation_to_canvas p) sc)
              | None \<Rightarrow> (graph_add_node (node_name i) g, sc)))"

text \<open>The object a name of the graph stands for; another type leaves \<open>obj\<close> at its previous value.\<close>

definition named_object :: "scene \<Rightarrow> string \<Rightarrow> link_end option \<Rightarrow> link_end res" where
  "named_object sc name obj =
     (case split_on CHR '' '' name of
        [ty, ident] \<Rightarrow>
          if ty = ''Node'' then
            rbind (py_int 10 ident) (\<lambda>i. if has_key (nodes sc) i then Inr (NodeEnd i) else Inl KeyError)
          else if ty = ''Channel'' then
            rbind (py_int 10 ident) (\<lambda>c. if has_key (channels sc) c then Inr (ChannelEnd c) else Inl KeyError)
          else (case obj of None \<Rightarrow> Inl UnboundLocalError | Some ob \<Rightarrow> Inr ob)
      | _ \<Rightarrow> Inl ValueError)"

fun set_position :: "link_end \<Rightarrow> point \<Rightarrow> scene \<Rightarrow> scene" where
  "set_position (NodeEnd i) p sc = set_node_position i p sc"
| "set_position (ChannelEnd c) p sc = set_channel_position c p sc"

definition place :: "string \<times> point \<Rightarrow> link_end option \<times> scene \<Rightarrow> (link_end option \<times> scene) res" where
  "place np os =
     (case os of (obj, sc) \<Rightarrow>
        rbind (named_object sc (fst np) obj) (\<lambda>ob. Inr (Some ob, set_position ob (snd np) sc)))"

definition scan_topology :: "(graph \<Rightarrow> (string \<times> point) list) \<Rightarrow> sim_net \<Rightarrow> scene \<Rightarrow> scene res" where
  "scan_topology layout net sc =
     rbind (rfold (scan_node net) (map int [0..<length (sim_nodes net)]) (\<lparr>graph_nodes = [], graph_edges = []\<rparr>, sc))
       (\<lambda>(g, sc). rbind (rfold place (layout g) (None, sc)) (\<lambda>(obj, sc). Inr sc))"

text \<open>The positions of the simulated nodes as an update of the view reads them.\<close>

definition update_node_position :: "sim_net \<Rightarrow> int \<Rightarrow> scene \<Rightarrow> scene" where
  "update_node_position net i sc =
     (let (b, sc) = has_mobility net i sc
      in if b then (case mobility (sim_node_at net i) of
                      None \<Rightarrow> sc
                    | Some p \<Rightarrow> set_node_position i (transform_point_simulation_to_canvas p) sc)
         else sc)"

definition update_node_positions :: "sim_net \<Rightarrow> scene \<Rightarrow> scene" where
  "update_node_positions net sc = fold (update_node_position net) (dict_keys (nodes sc)) sc"

section \<open>The links follow their ends\<close>

fun end_links :: "scene \<Rightarrow> link_end \<Rightarrow> nat list" where
  "end_links sc (NodeEnd i) = node_links (node_at sc i)"
| "end_links sc (ChannelEnd c) = chan_links (channel_at sc c)"

definition current_points :: "scene \<Rightarrow> wired_link \<Rightarrow> point \<times> point" where
  "current_points sc lk = (position (node_at sc (node1 lk)), end_position sc (node2 lk))"

definition link_ok :: "scene \<Rightarrow> nat \<Rightarrow> bool" where
  "link_ok sc l = (let lk = wired sc ! l
     in l \<in> set (end_links sc (NodeEnd (node1 lk))) \<and> l \<in> set (end_links sc (node2 lk)) \<and>
        (points lk = None \<or> points lk = Some (current_points sc lk)))"

text \<open>Every link is registered with the views at both its ends, a view only has links that end in it, and a
  link that is drawn is drawn between the places where its ends are.\<close>

definition links_ok :: "scene \<Rightarrow> bool" where
  "links_ok sc = ((\<forall>l < length (wired sc). link_ok sc l) \<and>
     (\<forall>e. \<forall>l \<in> set (end_links sc e). l < length (wired sc) \<and> e \<in> {NodeEnd (node1 (wired sc ! l)), node2 (wired sc ! l)}))"

lemma current_points_update [simp]: "current_points sc (lk\<lparr>points := q\<rparr>) = current_points sc lk"
  by (simp add: current_points_def)

lemma node_at_change [simp]: "node_at (change_node i f sc) j = (if j = i then f (node_at sc i) else node_at sc j)"
  by (simp add: node_at_def change_node_def dict_get_default_def)

lemma channel_at_change [simp]:
  "channel_at (change_channel c f sc) d = (if d = c then f (channel_at sc c) else channel_at sc d)"
  by (simp add: channel_at_def change_channel_def dict_get_default_def)

lemma change_other [simp]:
  "channel_at (change_node i f sc) c = channel_at sc c" "node_at (change_channel c g sc) i = node_at sc i"
  "wired (change_node i f sc) = wired sc" "wired (change_channel c g sc) = wired sc"
  "traits (change_node i f sc) = traits sc" "traits (change_channel c g sc) = traits sc"
  "channels (change_node i f sc) = channels sc" "nodes (change_channel c g sc) = nodes sc"
  by (simp_all add: change_node_def change_channel_def node_at_def channel_at_def)

lemma node_at_fields [simp]:
  "node_at (sc\<lparr>wired := w\<rparr>) i = node_at sc i" "channel_at (sc\<lparr>wired := w\<rparr>) c = channel_at sc c"
  "node_at (sc\<lparr>traits := d\<rparr>) i = node_at sc i" "channel_at (sc\<lparr>traits := d\<rparr>) c = channel_at sc c"
  "node_at (sc\<lparr>canvas_bounds := b\<rparr>) i = node_at sc i" "channel_at (sc\<lparr>canvas_bounds := b\<rparr>) c = channel_at sc c"
  by (simp_all add: node_at_def channel_at_def)

lemma get_views [simp]:
  "node_at (get_node i sc) j = node_at sc j" "channel_at (get_node i sc) c = channel_at sc c"
  "node_at (get_channel c sc) j = node_at sc j" "channel_at (get_channel c sc) d = channel_at sc d"
  "wired (get_node i sc) = wired sc" "wired (get_channel c sc) = wired sc"
  "traits (get_node i sc) = traits sc" "traits (get_channel c sc) = traits sc"
  by (simp_all add: get_node_def get_channel_def node_at_def channel_at_def dict_get_default_def has_key_def)

lemma widen_views [simp]:
  "node_at (widen_bounds p sc) i = node_at sc i" "channel_at (widen_bounds p sc) c = channel_at sc c"
  "wired (widen_bounds p sc) = wired sc" "traits (widen_bounds p sc) = traits sc"
  "nodes (widen_bounds p sc) = nodes sc" "channels (widen_bounds p sc) = channels sc"
  by (simp_all add: widen_bounds_def split_beta)

lemma links_ok_views:
  assumes "links_ok sc" "\<And>i. node_at sc' i = node_at sc i" "\<And>c. channel_at sc' c = channel_at sc c" "wired sc' = wired sc"
  shows "links_ok sc'"
proof -
  have "end_links sc' e = end_links sc e" "end_position sc' e = end_position sc e" for e
    using assms by (cases e; simp)+
  with assms show ?thesis by (simp add: links_ok_def link_ok_def current_points_def)
qed

lemma update_points_views [simp]:
  "node_at (fold update_points ls sc) i = node_at sc i" "channel_at (fold update_points ls sc) c = channel_at sc c"
  "nodes (fold update_points ls sc) = nodes sc" "channels (fold update_points ls sc) = channels sc"
  "traits (fold update_points ls sc) = traits sc" "length (wired (fold update_points ls sc)) = length (wired sc)"
  by (induction ls arbitrary: sc) (simp_all add: update_points_def Let_def)

lemma end_position_cong: "(\<And>i. node_at sc' i = node_at sc i) \<Longrightarrow> (\<And>c. channel_at sc' c = channel_at sc c) \<Longrightarrow>
    end_position sc' e = end_position sc e"
  by (cases e) simp_all

lemma wired_update_points: "l < length (wired sc) \<Longrightarrow> wired (fold update_points ls sc) ! l =
    (if l \<in> set ls then (wired sc ! l)\<lparr>points := Some (current_points sc (wired sc ! l))\<rparr> else wired sc ! l)"
proof (induction ls arbitrary: sc)
  case (Cons k ls)
  let ?sc = "update_points k sc"
  have views: "\<And>i. node_at ?sc i = node_at sc i" "\<And>c. channel_at ?sc c = channel_at sc c" "length (wired ?sc) = length (wired sc)"
    by (simp_all add: update_points_def Let_def)
  have cur: "current_points ?sc lk = current_points sc lk" for lk
    using views end_position_cong [of ?sc sc] by (simp add: current_points_def)
  have "wired ?sc ! l = (if l = k then (wired sc ! l)\<lparr>points := Some (current_points sc (wired sc ! l))\<rparr> else wired sc ! l)"
    using Cons.prems by (simp add: update_points_def Let_def current_points_def)
  then show ?case using Cons.IH [of ?sc] Cons.prems views cur by auto
qed simp

text \<open>Moving the view \<open>e\<close> and refreshing its links.\<close>

lemma links_ok_move:
  assumes ok: "links_ok sc"
    and pos: "\<And>e'. e' \<noteq> e \<Longrightarrow> end_position sc1 e' = end_position sc e'"
    and same: "\<And>e'. end_links sc1 e' = end_links sc e'" "wired sc1 = wired sc"
  shows "links_ok (fold update_points (end_links sc1 e) sc1)" (is "links_ok ?sc2")
proof -
  have views: "end_links ?sc2 e' = end_links sc e'" "end_position ?sc2 e' = end_position sc1 e'" for e'
    using same(1) [of e'] by (cases e'; simp)+
  have wired2: "wired ?sc2 ! l =
      (if l \<in> set (end_links sc e) then (wired sc ! l)\<lparr>points := Some (current_points sc1 (wired sc ! l))\<rparr> else wired sc ! l)"
    if "l < length (wired sc)" for l
    using that wired_update_points [of l sc1] same by simp
  have cur2: "current_points ?sc2 lk = current_points sc1 lk" for lk
    using views(2) [of "NodeEnd (node1 lk)"] views(2) [of "node2 lk"] by (simp add: current_points_def)
  have cur1: "current_points sc1 (wired sc ! l) = current_points sc (wired sc ! l)"
    if "l < length (wired sc)" "l \<notin> set (end_links sc e)" for l
  proof -
    have "l \<in> set (end_links sc (NodeEnd (node1 (wired sc ! l))))" "l \<in> set (end_links sc (node2 (wired sc ! l)))"
      using ok that(1) by (auto simp: links_ok_def link_ok_def Let_def)
    with that(2) have "NodeEnd (node1 (wired sc ! l)) \<noteq> e" "node2 (wired sc ! l) \<noteq> e" by blast+
    from pos [OF this(1)] pos [OF this(2)] show ?thesis by (simp add: current_points_def)
  qed
  have "link_ok ?sc2 l" if "l < length (wired sc)" for l
    using ok that wired2 [OF that] cur1 [OF that] cur2 views(1) same
    by (auto simp: links_ok_def link_ok_def Let_def simp del: end_links.simps)
  moreover have "\<forall>l \<in> set (end_links ?sc2 e'). l < length (wired ?sc2) \<and>
      e' \<in> {NodeEnd (node1 (wired ?sc2 ! l)), node2 (wired ?sc2 ! l)}" for e'
    unfolding views using ok wired2 same by (auto simp: links_ok_def)
  ultimately show ?thesis using same by (simp add: links_ok_def)
qed

lemma links_ok_set_node: "links_ok sc \<Longrightarrow> links_ok (set_node_position i p sc)"
proof -
  assume ok: "links_ok sc"
  let ?sc1 = "change_node i (\<lambda>v. v\<lparr>position := p\<rparr>) sc"
  have "links_ok (fold update_points (end_links ?sc1 (NodeEnd i)) ?sc1)"
  proof (rule links_ok_move [OF ok])
    show "end_position ?sc1 e' = end_position sc e'" if "e' \<noteq> NodeEnd i" for e' using that by (cases e') auto
    show "end_links ?sc1 e' = end_links sc e'" for e' by (cases e') auto
  qed simp
  then show ?thesis unfolding set_node_position_def Let_def by (rule links_ok_views) simp_all
qed

lemma links_ok_set_channel: "links_ok sc \<Longrightarrow> links_ok (set_channel_position c p sc)"
proof -
  assume ok: "links_ok sc"
  let ?sc1 = "change_channel c (\<lambda>v. v\<lparr>chan_position := p\<rparr>) sc"
  have "links_ok (fold update_points (end_links ?sc1 (ChannelEnd c)) ?sc1)"
  proof (rule links_ok_move [OF ok])
    show "end_position ?sc1 e' = end_position sc e'" if "e' \<noteq> ChannelEnd c" for e' using that by (cases e') auto
    show "end_links ?sc1 e' = end_links sc e'" for e' by (cases e') auto
  qed simp
  then show ?thesis by (simp add: set_channel_position_def Let_def)
qed

lemma links_ok_set_position: "links_ok sc \<Longrightarrow> links_ok (set_position e p sc)"
  by (cases e) (simp_all add: links_ok_set_node links_ok_set_channel)

lemma add_end_link_views [simp]:
  "end_links (add_end_link l e sc) e' = (if e' = e then end_links sc e @ [l] else end_links sc e')"
  "end_position (add_end_link l e sc) e' = end_position sc e'"
  "wired (add_end_link l e sc) = wired sc" "traits (add_end_link l e sc) = traits sc"
  "position (node_at (add_end_link l e sc) i) = position (node_at sc i)"
  by (cases e; cases e'; auto)+

lemma end_links_wired [simp]: "end_links (sc\<lparr>wired := w\<rparr>) e = end_links sc e"
  "end_position (sc\<lparr>wired := w\<rparr>) e = end_position sc e"
  by (cases e; simp)+

lemma links_ok_create: "links_ok sc \<Longrightarrow> links_ok (create_link i e sc)"
proof -
  assume ok: "links_ok sc"
  let ?n = "length (wired sc)" and ?sc1 = "create_link i e sc" and ?lk = "\<lparr>node1 = i, node2 = e, points = None\<rparr>"
  have w: "wired ?sc1 = wired sc @ [?lk]" by (simp add: create_link_def Let_def)
  have links: "set (end_links ?sc1 e') = set (end_links sc e') \<union> (if e' = NodeEnd i \<or> e' = e then {?n} else {})" for e'
    by (auto simp: create_link_def Let_def simp del: end_links.simps add_end_link.simps)
  have pos: "end_position ?sc1 e' = end_position sc e'" "position (node_at ?sc1 j) = position (node_at sc j)" for e' j
    by (simp_all add: create_link_def Let_def del: end_position.simps add_end_link.simps)
  have cur: "current_points ?sc1 lk = current_points sc lk" for lk by (simp add: current_points_def pos)
  have "link_ok ?sc1 l" if "l < Suc ?n" for l
  proof (cases "l = ?n")
    case True
    then show ?thesis by (simp add: link_ok_def Let_def w links del: end_links.simps)
  next
    case False
    then show ?thesis using ok that
      by (auto simp: links_ok_def link_ok_def Let_def w nth_append links cur simp del: end_links.simps)
  qed
  moreover have "l < length (wired ?sc1) \<and> e' \<in> {NodeEnd (node1 (wired ?sc1 ! l)), node2 (wired ?sc1 ! l)}"
    if "l \<in> set (end_links ?sc1 e')" for e' l
  proof (cases "l = ?n")
    case True
    have "?n \<notin> set (end_links sc e')" using ok by (auto simp: links_ok_def)
    then show ?thesis using that True by (auto simp: w links split: if_splits)
  next
    case False
    then have "l \<in> set (end_links sc e')" using that by (auto simp: links split: if_splits)
    then show ?thesis using ok by (auto simp: links_ok_def w nth_append intro: less_SucI)
  qed
  ultimately show ?thesis by (simp add: links_ok_def w)
qed

lemma links_ok_change:
  assumes "links_ok sc" "\<And>v. position (f v) = position v \<and> node_links (f v) = node_links v"
  shows "links_ok (change_node i f sc)"
proof -
  have "end_links (change_node i f sc) e = end_links sc e" "end_position (change_node i f sc) e = end_position sc e" for e
    using assms(2) by (cases e; simp)+
  moreover have "position (node_at (change_node i f sc) j) = position (node_at sc j)" for j using assms(2) by simp
  ultimately show ?thesis using assms(1)
    by (simp add: links_ok_def link_ok_def current_points_def Let_def del: end_links.simps node_at_change)
qed

lemma links_ok_get [simp]: "links_ok sc \<Longrightarrow> links_ok (get_node i sc)" "links_ok sc \<Longrightarrow> links_ok (get_channel c sc)"
  by (erule links_ok_views; simp)+

lemma links_ok_has_mobility: "links_ok sc \<Longrightarrow> links_ok (snd (has_mobility net i sc))"
  by (auto simp: has_mobility_def Let_def intro: links_ok_change split: option.split)

lemma links_ok_traits: "links_ok sc \<Longrightarrow> links_ok (sc\<lparr>traits := d\<rparr>)"
  by (erule links_ok_views) simp_all

lemma links_ok_link_other: "links_ok (snd gs) \<Longrightarrow> links_ok (snd (link_other net i j gs))"
  using links_ok_has_mobility [of "get_node j (snd gs)" net j]
  by (auto simp: link_other_def Let_def split_beta intro!: links_ok_create)

lemma fold_invariant': "I s \<Longrightarrow> (\<And>x s. x \<in> set xs \<Longrightarrow> I s \<Longrightarrow> I (f x s)) \<Longrightarrow> I (fold f xs s)"
  by (induction xs arbitrary: s) auto

lemma rfold_Inr_invariant:
  "rfold f xs s = Inr s' \<Longrightarrow> I s \<Longrightarrow> (\<And>x s s'. x \<in> set xs \<Longrightarrow> I s \<Longrightarrow> f x s = Inr s' \<Longrightarrow> I s') \<Longrightarrow> I s'"
  by (induction xs arbitrary: s) (auto simp: rbind_eq_Inr_iff)

lemma links_ok_scan_device: "scan_device net i dev gs = Inr gs' \<Longrightarrow> links_ok (snd gs) \<Longrightarrow> links_ok (snd gs')"
  by (auto simp: scan_device_def link_channel_def Let_def split_beta links_ok_traits
      intro!: links_ok_create fold_invariant' [where I = "\<lambda>gs. links_ok (snd gs)"] links_ok_link_other
      split: if_splits option.splits)

lemma links_ok_scan_node: "scan_node net i gs = Inr gs' \<Longrightarrow> links_ok (snd gs) \<Longrightarrow> links_ok (snd gs')"
  unfolding scan_node_def
  by (auto simp: Let_def split_beta links_ok_set_node
      elim!: rfold_Inr_invariant [where I = "\<lambda>gs. links_ok (snd gs)"] links_ok_scan_device split: option.splits)

lemma links_ok_place: "place np os = Inr os' \<Longrightarrow> links_ok (snd os) \<Longrightarrow> links_ok (snd os')"
  by (auto simp: place_def split_beta rbind_eq_Inr_iff links_ok_set_position)

lemma links_ok_scan: "scan_topology layout net sc = Inr sc' \<Longrightarrow> links_ok sc \<Longrightarrow> links_ok sc'"
  by (auto simp: scan_topology_def rbind_eq_Inr_iff split_beta
      dest!: rfold_Inr_invariant [where I = "\<lambda>gs. links_ok (snd gs)"] links_ok_scan_node links_ok_place)

lemma links_ok_update: "links_ok sc \<Longrightarrow> links_ok (update_node_position net i sc)"
  using links_ok_has_mobility [of sc net i]
  by (auto simp: update_node_position_def split_beta links_ok_set_node split: option.split)

lemma links_ok_updates: "links_ok sc \<Longrightarrow> links_ok (update_node_positions net sc)"
  unfolding update_node_positions_def by (erule fold_invariant') (rule links_ok_update)

section \<open>The names of the graph\<close>

lemma node_name_split: "split_on CHR '' '' (node_name i) = [''Node'', str_of_int i]"
  and channel_name_split: "split_on CHR '' '' (channel_name i) = [''Channel'', str_of_int i]"
proof -
  have "CHR '' '' \<notin> set (str_of_int i)"
    using str_of_nat_digits [of "CHR '' ''"] by (auto simp: str_of_int_def is_space_def)
  then show "split_on CHR '' '' (node_name i) = [''Node'', str_of_int i]"
    "split_on CHR '' '' (channel_name i) = [''Channel'', str_of_int i]"
    by (simp_all add: node_name_def channel_name_def split_on_no_sep)
qed

lemma str_of_int_inject: "str_of_int i = str_of_int j \<longleftrightarrow> i = j"
  using py_int_str_of_int [of i] py_int_str_of_int [of j] by (metis Inr_inject)

lemma name_inject [simp]:
  "node_name i = node_name j \<longleftrightarrow> i = j" "channel_name i = channel_name j \<longleftrightarrow> i = j"
  "node_name i \<noteq> channel_name j" "channel_name i \<noteq> node_name j"
  by (simp_all add: node_name_def channel_name_def str_of_int_inject)

lemma named_object_node: "has_key (nodes sc) i \<Longrightarrow> named_object sc (node_name i) obj = Inr (NodeEnd i)"
  by (simp add: named_object_def node_name_split py_int_str_of_int)

lemma named_object_channel: "has_key (channels sc) c \<Longrightarrow> named_object sc (channel_name c) obj = Inr (ChannelEnd c)"
  by (simp add: named_object_def channel_name_split py_int_str_of_int)

section \<open>What a scan draws\<close>

text \<open>The links a scan creates, in order: from every node, for each of its wired devices, to the other nodes of
  its channel, or to the view of the channel when more than two devices share it.\<close>

definition wired_device :: "(string, netdevice_traits) dict \<Rightarrow> sim_device \<Rightarrow> bool" where
  "wired_device d dev =
     (let t = fst (lookup_netdevice_traits (dev_type dev) d) in is_wireless t \<noteq> Some True \<and> \<not> is_virtual t)"

definition channel_ends :: "sim_net \<Rightarrow> int \<Rightarrow> int \<Rightarrow> link_end list" where
  "channel_ends net i c =
     (if 2 < length (chan_nodes net c) then [ChannelEnd c] else map NodeEnd (filter (\<lambda>j. j \<noteq> i) (chan_nodes net c)))"

definition device_wires :: "(string, netdevice_traits) dict \<Rightarrow> sim_net \<Rightarrow> int \<Rightarrow> sim_device \<Rightarrow> (int \<times> link_end) list" where
  "device_wires d net i dev =
     (if wired_device d dev then (case dev_channel dev of None \<Rightarrow> [] | Some c \<Rightarrow> map (Pair i) (channel_ends net i c)) else [])"

definition node_wires :: "(string, netdevice_traits) dict \<Rightarrow> sim_net \<Rightarrow> int \<Rightarrow> (int \<times> link_end) list" where
  "node_wires d net i = concat (map (device_wires d net i) (devices (sim_node_at net i)))"

definition topology_wires :: "(string, netdevice_traits) dict \<Rightarrow> sim_net \<Rightarrow> (int \<times> link_end) list" where
  "topology_wires d net = concat (map (node_wires d net) (map int [0..<length (sim_nodes net)]))"

definition link_ends :: "scene \<Rightarrow> (int \<times> link_end) list" where
  "link_ends sc = map (\<lambda>lk. (node1 lk, node2 lk)) (wired sc)"

definition traits_agree :: "(string, netdevice_traits) dict \<Rightarrow> scene \<Rightarrow> bool" where
  "traits_agree d sc = (\<forall>ty. fst (lookup_netdevice_traits ty (traits sc)) = fst (lookup_netdevice_traits ty d))"

lemma link_ends_simps [simp]:
  "link_ends (create_link i e sc) = link_ends sc @ [(i, e)]" "link_ends (get_node i sc) = link_ends sc"
  "link_ends (get_channel c sc) = link_ends sc" "link_ends (change_node i f sc) = link_ends sc"
  "link_ends (change_channel c g sc) = link_ends sc" "link_ends (widen_bounds p sc) = link_ends sc"
  "link_ends (sc\<lparr>traits := d\<rparr>) = link_ends sc"
  by (simp_all add: link_ends_def create_link_def Let_def)

lemma link_ends_update [simp]: "link_ends (fold update_points ls sc) = link_ends sc"
proof (rule nth_equalityI)
  fix l
  assume "l < length (link_ends (fold update_points ls sc))"
  then show "link_ends (fold update_points ls sc) ! l = link_ends sc ! l"
    by (simp add: link_ends_def wired_update_points)
qed (simp add: link_ends_def)

lemma link_ends_position [simp]: "link_ends (set_position e p sc) = link_ends sc" "link_ends (set_node_position i p sc) = link_ends sc"
  by (cases e; simp add: set_node_position_def set_channel_position_def Let_def)
    (simp add: set_node_position_def Let_def)

lemma traits_position [simp]: "traits (set_node_position i p sc) = traits sc" "traits (create_link i e sc) = traits sc"
  by (simp_all add: set_node_position_def create_link_def Let_def)

lemma has_mobility_views [simp]:
  "link_ends (snd (has_mobility net i sc)) = link_ends sc" "traits (snd (has_mobility net i sc)) = traits sc"
  by (simp_all add: has_mobility_def Let_def split: option.split)

lemma link_other_ends:
  "link_ends (snd (link_other net i j gs)) = link_ends (snd gs) @ (if j = i then [] else [(i, NodeEnd j)])"
  "traits (snd (link_other net i j gs)) = traits (snd gs)"
  by (simp_all add: link_other_def Let_def split_beta)

lemma link_others_ends:
  "link_ends (snd (fold (link_other net i) js gs)) = link_ends (snd gs) @ map (\<lambda>j. (i, NodeEnd j)) (filter (\<lambda>j. j \<noteq> i) js)"
  "traits (snd (fold (link_other net i) js gs)) = traits (snd gs)"
  by (induction js arbitrary: gs) (simp_all add: link_other_ends)

lemma lookup_remembers: "fst (lookup_netdevice_traits ty' (snd (lookup_netdevice_traits ty d))) = fst (lookup_netdevice_traits ty' d)"
  by (simp add: lookup_netdevice_traits_def dict_get_def Let_def split: option.split)

lemma lookup_agree: "traits_agree d sc \<Longrightarrow> traits_agree d (sc\<lparr>traits := snd (lookup_netdevice_traits ty (traits sc))\<rparr>)"
  by (simp add: traits_agree_def lookup_remembers)

lemma scan_device_ends: "scan_device net i dev gs = Inr gs' \<Longrightarrow> traits_agree d (snd gs) \<Longrightarrow>
    link_ends (snd gs') = link_ends (snd gs) @ device_wires d net i dev \<and> traits_agree d (snd gs')"
  using lookup_agree [of d "snd gs" "dev_type dev"]
  by (auto simp: scan_device_def Let_def split_beta device_wires_def wired_device_def channel_ends_def link_channel_def
      link_others_ends REPRESENT_CHANNELS_AS_NODES_def traits_agree_def split: if_splits option.splits)

lemma scan_devices_ends: "rfold (scan_device net i) devs gs = Inr gs' \<Longrightarrow> traits_agree d (snd gs) \<Longrightarrow>
    link_ends (snd gs') = link_ends (snd gs) @ concat (map (device_wires d net i) devs) \<and> traits_agree d (snd gs')"
proof (induction devs arbitrary: gs)
  case (Cons dev devs)
  then obtain gs1 where "scan_device net i dev gs = Inr gs1" "rfold (scan_device net i) devs gs1 = Inr gs'"
    by (auto simp: rbind_eq_Inr_iff)
  with Cons.IH [of gs1] Cons.prems scan_device_ends [of net i dev gs gs1 d] show ?case by simp
qed simp

lemma scan_node_ends: "scan_node net i gs = Inr gs' \<Longrightarrow> traits_agree d (snd gs) \<Longrightarrow>
    link_ends (snd gs') = link_ends (snd gs) @ node_wires d net i \<and> traits_agree d (snd gs')"
  unfolding scan_node_def Let_def split_beta
  by (drule scan_devices_ends [where d = d]) (auto simp: node_wires_def traits_agree_def split: option.splits)

lemma scan_nodes_ends: "rfold (scan_node net) is gs = Inr gs' \<Longrightarrow> traits_agree d (snd gs) \<Longrightarrow>
    link_ends (snd gs') = link_ends (snd gs) @ concat (map (node_wires d net) is) \<and> traits_agree d (snd gs')"
proof (induction "is" arbitrary: gs)
  case (Cons i "is")
  then obtain gs1 where "scan_node net i gs = Inr gs1" "rfold (scan_node net) is gs1 = Inr gs'"
    by (auto simp: rbind_eq_Inr_iff)
  with Cons.IH [of gs1] Cons.prems scan_node_ends [of net i gs gs1 d] show ?case by simp
qed simp

lemma place_ends: "rfold place nps os = Inr os' \<Longrightarrow> link_ends (snd os') = link_ends (snd os)"
  by (erule rfold_Inr_invariant [where I = "\<lambda>s. link_ends (snd s) = link_ends (snd os)"])
    (auto simp: place_def split_beta rbind_eq_Inr_iff)

lemma scan_topology_ends:
  "scan_topology layout net sc = Inr sc' \<Longrightarrow> link_ends sc' = link_ends sc @ topology_wires (traits sc) net"
  using scan_nodes_ends [where d = "traits sc"]
  by (fastforce simp: scan_topology_def rbind_eq_Inr_iff split_beta topology_wires_def traits_agree_def dest: place_ends)

section \<open>Where a scan puts the views\<close>

lemma has_key_set [simp]: "has_key (dict_set k v d) k' \<longleftrightarrow> k' = k \<or> has_key d k'"
  by (simp add: has_key_def)

lemma has_key_nodes [simp]:
  "has_key (nodes (get_node i sc)) k \<longleftrightarrow> k = i \<or> has_key (nodes sc) k" "nodes (get_channel c sc) = nodes sc"
  "has_key (nodes (change_node i f sc)) k \<longleftrightarrow> k = i \<or> has_key (nodes sc) k"
  "has_key (nodes (create_link i e sc)) k \<longleftrightarrow> k = i \<or> e = NodeEnd k \<or> has_key (nodes sc) k"
  by (auto simp: get_node_def get_channel_def change_node_def create_link_def Let_def change_channel_def)
    (cases e; auto simp: change_node_def change_channel_def)+

lemma has_key_channels [simp]:
  "has_key (channels (get_channel c sc)) k \<longleftrightarrow> k = c \<or> has_key (channels sc) k" "channels (get_node i sc) = channels sc"
  "has_key (channels (change_channel c g sc)) k \<longleftrightarrow> k = c \<or> has_key (channels sc) k"
  "has_key (channels (create_link i e sc)) k \<longleftrightarrow> e = ChannelEnd k \<or> has_key (channels sc) k"
  by (auto simp: get_node_def get_channel_def change_channel_def create_link_def Let_def change_node_def)
    (cases e; auto simp: change_node_def change_channel_def)+

lemma create_link_views [simp]:
  "position (node_at (create_link i e sc) j) = position (node_at sc j)"
  "has_mobility_cache (node_at (create_link i e sc) j) = has_mobility_cache (node_at sc j)"
  "chan_position (channel_at (create_link i e sc) c) = chan_position (channel_at sc c)"
  by (cases e; simp add: create_link_def Let_def)+

definition mobile :: "sim_net \<Rightarrow> int \<Rightarrow> bool" where
  "mobile net i = (mobility (sim_node_at net i) \<noteq> None)"

definition scan_ok :: "sim_net \<Rightarrow> int set \<Rightarrow> graph \<times> scene \<Rightarrow> bool" where
  "scan_ok net D gs = (case gs of (g, sc) \<Rightarrow>
     (\<forall>i. has_mobility_cache (node_at sc i) \<in> {None, Some (mobile net i)}) \<and>
     (\<forall>n \<in> set (graph_nodes g). (\<exists>i. n = node_name i \<and> has_key (nodes sc) i \<and> \<not> mobile net i) \<or> (\<exists>c. n = channel_name c)) \<and>
     (\<forall>c. channel_name c \<in> set (graph_nodes g) \<longleftrightarrow> (\<exists>i. (i, ChannelEnd c) \<in> set (link_ends sc) \<and> \<not> mobile net i)) \<and>
     (\<forall>i c. (i, ChannelEnd c) \<in> set (link_ends sc) \<longrightarrow> has_key (channels sc) c) \<and>
     (\<forall>c. chan_position (channel_at sc c) = (0, 0)) \<and>
     (\<forall>i \<in> D. has_key (nodes sc) i \<and> (\<not> mobile net i \<longrightarrow> node_name i \<in> set (graph_nodes g)) \<and>
        (mobile net i \<longrightarrow> position (node_at sc i) = transform_point_simulation_to_canvas (the (mobility (sim_node_at net i))))))"

lemma graph_add_nodes [simp]:
  "set (graph_nodes (graph_add_node n g)) = insert n (set (graph_nodes g))"
  "set (graph_nodes (graph_add_edge n m g)) = insert n (insert m (set (graph_nodes g)))"
  by (auto simp: graph_add_node_def graph_add_edge_def Let_def)

lemma not_mobile: "mobility (sim_node_at net i) = None \<longleftrightarrow> \<not> mobile net i"
  by (simp add: mobile_def del: not_None_eq)

lemma has_mobility_eq: "has_mobility net i sc = 
   (case has_mobility_cache (node_at sc i) of Some b \<Rightarrow> (b, sc)
    | None \<Rightarrow> (mobile net i, change_node i (\<lambda>v. v\<lparr>has_mobility_cache := Some (mobile net i)\<rparr>) sc))"
  by (simp add: has_mobility_def mobile_def Let_def split: option.split)

lemma has_mobility_cached: "scan_ok net D (g, sc) \<Longrightarrow> fst (has_mobility net i sc) = mobile net i"
proof -
  assume "scan_ok net D (g, sc)"
  then have "has_mobility_cache (node_at sc i) \<in> {None, Some (mobile net i)}" by (simp add: scan_ok_def)
  then show ?thesis by (auto simp: has_mobility_eq)
qed

lemma has_mobility_ok: "scan_ok net D (g, sc) \<Longrightarrow> scan_ok net D (g, snd (has_mobility net i sc))"
  by (auto simp: scan_ok_def has_mobility_eq split: option.split)

lemma has_key_mobility: "has_key (nodes sc) k \<Longrightarrow> has_key (nodes (snd (has_mobility net i sc))) k"
  by (simp add: has_mobility_eq split: option.split)

lemma scan_ok_get_node: "scan_ok net D (g, sc) \<Longrightarrow> scan_ok net D (g, get_node i sc)"
  by (auto simp: scan_ok_def)

lemma scan_ok_get_channel: "scan_ok net D (g, sc) \<Longrightarrow> scan_ok net D (g, get_channel c sc)"
  by (auto simp: scan_ok_def)

lemma scan_ok_create:
  "scan_ok net D (g, sc) \<Longrightarrow> (\<And>c. e = ChannelEnd c \<Longrightarrow> \<not> mobile net i \<longrightarrow> channel_name c \<in> set (graph_nodes g)) \<Longrightarrow>
   scan_ok net D (g, create_link i e sc)"
  unfolding scan_ok_def by (cases e) (auto; metis)+

lemma scan_ok_edge: "scan_ok net D (g, sc) \<Longrightarrow> has_key (nodes sc) i \<Longrightarrow> has_key (nodes sc) j \<Longrightarrow> \<not> mobile net i \<Longrightarrow>
    \<not> mobile net j \<Longrightarrow> scan_ok net D (graph_add_edge (node_name i) (node_name j) g, sc)"
  by (auto simp: scan_ok_def)

lemma scan_ok_link_other:
  assumes "scan_ok net D gs" "has_key (nodes (snd gs)) i"
  shows "scan_ok net D (link_other net i j gs) \<and> has_key (nodes (snd (link_other net i j gs))) i"
proof -
  obtain g sc where gs: "gs = (g, sc)" by (cases gs)
  let ?sc1 = "get_node j sc" and ?sc2 = "snd (has_mobility net j (get_node j sc))"
  have ok1: "scan_ok net D (g, ?sc1)" and ok2: "scan_ok net D (g, ?sc2)"
    using assms gs by (simp_all add: scan_ok_get_node has_mobility_ok)
  have keys: "has_key (nodes ?sc2) i" "has_key (nodes ?sc2) j"
    using assms gs by (simp_all add: has_key_mobility)
  have b: "fst (has_mobility net j ?sc1) = mobile net j" by (rule has_mobility_cached [OF ok1])
  have edge: "scan_ok net D (if \<not> mobile net i \<and> \<not> mobile net j then graph_add_edge (node_name i) (node_name j) g else g, ?sc2)"
    using ok2 keys by (simp add: scan_ok_edge)
  show ?thesis
    using gs assms ok1 edge keys b
    by (auto simp: link_other_def Let_def split_beta not_mobile intro!: scan_ok_create scan_ok_get_node)
qed

lemma scan_ok_link_others:
  "scan_ok net D gs \<Longrightarrow> has_key (nodes (snd gs)) i \<Longrightarrow>
   scan_ok net D (fold (link_other net i) js gs) \<and> has_key (nodes (snd (fold (link_other net i) js gs))) i"
  by (induction js arbitrary: gs) (simp_all add: scan_ok_link_other)

lemma scan_ok_channel_link:
  assumes "scan_ok net D (g, sc)" "has_key (nodes sc) i" "has_key (channels sc) c"
  shows "scan_ok net D (if mobile net i then g else graph_add_edge (node_name i) (channel_name c) g,
                        create_link i (ChannelEnd c) sc)"
  using assms unfolding scan_ok_def by (cases "mobile net i") (simp_all, blast+)

lemma scan_ok_link_channel:
  assumes "scan_ok net D gs" "has_key (nodes (snd gs)) i"
  shows "scan_ok net D (link_channel net i c gs) \<and> has_key (nodes (snd (link_channel net i c gs))) i"
proof -
  obtain g sc where gs: "gs = (g, sc)" by (cases gs)
  let ?sc1 = "get_channel c (get_node i (get_channel c sc))"
  have "scan_ok net D (g, ?sc1)" using assms gs by (simp add: scan_ok_get_node scan_ok_get_channel)
  moreover have "has_key (nodes ?sc1) i" "has_key (channels ?sc1) c" by simp_all
  ultimately show ?thesis
    using scan_ok_channel_link [of net D g ?sc1 i c] gs
    by (auto simp: link_channel_def Let_def not_mobile)
qed

lemma scan_ok_traits: "scan_ok net D (g, sc) \<Longrightarrow> scan_ok net D (g, sc\<lparr>traits := d\<rparr>)"
  by (simp add: scan_ok_def)

lemma scan_ok_device:
  assumes "scan_device net i dev gs = Inr gs'" "scan_ok net D gs" "has_key (nodes (snd gs)) i"
  shows "scan_ok net D gs' \<and> has_key (nodes (snd gs')) i"
proof -
  obtain g sc where gs: "gs = (g, sc)" by (cases gs)
  define sc1 where "sc1 = sc\<lparr>traits := snd (lookup_netdevice_traits (dev_type dev) (traits sc))\<rparr>"
  have ok: "scan_ok net D (g, sc1)" "has_key (nodes (snd (g, sc1))) i"
    using assms gs by (simp_all add: sc1_def scan_ok_traits)
  have "gs' = (g, sc1) \<or> (\<exists>c. gs' = link_channel net i c (g, sc1) \<or> gs' = fold (link_other net i) (chan_nodes net c) (g, sc1))"
    using assms(1) gs by (auto simp: scan_device_def Let_def split_beta sc1_def split: if_splits option.splits)
  then show ?thesis using ok scan_ok_link_channel [OF ok] scan_ok_link_others [OF ok] by auto
qed

lemma scan_ok_devices:
  "rfold (scan_device net i) devs gs = Inr gs' \<Longrightarrow> scan_ok net D gs \<Longrightarrow> has_key (nodes (snd gs)) i \<Longrightarrow> scan_ok net D gs'"
  by (drule rfold_Inr_invariant [where I = "\<lambda>gs. scan_ok net D gs \<and> has_key (nodes (snd gs)) i"])
    (auto dest: scan_ok_device)

lemma set_node_position_views [simp]:
  "node_at (set_node_position i p sc) j = (if j = i then (node_at sc i)\<lparr>position := p\<rparr> else node_at sc j)"
  "channel_at (set_node_position i p sc) c = channel_at sc c"
  "has_key (nodes (set_node_position i p sc)) k \<longleftrightarrow> k = i \<or> has_key (nodes sc) k"
  "channels (set_node_position i p sc) = channels sc"
  by (simp_all add: set_node_position_def Let_def)

lemma set_channel_position_views [simp]:
  "channel_at (set_channel_position c p sc) d = (if d = c then (channel_at sc c)\<lparr>chan_position := p\<rparr> else channel_at sc d)"
  "node_at (set_channel_position c p sc) i = node_at sc i"
  "has_key (channels (set_channel_position c p sc)) k \<longleftrightarrow> k = c \<or> has_key (channels sc) k"
  "nodes (set_channel_position c p sc) = nodes sc"
  by (simp_all add: set_channel_position_def Let_def)

lemma scan_ok_node:
  assumes "scan_node net i gs = Inr gs'" "scan_ok net D gs" "i \<notin> D"
  shows "scan_ok net (insert i D) gs'"
proof -
  obtain g sc where gs: "gs = (g, sc)" by (cases gs)
  define sc1 where "sc1 = get_node i sc"
  have ok1: "scan_ok net D (g, sc1)" "has_key (nodes sc1) i" using assms gs by (simp_all add: sc1_def scan_ok_get_node)
  show ?thesis
  proof (cases "mobility (sim_node_at net i)")
    case None
    then have "scan_ok net (insert i D) (graph_add_node (node_name i) g, sc1)"
      using ok1 not_mobile [of net i] by (auto simp: scan_ok_def)
    then show ?thesis using assms(1) gs None scan_ok_devices ok1
      by (simp add: scan_node_def Let_def sc1_def)
  next
    case (Some p)
    let ?sc2 = "set_node_position i (transform_point_simulation_to_canvas p) sc1"
    have "mobile net i" using Some not_mobile [of net i] by auto
    then have "scan_ok net (insert i D) (g, ?sc2)"
      using ok1 Some by (auto simp: scan_ok_def)
    moreover have "has_key (nodes ?sc2) i" by simp
    ultimately show ?thesis using assms(1) gs Some scan_ok_devices [of net i "devices (sim_node_at net i)" "(g, ?sc2)"]
      by (simp add: scan_node_def Let_def sc1_def)
  qed
qed

lemma scan_ok_nodes:
  "rfold (scan_node net) is gs = Inr gs' \<Longrightarrow> scan_ok net D gs \<Longrightarrow> distinct is \<Longrightarrow> D \<inter> set is = {} \<Longrightarrow> scan_ok net (D \<union> set is) gs'"
proof (induction "is" arbitrary: gs D)
  case (Cons i "is")
  then obtain gs1 where "scan_node net i gs = Inr gs1" "rfold (scan_node net) is gs1 = Inr gs'"
    by (auto simp: rbind_eq_Inr_iff)
  with Cons.IH [of gs1 "insert i D"] Cons.prems scan_ok_node [of net i gs gs1 D] show ?case by auto
qed simp

definition names_object :: "scene \<Rightarrow> string \<Rightarrow> bool" where
  "names_object sc n = ((\<exists>i. n = node_name i \<and> has_key (nodes sc) i) \<or> (\<exists>c. n = channel_name c \<and> has_key (channels sc) c))"

lemma names_object_position [simp]: "names_object sc n \<Longrightarrow> names_object (set_position e p sc) n"
  by (cases e) (auto simp: names_object_def)

lemma place_all:
  "\<forall>n \<in> fst ` set nps. names_object sc n \<Longrightarrow> distinct (map fst nps) \<Longrightarrow>
   \<exists>obj' sc'. rfold place nps (obj, sc) = Inr (obj', sc') \<and>
     (\<forall>i. position (node_at sc' i) = (case map_of nps (node_name i) of Some p \<Rightarrow> p | None \<Rightarrow> position (node_at sc i))) \<and>
     (\<forall>c. chan_position (channel_at sc' c) =
        (case map_of nps (channel_name c) of Some p \<Rightarrow> p | None \<Rightarrow> chan_position (channel_at sc c)))"
proof (induction nps arbitrary: obj sc)
  case (Cons np nps)
  obtain n p where np: "np = (n, p)" by (cases np)
  have absent: "map_of nps n = None" using Cons.prems(2) np by (simp add: map_of_eq_None_iff)
  from Cons.prems(1) np have "names_object sc n" by simp
  then obtain e where e: "named_object sc n obj = Inr e"
    and n: "(\<exists>i. n = node_name i \<and> e = NodeEnd i) \<or> (\<exists>c. n = channel_name c \<and> e = ChannelEnd c)"
    using named_object_node named_object_channel unfolding names_object_def by metis
  have "place np (obj, sc) = Inr (Some e, set_position e p sc)" using e np by (simp add: place_def)
  then show ?case
    using Cons.IH [of "set_position e p sc" "Some e"] Cons.prems np n absent
    by (auto split: option.split)
qed simp

lemma scan_device_total:
  assumes "traits_agree d (snd gs)" "wired_device d dev \<longrightarrow> dev_channel dev \<noteq> None"
  shows "\<exists>gs'. scan_device net i dev gs = Inr gs' \<and> traits_agree d (snd gs')"
proof -
  have "\<exists>gs'. scan_device net i dev gs = Inr gs'"
    using assms by (auto simp: scan_device_def Let_def split_beta wired_device_def traits_agree_def split: option.split)
  then show ?thesis using scan_device_ends [where d = d] assms(1) by blast
qed

lemma scan_node_total:
  assumes "traits_agree d (snd gs)" "\<forall>dev \<in> set (devices (sim_node_at net i)). wired_device d dev \<longrightarrow> dev_channel dev \<noteq> None"
  shows "\<exists>gs'. scan_node net i gs = Inr gs' \<and> traits_agree d (snd gs')"
proof -
  have "\<exists>gs'. rfold (scan_device net i) (devices (sim_node_at net i)) gs1 = Inr gs' \<and> traits_agree d (snd gs')"
    if "traits_agree d (snd gs1)" for gs1
    by (rule rfold_invariant [where I = "\<lambda>gs. traits_agree d (snd gs)"]) (use that assms(2) scan_device_total in auto)
  moreover have "traits_agree d (snd (case mobility (sim_node_at net i) of
      Some p \<Rightarrow> (fst gs, set_node_position i (transform_point_simulation_to_canvas p) (get_node i (snd gs)))
    | None \<Rightarrow> (graph_add_node (node_name i) (fst gs), get_node i (snd gs))))"
    using assms(1) by (simp add: traits_agree_def split: option.split)
  ultimately show ?thesis by (simp add: scan_node_def Let_def split_beta)
qed

definition scene0 :: scene where
  "scene0 = \<lparr>nodes = [], channels = [], wired = [], traits = netdevice_traits0, canvas_bounds = ((0, 0), (0, 0)),
     selected_node = None, show_mode = None, nodes_of_interest = [], node_drag_state = None\<rparr>"

definition wired_devices_attached :: "sim_net \<Rightarrow> bool" where
  "wired_devices_attached net = (\<forall>n \<in> set (sim_nodes net). \<forall>dev \<in> set (devices n).
     wired_device netdevice_traits0 dev \<longrightarrow> dev_channel dev \<noteq> None)"

text \<open>What the code relies on of the layout of pygraphviz: it gives every node of the graph one position.\<close>

definition layout_ok :: "(graph \<Rightarrow> (string \<times> point) list) \<Rightarrow> bool" where
  "layout_ok layout = (\<forall>g. distinct (map fst (layout g)) \<and> fst ` set (layout g) = set (graph_nodes g))"

definition anchored :: "sim_net \<Rightarrow> int \<Rightarrow> bool" where
  "anchored net c = (\<exists>i. (i, ChannelEnd c) \<in> set (topology_wires netdevice_traits0 net) \<and> \<not> mobile net i)"

lemma scan_ok_scene0: "scan_ok net {} (\<lparr>graph_nodes = [], graph_edges = []\<rparr>, scene0)"
  by (simp add: scan_ok_def scene0_def node_at_def channel_at_def link_ends_def dict_get_default_def
      new_node_def new_channel_def)

lemma links_ok_scene0: "links_ok scene0"
proof -
  have "end_links scene0 e = []" for e
    by (cases e) (simp_all add: scene0_def node_at_def channel_at_def dict_get_default_def new_node_def new_channel_def)
  then show ?thesis by (simp add: links_ok_def) (simp add: scene0_def)
qed

lemma scan_run:
  assumes "wired_devices_attached net"
  shows "\<exists>g sc. rfold (scan_node net) (map int [0..<length (sim_nodes net)]) (\<lparr>graph_nodes = [], graph_edges = []\<rparr>, scene0) = Inr (g, sc) \<and>
    scan_ok net (set (map int [0..<length (sim_nodes net)])) (g, sc) \<and> link_ends sc = topology_wires netdevice_traits0 net"
proof -
  let ?is = "map int [0..<length (sim_nodes net)]" and ?gs = "(\<lparr>graph_nodes = [], graph_edges = []\<rparr>, scene0)"
  have agree: "traits_agree netdevice_traits0 (snd ?gs)" by (simp add: traits_agree_def scene0_def)
  have "\<exists>gs'. rfold (scan_node net) ?is ?gs = Inr gs' \<and> traits_agree netdevice_traits0 (snd gs')"
  proof (rule rfold_invariant [where I = "\<lambda>gs. traits_agree netdevice_traits0 (snd gs)", OF _ agree])
    fix i and gs :: "graph \<times> scene"
    assume "i \<in> set ?is" "traits_agree netdevice_traits0 (snd gs)"
    moreover from this have "sim_node_at net i \<in> set (sim_nodes net)" by (auto simp: sim_node_at_def)
    ultimately show "\<exists>gs'. scan_node net i gs = Inr gs' \<and> traits_agree netdevice_traits0 (snd gs')"
      using assms by (intro scan_node_total) (auto simp: wired_devices_attached_def)
  qed
  then obtain g sc where run: "rfold (scan_node net) ?is ?gs = Inr (g, sc)" by (metis surj_pair)
  have "scan_ok net ({} \<union> set ?is) (g, sc)"
    by (rule scan_ok_nodes [OF run scan_ok_scene0]) (simp_all add: distinct_map)
  moreover have "link_ends sc = topology_wires netdevice_traits0 net"
    using scan_nodes_ends [OF run agree] by (simp add: topology_wires_def link_ends_def scene0_def)
  ultimately show ?thesis using run by simp
qed

lemma scan_placed:
  assumes "layout_ok layout" "scan_ok net I (g, sc1)" "link_ends sc1 = topology_wires netdevice_traits0 net"
  shows "\<exists>obj sc. rfold place (layout g) (None, sc1) = Inr (obj, sc) \<and>
    (\<forall>i. position (node_at sc i) = (case map_of (layout g) (node_name i) of Some p \<Rightarrow> p | None \<Rightarrow> position (node_at sc1 i))) \<and>
    (\<forall>c. chan_position (channel_at sc c) =
       (case map_of (layout g) (channel_name c) of Some p \<Rightarrow> p | None \<Rightarrow> chan_position (channel_at sc1 c)))"
proof -
  have lay: "distinct (map fst (layout g))" "fst ` set (layout g) = set (graph_nodes g)"
    using assms(1) by (simp_all add: layout_ok_def)
  have "\<forall>n \<in> fst ` set (layout g). names_object sc1 n"
  proof
    fix n
    assume n: "n \<in> fst ` set (layout g)"
    have "\<forall>n \<in> set (graph_nodes g). (\<exists>i. n = node_name i \<and> has_key (nodes sc1) i \<and> \<not> mobile net i) \<or> (\<exists>c. n = channel_name c)"
      using assms(2) by (simp add: scan_ok_def)
    with n lay(2) consider i where "n = node_name i" "has_key (nodes sc1) i" | c where "n = channel_name c" by blast
    then show "names_object sc1 n"
    proof cases
      case 2
      then have "channel_name c \<in> set (graph_nodes g)" using n lay by simp
      then show ?thesis using assms(2) 2 by (auto simp: scan_ok_def names_object_def)
    qed (auto simp: names_object_def)
  qed
  from place_all [OF this lay(1), of None] show ?thesis by blast
qed

lemma laid_out: "layout_ok layout \<Longrightarrow> map_of (layout g) n \<noteq> None \<longleftrightarrow> n \<in> set (graph_nodes g)"
  by (simp add: layout_ok_def map_of_eq_None_iff)

lemma node_laid_out:
  assumes "layout_ok layout" "scan_ok net I (g, sc1)" "i \<in> I"
    and "q = (case map_of (layout g) (node_name i) of Some p \<Rightarrow> p | None \<Rightarrow> position (node_at sc1 i))"
  shows "case mobility (sim_node_at net i) of
      Some p \<Rightarrow> q = transform_point_simulation_to_canvas p
    | None \<Rightarrow> (node_name i, q) \<in> set (layout g)"
proof (cases "mobility (sim_node_at net i)")
  case None
  then have "node_name i \<in> set (graph_nodes g)" using assms(2,3) not_mobile [of net i] by (auto simp: scan_ok_def)
  then obtain p where "map_of (layout g) (node_name i) = Some p" using laid_out [OF assms(1)] by blast
  then show ?thesis using None assms(4) by (auto dest: map_of_SomeD)
next
  case (Some p)
  then have "mobile net i" using not_mobile [of net i] by auto
  then have "node_name i \<notin> set (graph_nodes g)" "position (node_at sc1 i) = transform_point_simulation_to_canvas p"
    using assms(2,3) Some by (fastforce simp: scan_ok_def)+
  moreover from this have "map_of (layout g) (node_name i) = None" using laid_out [OF assms(1), of g "node_name i"] by blast
  ultimately show ?thesis using Some assms(4) by simp
qed

lemma channel_laid_out:
  assumes "layout_ok layout" "scan_ok net I (g, sc1)" "link_ends sc1 = topology_wires netdevice_traits0 net"
    and "q = (case map_of (layout g) (channel_name c) of Some p \<Rightarrow> p | None \<Rightarrow> chan_position (channel_at sc1 c))"
  shows "if anchored net c then (channel_name c, q) \<in> set (layout g) else q = (0, 0)"
proof -
  have chan: "channel_name c \<in> set (graph_nodes g) \<longleftrightarrow> anchored net c"
    using assms(2) unfolding scan_ok_def anchored_def assms(3) [symmetric] by blast
  show ?thesis
  proof (cases "map_of (layout g) (channel_name c)")
    case None
    then have "\<not> anchored net c" using laid_out [OF assms(1), of g "channel_name c"] chan by blast
    moreover have "chan_position (channel_at sc1 c) = (0, 0)" using assms(2) by (simp add: scan_ok_def)
    ultimately show ?thesis using None assms(4) by simp
  next
    case (Some p)
    then have "anchored net c" using laid_out [OF assms(1), of g "channel_name c"] chan by blast
    then show ?thesis using Some assms(4) by (auto dest: map_of_SomeD)
  qed
qed

text \<open>C10. Scanning the topology draws the simulated network: when every wired device is attached to a channel
  the scan succeeds; its links are, in order, those of every wired device to the other nodes on its channel, or
  to the view of the channel when more than two devices share it; a node with a mobility model stands at its
  position in pixels, every other node and every channel with such a node where the layout
  of the graph that the scan built puts it, and a
  channel all whose nodes are mobile stays at the origin of the canvas.\<close>

theorem scan_topology_correct:
  assumes "layout_ok layout" "wired_devices_attached net"
  shows "\<exists>g sc1 sc. rfold (scan_node net) (map int [0..<length (sim_nodes net)]) (\<lparr>graph_nodes = [], graph_edges = []\<rparr>, scene0) =
      Inr (g, sc1) \<and>
    scan_topology layout net scene0 = Inr sc \<and> link_ends sc = topology_wires netdevice_traits0 net \<and>
    (\<forall>i \<in> set (map int [0..<length (sim_nodes net)]).
       case mobility (sim_node_at net i) of
         Some p \<Rightarrow> position (node_at sc i) = transform_point_simulation_to_canvas p
       | None \<Rightarrow> (node_name i, position (node_at sc i)) \<in> set (layout g)) \<and>
    (\<forall>c. if anchored net c then (channel_name c, chan_position (channel_at sc c)) \<in> set (layout g)
         else chan_position (channel_at sc c) = (0, 0))"
proof -
  let ?is = "map int [0..<length (sim_nodes net)]"
  obtain g sc1 where run: "rfold (scan_node net) ?is (\<lparr>graph_nodes = [], graph_edges = []\<rparr>, scene0) = Inr (g, sc1)"
    and ok: "scan_ok net (set ?is) (g, sc1)" and ends: "link_ends sc1 = topology_wires netdevice_traits0 net"
    using scan_run [OF assms(2)] by blast
  from scan_placed [OF assms(1) ok ends] obtain obj sc where
    placed: "rfold place (layout g) (None, sc1) = Inr (obj, sc)"
    and npos: "\<And>i. position (node_at sc i) = (case map_of (layout g) (node_name i) of Some p \<Rightarrow> p | None \<Rightarrow> position (node_at sc1 i))"
    and cpos: "\<And>c. chan_position (channel_at sc c) =
        (case map_of (layout g) (channel_name c) of Some p \<Rightarrow> p | None \<Rightarrow> chan_position (channel_at sc1 c))" by blast
  have res: "scan_topology layout net scene0 = Inr sc" using run placed by (simp add: scan_topology_def)
  have links: "link_ends sc = topology_wires netdevice_traits0 net" using place_ends [OF placed] ends by simp
  show ?thesis
    by (intro exI [of _ g] exI [of _ sc1] exI [of _ sc] conjI ballI allI)
      (rule run res links node_laid_out [OF assms(1) ok _ npos] channel_laid_out [OF assms(1) ok ends cpos]; assumption?)+
qed

definition sample_layout :: "graph \<Rightarrow> (string \<times> point) list" where
  "sample_layout g = map (\<lambda>n. (n, (10, 20))) (remdups (graph_nodes g))"

definition sample_net :: sim_net where
  "sample_net = \<lparr>sim_nodes =
     [\<lparr>mobility = None, devices = [\<lparr>dev_type = ''PointToPointNetDevice'', dev_channel = Some 7\<rparr>,
                                  \<lparr>dev_type = ''CsmaNetDevice'', dev_channel = Some 9\<rparr>]\<rparr>,
      \<lparr>mobility = None, devices = [\<lparr>dev_type = ''PointToPointNetDevice'', dev_channel = Some 7\<rparr>]\<rparr>,
      \<lparr>mobility = Some (5, 6), devices = [\<lparr>dev_type = ''WifiNetDevice'', dev_channel = Some 8\<rparr>,
                                         \<lparr>dev_type = ''CsmaNetDevice'', dev_channel = Some 9\<rparr>]\<rparr>],
     chan_nodes = (\<lambda>c. if c = 7 then [0, 1] else if c = 9 then [0, 2, 2] else [2])\<rparr>"

definition mobile_bus :: sim_net where
  "mobile_bus = \<lparr>sim_nodes = replicate 3 \<lparr>mobility = Some (1, 1), devices = [\<lparr>dev_type = ''CsmaNetDevice'', dev_channel = Some 4\<rparr>]\<rparr>,
     chan_nodes = (\<lambda>c. [0, 1, 2])\<rparr>"

lemma sample_layout_ok: "layout_ok sample_layout"
  by (simp add: layout_ok_def sample_layout_def comp_def image_image)

theorem scan_topology_correct_witness:
  "\<exists>sc. scan_topology sample_layout sample_net scene0 = Inr sc \<and>
     link_ends sc = [(0, NodeEnd 1), (0, ChannelEnd 9), (1, NodeEnd 0), (2, ChannelEnd 9)]"
proof -
  have "wired_devices_attached sample_net" by code_simp
  moreover have "topology_wires netdevice_traits0 sample_net =
    [(0, NodeEnd 1), (0, ChannelEnd 9), (1, NodeEnd 0), (2, ChannelEnd 9)]" by code_simp
  ultimately show ?thesis using scan_topology_correct [OF sample_layout_ok] by metis
qed

text \<open>A point-to-point connection is drawn as two links, one from each of its nodes; and the view of a bus between
  mobile nodes is left at the origin, away from its nodes.\<close>

lemma point_to_point_drawn_twice:
  "{(0, NodeEnd 1), (1, NodeEnd 0)} \<subseteq> set (topology_wires netdevice_traits0 sample_net)"
  by code_simp

lemma mobile_bus_at_origin:
  "case scan_topology sample_layout mobile_bus scene0 of
     Inl e \<Rightarrow> False
   | Inr sc \<Rightarrow> chan_position (channel_at sc 4) = (0, 0) \<and> position (node_at sc 0) = (3, 3) \<and>
              link_ends sc = [(0, ChannelEnd 4), (1, ChannelEnd 4), (2, ChannelEnd 4)]"
  by code_simp

section \<open>Selecting and dragging nodes\<close>

definition set_nodes_of_interest :: "int list \<Rightarrow> scene \<Rightarrow> scene" where
  "set_nodes_of_interest ns sc = sc\<lparr>nodes_of_interest := ns\<rparr>"

definition interest_of_selection :: "scene \<Rightarrow> int list" where
  "interest_of_selection sc = (case selected_node sc of None \<Rightarrow> [] | Some i \<Rightarrow> [i])"

definition set_show_transmissions_mode :: "sim_net \<Rightarrow> show_transmissions \<Rightarrow> scene \<Rightarrow> scene" where
  "set_show_transmissions_mode net m sc =
     (let sc = sc\<lparr>show_mode := Some m\<rparr>
      in set_nodes_of_interest
           (case m of ShowAll \<Rightarrow> map int [0..<length (sim_nodes net)] | ShowNone \<Rightarrow> [] | ShowSelected \<Rightarrow> interest_of_selection sc)
           sc)"

definition select_view :: "int option \<Rightarrow> scene \<Rightarrow> scene" where
  "select_view n sc =
     (if n = selected_node sc then sc
      else let sc = (case selected_node sc of None \<Rightarrow> sc | Some i \<Rightarrow> change_node i (\<lambda>v. v\<lparr>is_selected := False\<rparr>) sc);
               sc = sc\<lparr>selected_node := n\<rparr>;
               sc = (case n of None \<Rightarrow> sc | Some i \<Rightarrow> change_node i (\<lambda>v. v\<lparr>is_selected := True\<rparr>) sc)
           in if show_mode sc = Some ShowSelected then set_nodes_of_interest (interest_of_selection sc) sc else sc)"

definition select_node :: "int option \<Rightarrow> scene \<Rightarrow> scene res" where
  "select_node n sc =
     (case n of
        None \<Rightarrow> Inr (select_view None sc)
      | Some i \<Rightarrow> if has_key (nodes sc) i then Inr (select_view n sc) else Inl KeyError)"

definition move_sim_node :: "int \<Rightarrow> point \<Rightarrow> sim_net \<Rightarrow> sim_net" where
  "move_sim_node i p net = net\<lparr>sim_nodes := (sim_nodes net)[nat i := (sim_node_at net i)\<lparr>mobility := Some p\<rparr>]\<rparr>"

definition begin_node_drag :: "sim_net \<Rightarrow> int \<Rightarrow> point \<Rightarrow> scene \<Rightarrow> scene" where
  "begin_node_drag net i c sc =
     (case mobility (sim_node_at net i) of
        None \<Rightarrow> sc
      | Some p \<Rightarrow> if node_drag_state sc \<noteq> None then sc else sc\<lparr>node_drag_state := Some \<lparr>canvas0 = c, sim0 = p\<rparr>\<rparr>)"

definition node_drag_motion :: "int \<Rightarrow> point \<Rightarrow> sim_net \<times> scene \<Rightarrow> sim_net \<times> scene" where
  "node_drag_motion i c ns =
     (case ns of (net, sc) \<Rightarrow>
        case (mobility (sim_node_at net i), node_drag_state sc) of
          (Some p, Some d) \<Rightarrow>
            let dx = fst c - fst (canvas0 d); dy = snd c - snd (canvas0 d);
                pos = (fst (sim0 d) + transform_distance_canvas_to_simulation dx,
                       snd (sim0 d) + transform_distance_canvas_to_simulation dy)
            in (move_sim_node i pos net, set_node_position i (transform_point_simulation_to_canvas pos) sc)
        | _ \<Rightarrow> (net, sc))"

definition end_node_drag :: "scene \<Rightarrow> scene" where
  "end_node_drag sc = sc\<lparr>node_drag_state := None\<rparr>"

datatype scene_op = Scan | UpdatePositions | Select "int option" | ShowMode show_transmissions | BeginDrag int point
  | DragMotion int point | EndDrag | SimMoves int point

fun scene_step :: "(graph \<Rightarrow> (string \<times> point) list) \<Rightarrow> scene_op \<Rightarrow> sim_net \<times> scene \<Rightarrow> (sim_net \<times> scene) res" where
  "scene_step layout Scan (net, sc) = rbind (scan_topology layout net sc) (\<lambda>sc. Inr (net, sc))"
| "scene_step layout UpdatePositions (net, sc) = Inr (net, update_node_positions net sc)"
| "scene_step layout (Select n) (net, sc) = rbind (select_node n sc) (\<lambda>sc. Inr (net, sc))"
| "scene_step layout (ShowMode m) (net, sc) = Inr (net, set_show_transmissions_mode net m sc)"
| "scene_step layout (BeginDrag i c) (net, sc) = Inr (net, begin_node_drag net i c sc)"
| "scene_step layout (DragMotion i c) (net, sc) = Inr (node_drag_motion i c (net, sc))"
| "scene_step layout EndDrag (net, sc) = Inr (net, end_node_drag sc)"
| "scene_step layout (SimMoves i p) (net, sc) = Inr (move_sim_node i p net, sc)"

definition selection_ok :: "scene \<Rightarrow> bool" where
  "selection_ok sc = (\<forall>i. is_selected (node_at sc i) \<longleftrightarrow> selected_node sc = Some i)"

definition interest_ok :: "sim_net \<Rightarrow> scene \<Rightarrow> bool" where
  "interest_ok net sc = (case show_mode sc of
       None \<Rightarrow> nodes_of_interest sc = []
     | Some ShowAll \<Rightarrow> nodes_of_interest sc = map int [0..<length (sim_nodes net)]
     | Some ShowNone \<Rightarrow> nodes_of_interest sc = []
     | Some ShowSelected \<Rightarrow> nodes_of_interest sc = interest_of_selection sc)"

text \<open>The part of the scene that drawing leaves alone.\<close>

definition selection :: "scene \<Rightarrow> (int \<Rightarrow> bool) \<times> int option \<times> show_transmissions option \<times> int list" where
  "selection sc = (\<lambda>i. is_selected (node_at sc i), selected_node sc, show_mode sc, nodes_of_interest sc)"

lemma selected_fields [simp]:
  "selected_node (change_node i f sc) = selected_node sc" "show_mode (change_node i f sc) = show_mode sc"
  "nodes_of_interest (change_node i f sc) = nodes_of_interest sc"
  "selected_node (change_channel c g sc) = selected_node sc" "show_mode (change_channel c g sc) = show_mode sc"
  "nodes_of_interest (change_channel c g sc) = nodes_of_interest sc"
  by (simp_all add: change_node_def change_channel_def)

lemma selection_change: "(\<And>v. is_selected (f v) = is_selected v) \<Longrightarrow> selection (change_node i f sc) = selection sc"
  by (simp add: selection_def fun_eq_iff)

lemma selection_simps [simp]:
  "selection (change_channel c g sc) = selection sc" "selection (sc\<lparr>wired := w\<rparr>) = selection sc"
  "selection (sc\<lparr>traits := d\<rparr>) = selection sc" "selection (sc\<lparr>node_drag_state := nd\<rparr>) = selection sc"
  "selection (sc\<lparr>canvas_bounds := b\<rparr>) = selection sc"
  by (simp_all add: selection_def fun_eq_iff node_at_def)

lemma selection_get [simp]: "selection (get_node i sc) = selection sc" "selection (get_channel c sc) = selection sc"
  by (simp_all add: selection_def fun_eq_iff) (simp_all add: get_node_def get_channel_def)

lemma selection_update [simp]: "selection (fold update_points ls sc) = selection sc"
  by (induction ls arbitrary: sc) (simp_all add: update_points_def Let_def)

lemma selection_position [simp]: "selection (set_node_position i p sc) = selection sc"
    "selection (set_channel_position c p sc) = selection sc"
  by (simp_all add: set_node_position_def set_channel_position_def Let_def selection_change widen_bounds_def split_beta)

lemma selection_create [simp]: "selection (create_link i e sc) = selection sc"
  by (cases e) (simp_all add: create_link_def Let_def selection_change)

lemma selection_has_mobility [simp]: "selection (snd (has_mobility net i sc)) = selection sc"
  by (simp add: has_mobility_eq selection_change split: option.split)

lemma selection_link_others: "selection (snd (fold (link_other net i) js gs)) = selection (snd gs)"
  by (induction js arbitrary: gs) (simp_all add: link_other_def Let_def split_beta)

lemma selection_device: "scan_device net i dev gs = Inr gs' \<Longrightarrow> selection (snd gs') = selection (snd gs)"
  by (auto simp: scan_device_def Let_def split_beta link_channel_def selection_link_others
      split: if_splits option.splits)

lemma selection_scan_node: "scan_node net i gs = Inr gs' \<Longrightarrow> selection (snd gs') = selection (snd gs)"
  unfolding scan_node_def Let_def split_beta
  by (drule rfold_Inr_invariant [where I = "\<lambda>gs'. selection (snd gs') = selection (snd gs)"])
    (auto simp: selection_device split: option.splits)

lemma selection_place: "place np os = Inr os' \<Longrightarrow> selection (snd os') = selection (snd os)"
  by (auto simp: place_def split_beta rbind_eq_Inr_iff) (case_tac x; simp)

lemma selection_scan_nodes: "rfold (scan_node net) is gs = Inr gs' \<Longrightarrow> selection (snd gs') = selection (snd gs)"
  by (erule rfold_Inr_invariant) (simp_all add: selection_scan_node)

lemma selection_place_all: "rfold place nps os = Inr os' \<Longrightarrow> selection (snd os') = selection (snd os)"
  by (erule rfold_Inr_invariant) (simp_all add: selection_place)

lemma selection_scan: "scan_topology layout net sc = Inr sc' \<Longrightarrow> selection sc' = selection sc"
  by (auto simp: scan_topology_def rbind_eq_Inr_iff split_beta dest!: selection_scan_nodes selection_place_all)

lemma selection_updates [simp]: "selection (update_node_positions net sc) = selection sc"
proof -
  have "selection (fold (update_node_position net) is sc) = selection sc" for "is"
    by (induction "is" arbitrary: sc) (simp_all add: update_node_position_def split_beta split: option.split)
  then show ?thesis by (simp add: update_node_positions_def)
qed

lemma selection_ok_cong: "selection sc' = selection sc \<Longrightarrow> selection_ok sc \<Longrightarrow> selection_ok sc'"
  by (auto simp: selection_def selection_ok_def fun_eq_iff)

lemma interest_ok_cong: "selection sc' = selection sc \<Longrightarrow> length (sim_nodes net') = length (sim_nodes net) \<Longrightarrow>
    interest_ok net sc \<Longrightarrow> interest_ok net' sc'"
proof -
  assume "selection sc' = selection sc" "length (sim_nodes net') = length (sim_nodes net)" "interest_ok net sc"
  moreover from this have "interest_of_selection sc' = interest_of_selection sc"
    by (simp add: selection_def interest_of_selection_def)
  ultimately show ?thesis
    by (cases "show_mode sc") (auto simp: selection_def interest_ok_def split: show_transmissions.splits)
qed

lemma selection_ok_select: "selection_ok sc \<Longrightarrow> selection_ok (select_view n sc)"
  by (cases n; cases "selected_node sc")
    (auto simp: selection_ok_def select_view_def Let_def set_nodes_of_interest_def node_at_def change_node_def
      dict_get_default_def)

lemma interest_ok_select: "interest_ok net sc \<Longrightarrow> interest_ok net (select_view n sc)"
  by (cases "show_mode sc"; cases n; cases "selected_node sc")
    (auto simp: interest_ok_def select_view_def Let_def set_nodes_of_interest_def interest_of_selection_def
      split: show_transmissions.splits)

definition scene_ok :: "sim_net \<times> scene \<Rightarrow> bool" where
  "scene_ok ns = (case ns of (net, sc) \<Rightarrow> links_ok sc \<and> selection_ok sc \<and> interest_ok net sc)"

lemma length_move [simp]: "length (sim_nodes (move_sim_node i p net)) = length (sim_nodes net)"
  by (simp add: move_sim_node_def)

lemma links_ok_select: "links_ok sc \<Longrightarrow> links_ok (select_view n sc)"
proof -
  assume ok: "links_ok sc"
  have sel: "links_ok (sc'\<lparr>selected_node := m\<rparr>)" "links_ok (set_nodes_of_interest ns sc')" if "links_ok sc'" for sc' m ns
    using that by (auto elim!: links_ok_views simp: node_at_def channel_at_def set_nodes_of_interest_def)
  show ?thesis
    using ok by (cases n; cases "selected_node sc")
      (auto simp: select_view_def Let_def sel links_ok_change)
qed

lemma scene_ok_cong: "scene_ok (net, sc) \<Longrightarrow> selection sc' = selection sc \<Longrightarrow>
    length (sim_nodes net') = length (sim_nodes net) \<Longrightarrow> links_ok sc' \<Longrightarrow> scene_ok (net', sc')"
  unfolding scene_ok_def split_conv using selection_ok_cong [of sc' sc] interest_ok_cong [of sc' sc net' net] by blast

lemma scene_ok_drag: "scene_ok (net, sc) \<Longrightarrow> scene_ok (net, sc\<lparr>node_drag_state := d\<rparr>)"
proof -
  assume ok: "scene_ok (net, sc)"
  then have "links_ok sc" by (simp add: scene_ok_def)
  then have "links_ok (sc\<lparr>node_drag_state := d\<rparr>)" by (rule links_ok_views) (simp_all add: node_at_def channel_at_def)
  then show ?thesis by (intro scene_ok_cong [OF ok]) simp_all
qed

lemma scene_ok_mode: "scene_ok (net, sc) \<Longrightarrow> scene_ok (net, set_show_transmissions_mode net m sc)"
proof -
  assume ok: "scene_ok (net, sc)"
  have "links_ok (set_show_transmissions_mode net m sc)" "selection_ok (set_show_transmissions_mode net m sc)"
    using ok by (auto simp: scene_ok_def set_show_transmissions_mode_def set_nodes_of_interest_def Let_def
        selection_ok_def node_at_def channel_at_def elim!: links_ok_views)
  moreover have "interest_ok net (set_show_transmissions_mode net m sc)"
    by (cases m) (simp_all add: set_show_transmissions_mode_def set_nodes_of_interest_def interest_ok_def Let_def
        interest_of_selection_def)
  ultimately show ?thesis by (simp add: scene_ok_def)
qed

lemma scene_ok_step: "scene_step layout op ns = Inr ns' \<Longrightarrow> scene_ok ns \<Longrightarrow> scene_ok ns'"
proof -
  assume step: "scene_step layout op ns = Inr ns'" and "scene_ok ns"
  then obtain net sc where ns: "ns = (net, sc)" and ok: "scene_ok (net, sc)" by (cases ns) auto
  then have links: "links_ok sc" by (simp add: scene_ok_def)
  have select: "scene_ok (net, select_view n sc)" for n
    using ok by (simp add: scene_ok_def links_ok_select selection_ok_select interest_ok_select)
  have drag: "scene_ok (net', set_node_position i p sc)" if "length (sim_nodes net') = length (sim_nodes net)" for net' i p
    by (rule scene_ok_cong [OF ok]) (simp_all add: that links_ok_set_node links)
  show ?thesis
  proof (cases op)
    case Scan
    then obtain sc' where "scan_topology layout net sc = Inr sc'" "ns' = (net, sc')"
      using step ns by (auto simp: rbind_eq_Inr_iff)
    then show ?thesis using scene_ok_cong [OF ok, of sc' net] selection_scan links_ok_scan links by blast
  next
    case UpdatePositions
    then show ?thesis using step ns scene_ok_cong [OF ok] links_ok_updates [OF links] by auto
  next
    case (Select n)
    then show ?thesis using step ns select by (auto simp: rbind_eq_Inr_iff select_node_def split: option.splits if_splits)
  next
    case (DragMotion i c)
    then show ?thesis using step ns ok by (auto simp: node_drag_motion_def Let_def drag split: option.splits)
  next
    case (SimMoves i p)
    then show ?thesis using step ns scene_ok_cong [OF ok] links by auto
  qed (use step ns ok in \<open>auto simp: scene_ok_mode scene_ok_drag begin_node_drag_def end_node_drag_def
      split: option.split\<close>)
qed

text \<open>C4. The scene stays consistent whatever the user and the simulation do: after any sequence of scans, updates
  of the positions, selections, changes of the transmissions shown, drags and moves of the simulated nodes,
  every link that is drawn runs between the current positions of its two ends and is known to both of them, the
  only view marked as selected is \<open>selected_node\<close>, and the simulator watches the transmissions of exactly the
  nodes the mode asks for.\<close>

theorem scene_consistent:
  assumes "rfold (scene_step layout) ops (net, scene0) = Inr (net', sc)"
  shows "(\<forall>lk \<in> set (wired sc). points lk = None \<or> points lk = Some (position (node_at sc (node1 lk)), end_position sc (node2 lk))) \<and>
    (\<forall>l < length (wired sc). l \<in> set (end_links sc (NodeEnd (node1 (wired sc ! l)))) \<inter> set (end_links sc (node2 (wired sc ! l)))) \<and>
    (\<forall>i. is_selected (node_at sc i) \<longleftrightarrow> selected_node sc = Some i) \<and>
    (case show_mode sc of
       None \<Rightarrow> nodes_of_interest sc = []
     | Some ShowAll \<Rightarrow> nodes_of_interest sc = map int [0..<length (sim_nodes net')]
     | Some ShowNone \<Rightarrow> nodes_of_interest sc = []
     | Some ShowSelected \<Rightarrow> nodes_of_interest sc = interest_of_selection sc)"
proof -
  have "scene_ok (net, scene0)"
    by (simp add: scene_ok_def links_ok_scene0)
      (simp add: selection_ok_def interest_ok_def scene0_def node_at_def dict_get_default_def new_node_def)
  then have "scene_ok (net', sc)"
    using assms by (elim rfold_Inr_invariant) (auto dest: scene_ok_step)
  then show ?thesis
    by (auto simp: scene_ok_def links_ok_def link_ok_def Let_def current_points_def selection_ok_def interest_ok_def
        in_set_conv_nth simp del: end_links.simps)
qed

definition sample_ops :: "scene_op list" where
  "sample_ops = [ShowMode ShowSelected, Scan, Select (Some 2), BeginDrag 2 (100, 100), DragMotion 2 (106, 97), EndDrag, Select (Some 0)]"

theorem scene_consistent_witness:
  "case rfold (scene_step sample_layout) sample_ops (sample_net, scene0) of
     Inl e \<Rightarrow> False
   | Inr (net, sc) \<Rightarrow> nodes_of_interest sc = [0] \<and>
       (\<forall>lk \<in> set (wired sc). points lk = None \<or> points lk = Some (position (node_at sc (node1 lk)), end_position sc (node2 lk)))"
proof -
  have "case rfold (scene_step sample_layout) sample_ops (sample_net, scene0) of
     Inl e \<Rightarrow> False | Inr (net, sc) \<Rightarrow> nodes_of_interest sc = [0]" by code_simp
  then obtain net sc where run: "rfold (scene_step sample_layout) sample_ops (sample_net, scene0) = Inr (net, sc)"
    and interest: "nodes_of_interest sc = [0]" by (auto split: sum.splits)
  from scene_consistent [OF run] show ?thesis by (simp add: run interest)
qed

text \<open>Dragging a node moves it with the pointer: after a drag began on a node at the canvas point \<open>start\<close>, with
  the node at \<open>p\<close> in the simulation, each motion to a point \<open>c\<close> puts the simulated node at \<open>p\<close> plus the way of
  the pointer in metres, whatever motions came before, and its view exactly as far from \<open>p\<close>, in pixels, as the
  pointer is from \<open>start\<close>.\<close>

theorem drag_follows_pointer:
  assumes "mobility (sim_node_at net i) = Some p" "node_drag_state sc = None" "0 \<le> i" "i < int (length (sim_nodes net))"
  shows "case fold (node_drag_motion i) (cs @ [c]) (net, begin_node_drag net i start sc) of (net', sc') \<Rightarrow>
    mobility (sim_node_at net' i) = Some (fst p + (fst c - fst start) / 3, snd p + (snd c - snd start) / 3) \<and>
    position (node_at sc' i) = (3 * fst p + (fst c - fst start), 3 * snd p + (snd c - snd start)) \<and>
    node_drag_state sc' = Some \<lparr>canvas0 = start, sim0 = p\<rparr>"
proof -
  let ?ok = "\<lambda>ns. node_drag_state (snd ns) = Some \<lparr>canvas0 = start, sim0 = p\<rparr> \<and> mobility (sim_node_at (fst ns) i) \<noteq> None \<and>
      length (sim_nodes (fst ns)) = length (sim_nodes net)"
  have drag_keeps: "node_drag_state (set_node_position i q sc) = node_drag_state sc" for q sc
  proof -
    have "node_drag_state (fold update_points ls sc) = node_drag_state sc" for ls sc
      by (induction ls arbitrary: sc) (simp_all add: update_points_def Let_def)
    then show ?thesis by (simp add: set_node_position_def Let_def widen_bounds_def split_beta change_node_def)
  qed
  have moved: "mobility (sim_node_at (move_sim_node i q n) i) = Some q" if "length (sim_nodes n) = length (sim_nodes net)" for n q
    using assms(3,4) that by (simp add: move_sim_node_def sim_node_at_def nat_less_iff)
  have step: "?ok (node_drag_motion i c' ns)" if "?ok ns" for c' ns
    using that by (auto simp: node_drag_motion_def split_beta Let_def drag_keeps moved)
  have "?ok (fold (node_drag_motion i) cs (net, begin_node_drag net i start sc))"
    by (rule fold_invariant' [where I = ?ok]) (use assms(1,2) step in \<open>auto simp: begin_node_drag_def\<close>)
  then show ?thesis
    by (auto simp: node_drag_motion_def split_beta Let_def drag_keeps moved transform_point_simulation_to_canvas_def
        transform_distance_canvas_to_simulation_def PIXELS_PER_METER_def algebra_simps)
qed

theorem drag_follows_pointer_witness:
  "case fold (node_drag_motion 2) [(130, 90), (106, 97)] (sample_net, begin_node_drag sample_net 2 (100, 100) scene0) of
     (net, sc) \<Rightarrow> mobility (sim_node_at net 2) = Some (7, 5) \<and> position (node_at sc 2) = (21, 15)"
proof -
  have "mobility (sim_node_at sample_net 2) = Some (5, 6)" "node_drag_state scene0 = None"
    "2 < int (length (sim_nodes sample_net))" by code_simp+
  from drag_follows_pointer [OF this(1,2) _ this(3), where cs = "[(130, 90)]" and c = "(106, 97)" and start = "(100, 100)"]
  show ?thesis by (auto split: prod.splits)
qed

end
