(* ===== verification/VisOverlay.thy ===== *)
theory VisOverlay
  imports VisStats VisScene
begin

text \<open>
  What the visualizer draws over the topology: the arrows of the transmissions and of the drops
  (\<open>_update_transmissions_view\<close> and \<open>_update_drops_view\<close> of \<open>core.py\<close>, with their pools of arrows that are
  reused from one update to the next) and the links of the wireless stations to their access points
  (\<open>plugins/wifi_intrastructure_link.py\<close>). An arrow with its label is an item of the canvas, known by its
  number; its geometry and its line width are not modelled, the test that its logarithm exists is.
\<close>

section \<open>Arrows\<close>

record 'k arrow_item =
  arrow_shown :: bool
  label_shown :: bool
  drawn_for :: "'k option"
  kbps :: rat

record 'k overlay =
  arrows :: "nat list"
  items :: "'k arrow_item list"
  view :: scene

definition change_item :: "nat \<Rightarrow> ('k arrow_item \<Rightarrow> 'k arrow_item) \<Rightarrow> 'k arrow_item list \<Rightarrow> 'k arrow_item list" where
  "change_item a f its = its[a := f (its ! a)]"

definition hide_arrows :: "nat list \<Rightarrow> 'k arrow_item list \<Rightarrow> 'k arrow_item list" where
  "hide_arrows as its = fold (\<lambda>a. change_item a (\<lambda>it. it\<lparr>arrow_shown := False, label_shown := False\<rparr>)) as its"

definition new_item :: "'k arrow_item" where
  "new_item = \<lparr>arrow_shown = True, label_shown = True, drawn_for = None, kbps = 0\<rparr>"

text \<open>\<open>old_arrows.pop()\<close>, or a new arrow when the pool is empty.\<close>

definition take_arrow :: "nat list \<Rightarrow> 'k arrow_item list \<Rightarrow> nat \<times> nat list \<times> 'k arrow_item list" where
  "take_arrow old its = (if old = [] then (length its, [], its @ [new_item]) else (last old, butlast old, its))"

definition average_kbps :: "rat \<Rightarrow> int \<Rightarrow> int \<Rightarrow> rat" where
  "average_kbps period bytes cnt = of_int (bytes * 8) / 1000 / of_int cnt / period"

definition show_arrow :: "nat \<Rightarrow> 'k arrow_item list \<Rightarrow> 'k arrow_item list" where
  "show_arrow a its = change_item a (\<lambda>it. it\<lparr>arrow_shown := True\<rparr>) its"

definition show_label :: "nat \<Rightarrow> 'k \<Rightarrow> rat \<Rightarrow> 'k arrow_item list \<Rightarrow> 'k arrow_item list" where
  "show_label a k r its = change_item a (\<lambda>it. it\<lparr>label_shown := True, drawn_for := Some k, kbps := r\<rparr>) its"

text \<open>The loop over the averages; on an exception the pool is what was not taken from it, since \<open>old_arrows\<close> is
  the list the visualizer holds.\<close>

fun show_arrows :: "('k \<Rightarrow> scene \<Rightarrow> scene) \<Rightarrow> rat \<Rightarrow> ('k \<times> int \<times> int) list \<Rightarrow> nat list \<Rightarrow> nat list \<Rightarrow>
    'k arrow_item list \<Rightarrow> scene \<Rightarrow> py_exn option \<times> 'k overlay" where
  "show_arrows get_views period [] old new its sc = (None, \<lparr>arrows = new @ old, items = its, view = sc\<rparr>)"
| "show_arrows get_views period ((k, bytes, cnt) # avgs) old new its sc =
     (case take_arrow old its of (a, old, its) \<Rightarrow>
        if cnt = 0 \<or> period = 0
        then (Some ZeroDivisionError, \<lparr>arrows = old, items = show_arrow a its, view = get_views k sc\<rparr>)
        else if of_int bytes / of_int cnt / period \<le> 0
        then (Some ValueError, \<lparr>arrows = old, items = show_arrow a its, view = get_views k sc\<rparr>)
        else show_arrows get_views period avgs old (new @ [a])
               (show_label a k (average_kbps period bytes cnt) (show_arrow a its)) (get_views k sc))"

definition update_arrows :: "('k \<Rightarrow> scene \<Rightarrow> scene) \<Rightarrow> rat \<Rightarrow> ('k \<times> int \<times> int) list \<Rightarrow> 'k overlay \<Rightarrow>
    py_exn option \<times> 'k overlay" where
  "update_arrows get_views period avgs s =
     show_arrows get_views period avgs (arrows s) [] (hide_arrows (arrows s) (items s)) (view s)"

definition update_transmissions_view :: "rat \<Rightarrow> transmission list list \<Rightarrow> (int \<times> int) overlay \<Rightarrow>
    py_exn option \<times> (int \<times> int) overlay" where
  "update_transmissions_view period sets s =
     (case transmissions_average sets of
        Inl e \<Rightarrow> (Some e, s)
      | Inr avgs \<Rightarrow> update_arrows (\<lambda>k sc. get_node (snd k) (get_node (fst k) sc)) period avgs s)"

definition update_drops_view :: "rat \<Rightarrow> packet_drop list list \<Rightarrow> int overlay \<Rightarrow> py_exn option \<times> int overlay" where
  "update_drops_view period sets s = update_arrows get_node period (drops_average sets) s"

definition overlay_ok :: "'k overlay \<Rightarrow> bool" where
  "overlay_ok s = (distinct (arrows s) \<and> set (arrows s) = {..<length (items s)})"

lemma length_change_item [simp]: "length (change_item a f its) = length its"
  by (simp add: change_item_def)

lemma nth_change_item: "b < length its \<Longrightarrow> change_item a f its ! b = (if b = a then f (its ! a) else its ! b)"
  by (simp add: change_item_def nth_list_update)

definition visible :: "'k arrow_item \<Rightarrow> bool" where
  "visible it = (arrow_shown it \<or> label_shown it)"

lemma length_hide [simp]: "length (hide_arrows as its) = length its"
  unfolding hide_arrows_def by (rule fold_invariant' [where I = "\<lambda>its'. length its' = length its"]) simp_all

lemma nth_hide: "b < length its \<Longrightarrow> hide_arrows as its ! b =
    (if b \<in> set as then (its ! b)\<lparr>arrow_shown := False, label_shown := False\<rparr> else its ! b)"
proof (induction as arbitrary: its)
  case (Cons a as)
  have "hide_arrows (a # as) its = hide_arrows as (change_item a (\<lambda>it. it\<lparr>arrow_shown := False, label_shown := False\<rparr>) its)"
    by (simp add: hide_arrows_def)
  then show ?case using Cons by (auto simp: nth_change_item)
qed (simp add: hide_arrows_def)

definition shows_average :: "rat \<Rightarrow> 'k arrow_item \<Rightarrow> 'k \<times> int \<times> int \<Rightarrow> bool" where
  "shows_average period it avg = (case avg of (k, bytes, cnt) \<Rightarrow>
     arrow_shown it \<and> label_shown it \<and> drawn_for it = Some k \<and> kbps it = average_kbps period bytes cnt)"

text \<open>The state of the loop: the arrows taken so far show the averages done so far, the pool is hidden.\<close>

definition arrows_state :: "rat \<Rightarrow> ('k \<times> int \<times> int) list \<Rightarrow> nat list \<Rightarrow> nat list \<Rightarrow> 'k arrow_item list \<Rightarrow> bool" where
  "arrows_state period avgs old new its = (distinct (new @ old) \<and> set (new @ old) = {..<length its} \<and>
     (\<forall>a \<in> set old. \<not> visible (its ! a)) \<and> list_all2 (\<lambda>a avg. shows_average period (its ! a) avg) new avgs)"

lemma take_arrow_state:
  assumes "arrows_state period done old new its" "take_arrow old its = (a, old', its1)"
  shows "distinct ((new @ [a]) @ old') \<and> set ((new @ [a]) @ old') = {..<length its1} \<and>
    (\<forall>b \<in> set old'. \<not> visible (its1 ! b)) \<and> list_all2 (\<lambda>b avg. shows_average period (its1 ! b) avg) new done"
proof (cases "old = []")
  case True
  then have new: "set new = {..<length its}" using assms(1) by (simp add: arrows_state_def)
  then have "(its @ [new_item]) ! (new ! i) = its ! (new ! i)" if "i < length new" for i
    using that nth_mem [OF that] by (simp add: nth_append)
  then have "list_all2 (\<lambda>b avg. shows_average period ((its @ [new_item]) ! b) avg) new done"
    using assms(1) by (simp add: arrows_state_def list_all2_conv_all_nth)
  moreover have "a = length its" "old' = []" "its1 = its @ [new_item]" using assms(2) True by (simp_all add: take_arrow_def)
  moreover have "distinct new" using assms(1) by (simp add: arrows_state_def)
  ultimately show ?thesis using new by (simp add: lessThan_Suc)
next
  case False
  then obtain bs b where old: "old = bs @ [b]" by (metis append_butlast_last_id)
  then have t: "a = b" "old' = bs" "its1 = its" using assms(2) by (simp_all add: take_arrow_def)
  have "distinct ((new @ [b]) @ bs)" "set ((new @ [b]) @ bs) = set (new @ old)"
    using assms(1) old by (auto simp: arrows_state_def)
  then show ?thesis using assms(1) old t by (simp add: arrows_state_def)
qed

lemma shown_item:
  "a < length its \<Longrightarrow> b < length its \<Longrightarrow> show_label a k r (show_arrow a its) ! b =
     (if b = a then (its ! a)\<lparr>arrow_shown := True, label_shown := True, drawn_for := Some k, kbps := r\<rparr> else its ! b)"
  by (simp add: show_label_def show_arrow_def nth_change_item)

lemma length_shown [simp]: "length (show_label a k r its) = length its" "length (show_arrow a its) = length its"
  by (simp_all add: show_label_def show_arrow_def)

lemma arrows_state_step:
  assumes st: "arrows_state period done old new its" and t: "take_arrow old its = (a, old', its1)"
  shows "arrows_state period (done @ [(k, bytes, cnt)]) old' (new @ [a])
    (show_label a k (average_kbps period bytes cnt) (show_arrow a its1))" (is "arrows_state _ _ _ _ ?its2")
proof -
  have ts: "distinct ((new @ [a]) @ old')" "set ((new @ [a]) @ old') = {..<length its1}"
    "\<forall>b \<in> set old'. \<not> visible (its1 ! b)" "list_all2 (\<lambda>b avg. shows_average period (its1 ! b) avg) new done"
    using take_arrow_state [OF st t] by blast+
  have a: "a < length its1" using ts(2) by auto
  have other: "?its2 ! b = its1 ! b" if "b \<in> set new \<union> set old'" for b
  proof -
    have "b < length its1" "b \<noteq> a" using that ts(1,2) by auto
    then show ?thesis using a by (simp add: shown_item)
  qed
  have "list_all2 (\<lambda>b avg. shows_average period (?its2 ! b) avg) [a] [(k, bytes, cnt)]"
    using a by (simp add: shown_item shows_average_def)
  moreover have "list_all2 (\<lambda>b avg. shows_average period (?its2 ! b) avg) new done"
    using ts(4) other by (simp add: list_all2_conv_all_nth)
  ultimately have "list_all2 (\<lambda>b avg. shows_average period (?its2 ! b) avg) (new @ [a]) (done @ [(k, bytes, cnt)])"
    by (rule list_all2_appendI [rotated])
  moreover have "\<forall>b \<in> set old'. \<not> visible (?its2 ! b)" using ts(3) other by simp
  ultimately show ?thesis using ts(1,2) unfolding arrows_state_def by simp
qed

lemma take_arrow_length: "take_arrow old its = (a, old', its1) \<Longrightarrow>
    length its1 = (if old = [] then Suc (length its) else length its) \<and> length old' = length old - 1"
  by (auto simp: take_arrow_def split: if_splits)

lemma arrows_state_length: "arrows_state period done old new its \<Longrightarrow> length its = length new + length old"
  unfolding arrows_state_def by (metis card_lessThan distinct_card length_append)

lemma show_arrows_ok:
  assumes "arrows_state period done old new its" "0 < period" "\<forall>(k, bytes, cnt) \<in> set avgs. 0 < bytes \<and> 0 < cnt"
  shows "\<exists>s' used rest. show_arrows get_views period avgs old new its sc = (None, s') \<and> arrows s' = used @ rest \<and>
    arrows_state period (done @ avgs) rest used (items s') \<and>
    length (items s') = max (length its) (length new + length avgs)"
  using assms
proof (induction avgs arbitrary: "done" old new its sc)
  case Nil
  then show ?case using arrows_state_length [OF Nil(1)] by (intro exI [of _ new] exI [of _ old] exI conjI) auto
next
  case (Cons avg avgs)
  obtain k bytes cnt where avg: "avg = (k, bytes, cnt)" by (metis prod_cases3)
  obtain a old' its1 where t: "take_arrow old its = (a, old', its1)" by (metis prod_cases3)
  let ?its2 = "show_label a k (average_kbps period bytes cnt) (show_arrow a its1)"
  have pos: "0 < bytes" "0 < cnt" "0 < period" using Cons.prems avg by auto
  then have "0 < (of_int bytes :: rat) / of_int cnt / period" by simp
  then have "\<not> (of_int bytes :: rat) / of_int cnt / period \<le> 0" by (simp only: not_le)
  then have run: "show_arrows get_views period (avg # avgs) old new its sc =
      show_arrows get_views period avgs old' (new @ [a]) ?its2 (get_views k sc)"
    using t pos avg by simp
  have max: "max (length ?its2) (length (new @ [a]) + length avgs) = max (length its) (length new + length (avg # avgs))"
    using take_arrow_length [OF t] arrows_state_length [OF Cons.prems(1)] by (cases old) auto
  show ?case
    using Cons.IH [OF arrows_state_step [OF Cons.prems(1) t, of k bytes cnt], of "get_views k sc"] Cons.prems avg
    unfolding run max by simp
qed

lemma hidden_state: "overlay_ok s \<Longrightarrow> arrows_state period [] (arrows s) [] (hide_arrows (arrows s) (items s))"
  by (auto simp: overlay_ok_def arrows_state_def nth_hide visible_def)

text \<open>C13. The arrows show the averages and nothing else: when every average has bytes and samples, an update leaves
  one visible arrow per average, labelled with its kilobits per second, in the order of the averages; every
  other arrow of the canvas is hidden and stays in the pool; no arrow is lost, and new ones are only created
  when there are more averages than arrows.\<close>

theorem arrows_show_averages:
  assumes "overlay_ok s" "0 < period" "\<forall>(k, bytes, cnt) \<in> set avgs. 0 < bytes \<and> 0 < cnt"
  shows "\<exists>s' used rest. update_arrows get_views period avgs s = (None, s') \<and> overlay_ok s' \<and> arrows s' = used @ rest \<and>
    list_all2 (\<lambda>a avg. shows_average period (items s' ! a) avg) used avgs \<and>
    (\<forall>a < length (items s'). a \<notin> set used \<longrightarrow> \<not> visible (items s' ! a)) \<and>
    length (items s') = max (length (items s)) (length avgs)"
proof -
  from show_arrows_ok [OF hidden_state [OF assms(1)] assms(2,3)] obtain s' used rest where
    run: "update_arrows get_views period avgs s = (None, s')" "arrows s' = used @ rest"
    and st: "arrows_state period avgs rest used (items s')"
    and len: "length (items s') = max (length (items s)) (length avgs)"
    unfolding update_arrows_def by (metis append_Nil length_hide list.size(3) add_0)
  moreover have "overlay_ok s'" using st run(2) by (simp add: overlay_ok_def arrows_state_def)
  moreover have "\<not> visible (items s' ! a)" if "a < length (items s')" "a \<notin> set used" for a
    using st that by (auto simp: arrows_state_def)
  moreover have "list_all2 (\<lambda>a avg. shows_average period (items s' ! a) avg) used avgs"
    using st by (simp add: arrows_state_def)
  ultimately show ?thesis by blast
qed

definition sample_overlay :: "int overlay" where
  "sample_overlay = \<lparr>arrows = [1, 0], items = [new_item, new_item], view = scene0\<rparr>"

theorem arrows_show_averages_witness:
  "\<exists>s. update_drops_view (1 / 10) [[\<lparr>drop_transmitter = 4, drop_bytes = 100\<rparr>], [\<lparr>drop_transmitter = 4, drop_bytes = 50\<rparr>]] sample_overlay =
     (None, s) \<and> length (items s) = 2 \<and> overlay_ok s"
proof -
  have "overlay_ok sample_overlay" by (auto simp: overlay_ok_def sample_overlay_def)
  moreover have avgs: "drops_average [[\<lparr>drop_transmitter = 4, drop_bytes = 100\<rparr>], [\<lparr>drop_transmitter = 4, drop_bytes = 50\<rparr>]] =
    [(4, 150, 2)]" by code_simp
  ultimately show ?thesis
    using arrows_show_averages [of sample_overlay "1 / 10" "[(4, 150, 2)]" get_node]
    by (auto simp: update_drops_view_def avgs) (simp add: sample_overlay_def)
qed

text \<open>A sample of no bytes makes \<open>math.log\<close> raise after the arrow was shown and taken from the pool: the arrow stays on
  the canvas for good.\<close>

lemma empty_sample_loses_arrow:
  "case update_drops_view (1 / 10) [[\<lparr>drop_transmitter = 4, drop_bytes = 0\<rparr>]] sample_overlay of
     (e, s) \<Rightarrow> e = Some ValueError \<and> arrows s = [1] \<and> arrow_shown (items s ! 0)"
  by code_simp

section \<open>Stations and access points\<close>

record wifi_link =
  sta_node :: "int option"
  ap_node :: "int option"
  group_shown :: bool

text \<open>\<open>ap_links\<close>: the links in the \<open>links\<close> list of each node, the wired ones left out.\<close>

record wifi_monitor =
  access_points :: "(string, int) dict"
  stations :: "(int \<times> nat) list"
  wifi_links :: "wifi_link list"
  ap_links :: "(int, nat list) dict"

definition list_remove :: "'a \<Rightarrow> 'a list \<Rightarrow> 'a list res" where
  "list_remove x xs = (if x \<in> set xs then Inr (remove1 x xs) else Inl ValueError)"

definition links_of :: "wifi_monitor \<Rightarrow> int \<Rightarrow> nat list" where
  "links_of s n = dict_get_default (ap_links s) n []"

definition set_ap :: "nat \<Rightarrow> int option \<Rightarrow> wifi_monitor \<Rightarrow> wifi_monitor res" where
  "set_ap l ap s =
     (let lk = wifi_links s ! l
      in if ap = ap_node lk then Inr s
         else rbind (case ap_node lk of
                       None \<Rightarrow> Inr s
                     | Some n \<Rightarrow> rbind (list_remove l (links_of s n)) (\<lambda>ls. Inr (s\<lparr>ap_links := dict_set n ls (ap_links s)\<rparr>)))
           (\<lambda>s. let s = (case ap of None \<Rightarrow> s | Some n \<Rightarrow> s\<lparr>ap_links := dict_set n (links_of s n @ [l]) (ap_links s)\<rparr>)
                in Inr (s\<lparr>wifi_links := (wifi_links s)[l := lk\<lparr>ap_node := ap, group_shown := ap \<noteq> None\<rparr>]\<rparr>)))"

text \<open>A device of the simulation as the scan sees it; the constructor of a link ends in \<open>set_ap(None)\<close>, which
  returns at once since the link has no access point yet.\<close>

datatype wifi_device = NotWifi | Station int | AccessPoint string | OtherWifi

definition new_wifi_link :: "int \<Rightarrow> wifi_monitor \<Rightarrow> wifi_monitor res" where
  "new_wifi_link n s =
     set_ap (length (wifi_links s)) None
       (s\<lparr>wifi_links := wifi_links s @ [\<lparr>sta_node = Some n, ap_node = None, group_shown = True\<rparr>]\<rparr>)"

definition scan_wifi_device :: "int \<Rightarrow> wifi_device \<Rightarrow> wifi_monitor \<Rightarrow> wifi_monitor res" where
  "scan_wifi_device n dev s =
     (case dev of
        Station d \<Rightarrow> rbind (new_wifi_link n s) (\<lambda>s. Inr (s\<lparr>stations := stations s @ [(d, length (wifi_links s) - 1)]\<rparr>))
      | AccessPoint bssid \<Rightarrow> Inr (s\<lparr>access_points := dict_set bssid n (access_points s)\<rparr>)
      | _ \<Rightarrow> Inr s)"

definition scan_nodes :: "(int \<times> wifi_device list) list \<Rightarrow> wifi_monitor \<Rightarrow> wifi_monitor res" where
  "scan_nodes net s =
     (let s = s\<lparr>wifi_links := fold (\<lambda>st its. its[snd st := (its ! snd st)\<lparr>sta_node := None, ap_node := None\<rparr>]) (stations s) (wifi_links s),
                access_points := [], stations := []\<rparr>
      in rfold (\<lambda>nd. rfold (scan_wifi_device (fst nd)) (snd nd)) net s)"

text \<open>The association of a station: none while the link is down or the BSSID is zero.\<close>

definition zero_bssid :: string where
  "zero_bssid = ''00:00:00:00:00:00''"

definition update_station :: "(int \<Rightarrow> bool \<times> string) \<Rightarrow> int \<times> nat \<Rightarrow> wifi_monitor \<Rightarrow> wifi_monitor res" where
  "update_station status st s =
     (if \<not> fst (status (fst st)) then set_ap (snd st) None s
      else if snd (status (fst st)) = zero_bssid then set_ap (snd st) None s
      else rbind (dict_get (access_points s) (snd (status (fst st)))) (\<lambda>n. set_ap (snd st) (Some n) s))"

definition wifi_periodic_update :: "(int \<Rightarrow> bool \<times> string) \<Rightarrow> wifi_monitor \<Rightarrow> wifi_monitor res" where
  "wifi_periodic_update status s = rfold (update_station status) (stations s) s"

definition monitor_ok :: "wifi_monitor \<Rightarrow> bool" where
  "monitor_ok s = ((\<forall>n. distinct (links_of s n) \<and> (\<forall>l. l \<in> set (links_of s n) \<longleftrightarrow>
       l < length (wifi_links s) \<and> ap_node (wifi_links s ! l) = Some n)) \<and>
     (\<forall>st \<in> set (stations s). snd st < length (wifi_links s)) \<and> distinct (map snd (stations s)))"

lemma links_of_set [simp]: "links_of (s\<lparr>ap_links := dict_set n ls (ap_links s)\<rparr>) m = (if m = n then ls else links_of s m)"
  by (simp add: links_of_def dict_get_default_def)

lemma links_of_other [simp]: "links_of (s\<lparr>wifi_links := lks\<rparr>) m = links_of s m" "links_of (s\<lparr>stations := sts\<rparr>) m = links_of s m"
  "links_of (s\<lparr>access_points := aps\<rparr>) m = links_of s m"
  by (simp_all add: links_of_def)

definition associated :: "nat \<Rightarrow> int option \<Rightarrow> wifi_monitor \<Rightarrow> wifi_monitor \<Rightarrow> bool" where
  "associated l ap s s' = (monitor_ok s' \<and> length (wifi_links s') = length (wifi_links s) \<and>
     (\<forall>k. ap_node (wifi_links s' ! k) = (if k = l then ap else ap_node (wifi_links s ! k))) \<and>
     stations s' = stations s \<and> access_points s' = access_points s)"

lemma set_ap_ok:
  assumes ok: "monitor_ok s" and l: "l < length (wifi_links s)"
  shows "\<exists>s'. set_ap l ap s = Inr s' \<and> associated l ap s s'"
proof (cases "ap = ap_node (wifi_links s ! l)")
  case True
  then show ?thesis using ok by (simp add: set_ap_def Let_def associated_def)
next
  case False
  have links: "distinct (links_of s n)" "k \<in> set (links_of s n) \<longleftrightarrow> k < length (wifi_links s) \<and> ap_node (wifi_links s ! k) = Some n" for n k
    using ok by (simp_all add: monitor_ok_def)
  define s1 where "s1 = (case ap_node (wifi_links s ! l) of None \<Rightarrow> s
    | Some n \<Rightarrow> s\<lparr>ap_links := dict_set n (remove1 l (links_of s n)) (ap_links s)\<rparr>)"
  define s2 where "s2 = (case ap of None \<Rightarrow> s1 | Some n \<Rightarrow> s1\<lparr>ap_links := dict_set n (links_of s1 n @ [l]) (ap_links s1)\<rparr>)"
  define s3 where "s3 = s2\<lparr>wifi_links := (wifi_links s)[l := (wifi_links s ! l)\<lparr>ap_node := ap, group_shown := ap \<noteq> None\<rparr>]\<rparr>"
  have same: "wifi_links s1 = wifi_links s" "wifi_links s2 = wifi_links s" "stations s2 = stations s" "access_points s2 = access_points s"
    by (simp_all add: s1_def s2_def split: option.split)
  have "set_ap l ap s = Inr s3"
  proof (cases "ap_node (wifi_links s ! l)")
    case None
    then show ?thesis using False by (cases ap) (simp_all add: set_ap_def Let_def s3_def s2_def s1_def)
  next
    case (Some n)
    then have "l \<in> set (links_of s n)" using links l by simp
    then show ?thesis using False Some
      by (cases ap) (simp_all add: set_ap_def Let_def s3_def s2_def s1_def list_remove_def)
  qed
  moreover have "set (links_of s1 n) = set (links_of s n) - {l}" "distinct (links_of s1 n)" for n
    using links l by (auto simp: s1_def split: option.split)
  then have "set (links_of s3 n) = (set (links_of s n) - {l}) \<union> (if ap = Some n then {l} else {})" "distinct (links_of s3 n)" for n
    by (auto simp: s3_def s2_def split: option.split)
  then have "monitor_ok s3" using ok l same links
    by (auto simp: monitor_ok_def s3_def nth_list_update split: if_splits)
  ultimately show ?thesis using l same by (auto simp: s3_def nth_list_update associated_def)
qed

definition expected_ap :: "(string, int) dict \<Rightarrow> bool \<times> string \<Rightarrow> int option" where
  "expected_ap aps st = (if \<not> fst st \<or> snd st = zero_bssid then None else map_of aps (snd st))"

definition known_station :: "(string, int) dict \<Rightarrow> bool \<times> string \<Rightarrow> bool" where
  "known_station aps st = (fst st \<and> snd st \<noteq> zero_bssid \<longrightarrow> map_of aps (snd st) \<noteq> None)"

lemma update_station_ok:
  assumes "monitor_ok s" "snd st < length (wifi_links s)"
  shows "if known_station (access_points s) (status (fst st))
    then \<exists>s'. update_station status st s = Inr s' \<and> associated (snd st) (expected_ap (access_points s) (status (fst st))) s s'
    else update_station status st s = Inl KeyError"
  using set_ap_ok [OF assms]
  by (auto simp: update_station_def expected_ap_def known_station_def dict_get_def split: option.splits)

lemma update_stations_ok:
  "monitor_ok s \<Longrightarrow> \<forall>st \<in> set sts. snd st < length (wifi_links s) \<Longrightarrow> distinct (map snd sts) \<Longrightarrow>
   if \<forall>st \<in> set sts. known_station (access_points s) (status (fst st))
   then \<exists>s'. rfold (update_station status) sts s = Inr s' \<and> monitor_ok s' \<and> stations s' = stations s \<and>
     access_points s' = access_points s \<and> length (wifi_links s') = length (wifi_links s) \<and>
     (\<forall>st \<in> set sts. ap_node (wifi_links s' ! snd st) = expected_ap (access_points s) (status (fst st))) \<and>
     (\<forall>l. l \<notin> snd ` set sts \<longrightarrow> ap_node (wifi_links s' ! l) = ap_node (wifi_links s ! l))
   else rfold (update_station status) sts s = Inl KeyError"
proof (induction sts arbitrary: s)
  case (Cons st sts)
  show ?case
  proof (cases "known_station (access_points s) (status (fst st))")
    case True
    with update_station_ok [OF Cons.prems(1), of st status] Cons.prems(2) obtain s1 where
      step: "update_station status st s = Inr s1"
      and a: "associated (snd st) (expected_ap (access_points s) (status (fst st))) s s1" by auto
    then have "monitor_ok s1" "\<forall>st \<in> set sts. snd st < length (wifi_links s1)" "distinct (map snd sts)"
      using Cons.prems by (simp_all add: associated_def)
    from Cons.IH [OF this] show ?thesis
      using a True Cons.prems(3) by (auto simp: step associated_def split: if_splits)
  next
    case False
    then show ?thesis using update_station_ok [OF Cons.prems(1), of st status] Cons.prems(2) by auto
  qed
qed simp

definition monitor0 :: wifi_monitor where
  "monitor0 = \<lparr>access_points = [], stations = [], wifi_links = [], ap_links = []\<rparr>"

lemma new_wifi_link_eq: "new_wifi_link n s = Inr (s\<lparr>wifi_links := wifi_links s @ [\<lparr>sta_node = Some n, ap_node = None, group_shown = True\<rparr>]\<rparr>)"
  by (simp add: new_wifi_link_def set_ap_def Let_def)

text \<open>The devices of the network that a scan takes note of.\<close>

definition net_stations :: "(int \<times> wifi_device list) list \<Rightarrow> int list" where
  "net_stations net = concat (map (\<lambda>nd. concat (map (\<lambda>dev. case dev of Station d \<Rightarrow> [d] | _ \<Rightarrow> []) (snd nd))) net)"

definition net_access_points :: "(int \<times> wifi_device list) list \<Rightarrow> (string \<times> int) list" where
  "net_access_points net =
     concat (map (\<lambda>nd. concat (map (\<lambda>dev. case dev of AccessPoint b \<Rightarrow> [(b, fst nd)] | _ \<Rightarrow> []) (snd nd))) net)"

definition scanned :: "int list \<Rightarrow> (string \<times> int) list \<Rightarrow> wifi_monitor \<Rightarrow> bool" where
  "scanned sts aps s = (monitor_ok s \<and> (\<forall>l < length (wifi_links s). ap_node (wifi_links s ! l) = None) \<and>
     map fst (stations s) = sts \<and> map_of (access_points s) = map_of (rev aps))"

lemma scan_wifi_device_ok:
  "scanned sts aps s \<Longrightarrow> \<exists>s'. scan_wifi_device n dev s = Inr s' \<and>
     scanned (sts @ (case dev of Station d \<Rightarrow> [d] | _ \<Rightarrow> [])) (aps @ (case dev of AccessPoint b \<Rightarrow> [(b, n)] | _ \<Rightarrow> [])) s'"
proof (cases dev)
  case (Station d)
  assume "scanned sts aps s"
  then show ?thesis using Station
    by (auto simp: scan_wifi_device_def new_wifi_link_eq scanned_def monitor_ok_def nth_append less_Suc_eq)
next
  case (AccessPoint b)
  assume "scanned sts aps s"
  then show ?thesis using AccessPoint by (auto simp: scan_wifi_device_def scanned_def monitor_ok_def fun_eq_iff)
qed (auto simp: scan_wifi_device_def)

lemma scan_wifi_devices_ok:
  "scanned sts aps s \<Longrightarrow> \<exists>s'. rfold (scan_wifi_device n) devs s = Inr s' \<and>
     scanned (sts @ concat (map (\<lambda>dev. case dev of Station d \<Rightarrow> [d] | _ \<Rightarrow> []) devs))
       (aps @ concat (map (\<lambda>dev. case dev of AccessPoint b \<Rightarrow> [(b, n)] | _ \<Rightarrow> []) devs)) s'"
proof (induction devs arbitrary: sts aps s)
  case (Cons dev devs)
  from scan_wifi_device_ok [OF Cons.prems, of n dev] obtain s1 where
    "scan_wifi_device n dev s = Inr s1"
    "scanned (sts @ (case dev of Station d \<Rightarrow> [d] | _ \<Rightarrow> [])) (aps @ (case dev of AccessPoint b \<Rightarrow> [(b, n)] | _ \<Rightarrow> [])) s1" by blast
  with Cons.IH [OF this(2)] show ?case by simp
qed simp

lemma scan_nodes_ok:
  "scanned sts aps s \<Longrightarrow> \<exists>s'. rfold (\<lambda>nd. rfold (scan_wifi_device (fst nd)) (snd nd)) net s = Inr s' \<and>
     scanned (sts @ net_stations net) (aps @ net_access_points net) s'"
proof (induction net arbitrary: sts aps s)
  case (Cons nd net)
  from scan_wifi_devices_ok [OF Cons.prems, of "fst nd" "snd nd"] obtain s1 where
    "rfold (scan_wifi_device (fst nd)) (snd nd) s = Inr s1"
    and ok: "scanned (sts @ net_stations [nd]) (aps @ net_access_points [nd]) s1"
    by (auto simp: net_stations_def net_access_points_def)
  with Cons.IH [OF ok] show ?case by (simp add: net_stations_def net_access_points_def)
qed (simp add: net_stations_def net_access_points_def)

definition associations :: "wifi_monitor \<Rightarrow> (int \<times> int option) list" where
  "associations s = map (\<lambda>st. (fst st, ap_node (wifi_links s ! snd st))) (stations s)"

definition run_wifi :: "(int \<times> wifi_device list) list \<Rightarrow> (int \<Rightarrow> bool \<times> string) list \<Rightarrow> wifi_monitor res" where
  "run_wifi net statuses = rbind (scan_nodes net monitor0) (rfold wifi_periodic_update statuses)"

lemma scan_monitor0: "\<exists>s. scan_nodes net monitor0 = Inr s \<and> scanned (net_stations net) (net_access_points net) s"
  using scan_nodes_ok [of "[]" "[]" monitor0 net]
  by (auto simp: scan_nodes_def monitor0_def scanned_def monitor_ok_def links_of_def dict_get_default_def)

lemma periodic_update_ok:
  assumes "monitor_ok s" "wifi_periodic_update status s = Inr s1"
  shows "monitor_ok s1 \<and> stations s1 = stations s \<and> access_points s1 = access_points s"
proof -
  have "distinct (map snd (stations s))" "\<forall>st \<in> set (stations s). snd st < length (wifi_links s)"
    using assms(1) by (simp_all add: monitor_ok_def)
  from update_stations_ok [OF assms(1) this(2,1), of status] assms(2) show ?thesis
    by (auto simp: wifi_periodic_update_def split: if_splits)
qed

lemma periodic_updates:
  "monitor_ok s \<Longrightarrow> rfold wifi_periodic_update statuses s = Inr s' \<Longrightarrow>
   monitor_ok s' \<and> stations s' = stations s \<and> access_points s' = access_points s"
  by (erule rfold_Inr_invariant) (auto dest: periodic_update_ok)

text \<open>C12. The links of the wireless stations follow their associations: whatever the stations did before, after an
  update every station is linked to the access point whose BSSID it reports, to none while its link is down or
  its BSSID is zero; every access point knows exactly the stations linked to it, each once; and an update fails
  only for a station that reports the BSSID of no scanned access point, with a \<open>KeyError\<close>.\<close>

theorem wifi_links_follow:
  assumes "run_wifi net statuses = Inr s"
  shows "if \<forall>d \<in> set (net_stations net). known_station (rev (net_access_points net)) (status d)
    then \<exists>s'. wifi_periodic_update status s = Inr s' \<and>
      associations s' = map (\<lambda>d. (d, expected_ap (rev (net_access_points net)) (status d))) (net_stations net) \<and>
      (\<forall>n. distinct (links_of s' n) \<and>
         set (links_of s' n) = {l. l < length (wifi_links s') \<and> ap_node (wifi_links s' ! l) = Some n})
    else wifi_periodic_update status s = Inl KeyError"
proof -
  obtain s0 where s0: "scan_nodes net monitor0 = Inr s0" "scanned (net_stations net) (net_access_points net) s0"
    using scan_monitor0 by blast
  with assms periodic_updates [of s0 statuses s] have s: "monitor_ok s" "map fst (stations s) = net_stations net"
    "map_of (access_points s) = map_of (rev (net_access_points net))"
    by (auto simp: run_wifi_def scanned_def)
  have same: "known_station (access_points s) st = known_station (rev (net_access_points net)) st"
    "expected_ap (access_points s) st = expected_ap (rev (net_access_points net)) st" for st
    using s(3) by (simp_all add: known_station_def expected_ap_def)
  have "distinct (map snd (stations s))" "\<forall>st \<in> set (stations s). snd st < length (wifi_links s)"
    using s(1) by (simp_all add: monitor_ok_def)
  note upd = update_stations_ok [OF s(1) this(2,1), of status]
  show ?thesis
  proof (cases "\<forall>d \<in> set (net_stations net). known_station (rev (net_access_points net)) (status d)")
    case True
    then have "\<forall>st \<in> set (stations s). known_station (access_points s) (status (fst st))"
      using s(2) same by (metis image_eqI list.set_map)
    with upd obtain s' where s': "wifi_periodic_update status s = Inr s'" "monitor_ok s'" "stations s' = stations s"
      "\<forall>st \<in> set (stations s). ap_node (wifi_links s' ! snd st) = expected_ap (access_points s) (status (fst st))"
      by (auto simp: wifi_periodic_update_def)
    then have "associations s' = map (\<lambda>st. (fst st, expected_ap (access_points s) (status (fst st)))) (stations s)"
      by (simp add: associations_def)
    also have "\<dots> = map (\<lambda>d. (d, expected_ap (rev (net_access_points net)) (status d))) (map fst (stations s))"
      by (simp add: same)
    finally show ?thesis using s' s(2) True by (auto simp: monitor_ok_def)
  next
    case False
    then have "\<not> (\<forall>st \<in> set (stations s). known_station (access_points s) (status (fst st)))"
      using s(2) same by (metis (no_types, lifting) imageE list.set_map)
    then show ?thesis using upd False by (simp add: wifi_periodic_update_def)
  qed
qed

definition sample_wifi :: "(int \<times> wifi_device list) list" where
  "sample_wifi = [(0, [AccessPoint ''a0'']), (1, [Station 10]), (2, [Station 20, NotWifi])]"

theorem wifi_links_follow_witness:
  "\<exists>s s'. run_wifi sample_wifi [\<lambda>d. (True, ''a0'')] = Inr s \<and>
     wifi_periodic_update (\<lambda>d. (d = 10, ''a0'')) s = Inr s' \<and> associations s' = [(10, Some 0), (20, None)]"
proof -
  have "\<exists>s. run_wifi sample_wifi [\<lambda>d. (True, ''a0'')] = Inr s"
  proof -
    have "case run_wifi sample_wifi [\<lambda>d. (True, ''a0'')] of Inl e \<Rightarrow> False | Inr s \<Rightarrow> True" by code_simp
    then show ?thesis by (auto split: sum.splits)
  qed
  then obtain s where s: "run_wifi sample_wifi [\<lambda>d. (True, ''a0'')] = Inr s" by blast
  have "\<forall>d \<in> set (net_stations sample_wifi). known_station (rev (net_access_points sample_wifi)) (d = 10, ''a0'')" by code_simp
  moreover have "map (\<lambda>d. (d, expected_ap (rev (net_access_points sample_wifi)) (d = 10, ''a0''))) (net_stations sample_wifi) =
      [(10, Some 0), (20, None)]" by code_simp
  ultimately show ?thesis using wifi_links_follow [OF s, of "\<lambda>d. (d = 10, ''a0'')"] s by auto
qed

text \<open>A link is shown from its creation until its station is first associated and lost again.\<close>

lemma unassociated_link_shown:
  "case run_wifi [(1, [Station 10])] [\<lambda>d. (False, [])] of
     Inl e \<Rightarrow> False | Inr s \<Rightarrow> map group_shown (wifi_links s) = [True] \<and> associations s = [(10, None)]"
  by code_simp

end
