(* ===== verification/VisHud.thy ===== *)
theory VisHud
  imports VisScene
begin

text \<open>
  The axes that the visualizer draws along the edges of its canvas (\<open>Axes\<close> of
  \<open>src/src/visualizer/visualizer/hud.py\<close>): the choice of the distance of the labels, the loops that place
  them, and the pool of labels that is reused from one update to the next. A label is an item of the canvas,
  known by its number; floats are exact rationals; how the canvas converts pixels is an argument.
\<close>

section \<open>Powers of ten\<close>

text \<open>\<open>rint(math.log10(d))\<close>, the exponent of the power of ten next to \<open>d\<close> on a logarithmic scale, computed
  on rationals: the floor of \<open>log10 (10 d\<^sup>2) / 2\<close>.\<close>

function log10_up :: "rat \<Rightarrow> int" where
  "log10_up q = (if 10 \<le> q then 1 + log10_up (q / 10) else 0)"
  by auto

termination
  by (relation "measure (\<lambda>q. nat \<lfloor>q\<rfloor>)") (simp_all, linarith)

function log10_down :: "rat \<Rightarrow> int" where
  "log10_down q = (if 0 < q \<and> q < 1 then log10_down (q * 10) - 1 else 0)"
  by auto

termination
proof (relation "measure (\<lambda>q. nat \<lfloor>1 / q\<rfloor>)", simp)
  fix q :: rat
  assume q: "0 < q \<and> q < 1"
  then have "1 \<le> \<lfloor>1 / q\<rfloor>" by (simp add: le_floor_iff)
  moreover have "1 / (q * 10) = (1 / q) / 10" by simp
  ultimately have "\<lfloor>1 / (q * 10)\<rfloor> < \<lfloor>1 / q\<rfloor>" unfolding floor_less_iff by linarith
  then show "(q * 10, q) \<in> measure (\<lambda>q. nat \<lfloor>1 / q\<rfloor>)" using \<open>1 \<le> \<lfloor>1 / q\<rfloor>\<close> by simp
qed

declare log10_up.simps [simp del] log10_down.simps [simp del]

definition floor_log10 :: "rat \<Rightarrow> int" where
  "floor_log10 q = (if 1 \<le> q then log10_up q else log10_down q)"

definition rint_log10 :: "rat \<Rightarrow> int" where
  "rint_log10 d = floor_log10 (10 * d * d) div 2"

lemma log10_up_bounds: "1 \<le> q \<Longrightarrow> 10 powi log10_up q \<le> q \<and> q < 10 powi (log10_up q + 1) \<and> 0 \<le> log10_up q"
proof (induction q rule: log10_up.induct)
  case (1 q)
  show ?case
  proof (cases "10 \<le> q")
    case True
    with 1 have IH: "10 powi log10_up (q / 10) \<le> q / 10" "q / 10 < 10 powi (log10_up (q / 10) + 1)"
      "0 \<le> log10_up (q / 10)" by simp_all
    then show ?thesis using True by (simp add: log10_up.simps [of q] power_int_add)
  qed (use 1 in \<open>simp add: log10_up.simps [of q]\<close>)
qed

lemma log10_down_bounds: "0 < q \<Longrightarrow> q < 10 \<Longrightarrow> 10 powi log10_down q \<le> q \<and> q < 10 powi (log10_down q + 1)"
proof (induction q rule: log10_down.induct)
  case (1 q)
  show ?case
  proof (cases "q < 1")
    case True
    with 1 have "10 powi log10_down (q * 10) \<le> q * 10" "q * 10 < 10 powi (log10_down (q * 10) + 1)" by simp_all
    then show ?thesis using True 1(2) by (simp add: log10_down.simps [of q] power_int_add power_int_diff)
  qed (use 1 in \<open>simp add: log10_down.simps [of q]\<close>)
qed

lemma floor_log10_bounds: "0 < q \<Longrightarrow> 10 powi floor_log10 q \<le> q \<and> q < 10 powi (floor_log10 q + 1)"
  using log10_up_bounds [of q] log10_down_bounds [of q] by (simp add: floor_log10_def)

text \<open>The power of ten is within a factor of the square root of ten of \<open>d\<close>.\<close>

lemma rint_log10_bounds:
  assumes "0 < d"
  shows "(10 powi rint_log10 d) ^ 2 \<le> 10 * d ^ 2" "d ^ 2 < 10 * (10 powi rint_log10 d) ^ 2"
proof -
  let ?m = "floor_log10 (10 * d * d)"
  have b: "10 powi ?m \<le> 10 * d ^ 2" "10 * d ^ 2 < 10 powi (?m + 1)"
    using floor_log10_bounds [of "10 * d * d"] assms by (simp_all add: power2_eq_square ac_simps)
  have sq: "(10 powi n :: rat) ^ 2 = 10 powi (2 * n)" for n
    unfolding power2_eq_square mult_2 by (subst power_int_add) simp_all
  have "(10 :: rat) powi (2 * rint_log10 d) \<le> 10 powi ?m" by (rule power_int_increasing) (simp_all add: rint_log10_def)
  moreover have "(10 :: rat) powi (?m + 1) \<le> 10 powi (2 * rint_log10 d + 2)"
    by (rule power_int_increasing) (simp_all add: rint_log10_def, linarith?)
  ultimately show "(10 powi rint_log10 d) ^ 2 \<le> 10 * d ^ 2" "d ^ 2 < 10 * (10 powi rint_log10 d) ^ 2"
    using b unfolding sq by (simp_all add: power_int_add)
qed

text \<open>It is the value that the code computes with a logarithm.\<close>

lemma of_rat_powi: "of_rat (10 powi n) = (10 :: real) powi n"
  by (cases "0 \<le> n") (simp_all add: power_int_def of_rat_power of_rat_inverse of_rat_divide)

lemma rint_log10_real:
  assumes "0 < d"
  shows "rint_log10 d = \<lfloor>log 10 (real_of_rat d) + 1 / 2\<rfloor>"
proof -
  let ?r = "real_of_rat d" and ?n = "rint_log10 d"
  have sq: "(10 powi ?n :: real) ^ 2 = 10 powr (2 * ?n)"
    unfolding power2_eq_square by (simp flip: powr_real_of_int' powr_add)
  have r: "0 < ?r" using assms by simp
  have "of_rat ((10 powi ?n) ^ 2) \<le> real_of_rat (10 * d ^ 2)" "real_of_rat (d ^ 2) < of_rat (10 * (10 powi ?n) ^ 2)"
    unfolding of_rat_less_eq of_rat_less by (rule rint_log10_bounds [OF assms])+
  then have "10 powr (2 * ?n) \<le> 10 * ?r ^ 2" "?r ^ 2 < 10 * 10 powr (2 * ?n)"
    by (simp_all add: of_rat_mult of_rat_power of_rat_powi sq)
  then have "2 * ?n \<le> log 10 (10 * ?r ^ 2)" "log 10 (?r ^ 2) < 1 + 2 * ?n"
    using r by (simp_all add: le_log_iff log_less_iff powr_add)
  then have "2 * ?n \<le> 1 + 2 * log 10 ?r" "2 * log 10 ?r < 1 + 2 * ?n"
    using r by (simp_all add: log_mult log_nat_power)
  then show ?thesis by (intro floor_unique [symmetric]) simp_all
qed

section \<open>The distance of the labels\<close>

definition rint :: "rat \<Rightarrow> rat" where
  "rint x = of_int \<lfloor>x + 1 / 2\<rfloor>"

definition division_length :: "rat \<Rightarrow> rat" where
  "division_length dx_over_ndiv =
     (let d = 10 powi rint_log10 dx_over_ndiv
      in if \<bar>d / 2 - dx_over_ndiv\<bar> < \<bar>d - dx_over_ndiv\<bar> then d / 2
         else if \<bar>d * 2 - dx_over_ndiv\<bar> < \<bar>d - dx_over_ndiv\<bar> then d * 2
         else d)"

text \<open>The state of the loop is \<open>(ndiv, x0, div)\<close>; the first round assigns the last two.\<close>

definition division_round :: "rat \<Rightarrow> rat \<Rightarrow> rat \<Rightarrow> rat \<Rightarrow> nat \<Rightarrow> rat \<times> rat \<times> rat \<Rightarrow> rat \<times> rat \<times> rat" where
  "division_round xi dx text_width dx_over_ndiv n st =
     (case st of (ndiv, _, _) \<Rightarrow>
        let d = division_length dx_over_ndiv
        in (if 1 < n then rint (dx / text_width) else ndiv, d * of_int \<lceil>xi / d\<rceil> - d, d))"

definition compute_divisions :: "rat \<Rightarrow> rat \<Rightarrow> (rat \<times> rat) res" where
  "compute_divisions xi xf =
     (if \<not> xi < xf then Inl AssertionError
      else let dx = xf - xi; ndiv = 5; text_width = dx / ndiv / 2; dx_over_ndiv = dx / ndiv
           in Inr (snd (fold (division_round xi dx text_width dx_over_ndiv) [0..<5] (ndiv, 0, 0))))"

text \<open>The rounds repeat each other: nothing that a round computes is used by the next.\<close>

lemma compute_divisions_eq:
  "xi < xf \<Longrightarrow> compute_divisions xi xf =
     (let d = division_length ((xf - xi) / 5) in Inr (d * of_int \<lceil>xi / d\<rceil> - d, d))"
  by (simp add: compute_divisions_def division_round_def Let_def upt_rec numeral_eq_Suc split_beta)

lemma division_length_bounds:
  assumes "0 < d"
  shows "0 < division_length d" "2 * d ^ 2 \<le> 5 * division_length d ^ 2" "2 * division_length d ^ 2 \<le> 5 * d ^ 2"
proof -
  define p where "p = (10 :: rat) powi rint_log10 d"
  have p: "0 < p" "p ^ 2 \<le> 10 * d ^ 2" "d ^ 2 < 10 * p ^ 2"
    using rint_log10_bounds [OF assms] by (simp_all add: p_def)
  have mono: "a ^ 2 \<le> b ^ 2" if "0 \<le> a" "a \<le> b" for a b :: rat using that by (simp add: power_mono)
  have eq: "division_length d = (if \<bar>p / 2 - d\<bar> < \<bar>p - d\<bar> then p / 2 else if \<bar>p * 2 - d\<bar> < \<bar>p - d\<bar> then p * 2 else p)"
    by (simp only: division_length_def p_def Let_def)
  have "0 < division_length d \<and> 2 * d ^ 2 \<le> 5 * division_length d ^ 2 \<and> 2 * division_length d ^ 2 \<le> 5 * d ^ 2"
  proof (cases "\<bar>p / 2 - d\<bar> < \<bar>p - d\<bar>")
    case half: True
    then have "2 / 3 * d \<le> p / 2" using assms p(1) by linarith
    from mono [OF _ this] show ?thesis unfolding eq if_P [OF half] using assms p by (simp add: power_mult_distrib power_divide)
  next
    case not_half: False
    show ?thesis
    proof (cases "\<bar>p * 2 - d\<bar> < \<bar>p - d\<bar>")
      case double: True
      then have "p * 2 \<le> 4 / 3 * d" using assms p(1) by linarith
      from mono [OF _ this] show ?thesis
        unfolding eq if_not_P [OF not_half] if_P [OF double] using assms p by (simp add: power_mult_distrib power_divide)
    next
      case same: False
      then have "2 / 3 * d \<le> p" "p \<le> 4 / 3 * d" using not_half assms p(1) by linarith+
      from mono [OF _ this(1)] mono [OF _ this(2)] show ?thesis
        unfolding eq if_not_P [OF not_half] if_not_P [OF same] using assms p by (simp add: power_mult_distrib power_divide)
    qed
  qed
  then show "0 < division_length d" "2 * d ^ 2 \<le> 5 * division_length d ^ 2" "2 * division_length d ^ 2 \<le> 5 * d ^ 2"
    by simp_all
qed

section \<open>The loop over the labels of an axis\<close>

partial_function (option) tick_loop :: "(rat \<Rightarrow> 's \<Rightarrow> 's) \<Rightarrow> rat \<Rightarrow> rat \<Rightarrow> rat \<Rightarrow> 's \<Rightarrow> 's option" where
  "tick_loop body x xf d s = (if x < xf then tick_loop body (x + d) xf d (body x s) else Some s)"

definition tick_count :: "rat \<Rightarrow> rat \<Rightarrow> rat \<Rightarrow> nat" where
  "tick_count x xf d = nat \<lceil>(xf - x) / d\<rceil>"

definition tick_list :: "rat \<Rightarrow> rat \<Rightarrow> rat \<Rightarrow> rat list" where
  "tick_list x xf d = map (\<lambda>k. x + of_nat k * d) [0..<tick_count x xf d]"

lemma tick_list_done: "0 < d \<Longrightarrow> \<not> x < xf \<Longrightarrow> tick_list x xf d = []"
  by (simp add: tick_list_def tick_count_def divide_nonpos_pos)

lemma tick_list_step:
  assumes "0 < d" "x < xf"
  shows "tick_list x xf d = x # tick_list (x + d) xf d"
proof -
  have "(xf - x) / d = (xf - (x + d)) / d + 1" using assms(1) by (simp add: field_simps)
  then have "\<lceil>(xf - x) / d\<rceil> = \<lceil>(xf - (x + d)) / d\<rceil> + 1" by simp
  moreover have "0 < (xf - x) / d" using assms by simp
  then have "0 < \<lceil>(xf - x) / d\<rceil>" by (simp only: zero_less_ceiling)
  ultimately have "tick_count x xf d = Suc (tick_count (x + d) xf d)"
    unfolding tick_count_def by linarith
  then show ?thesis
    by (simp add: tick_list_def upt_conv_Cons map_Suc_upt [symmetric] algebra_simps del: upt_Suc)
qed

lemma tick_loop_fold: "0 < d \<Longrightarrow> tick_loop body x xf d s = Some (fold body (tick_list x xf d) s)"
proof (induction "tick_count x xf d" arbitrary: x s)
  case 0
  then have "\<not> x < xf" using tick_list_step [of d x xf] by (auto simp: tick_list_def)
  then show ?case using 0 by (simp add: tick_loop.simps [of body x] tick_list_done)
next
  case (Suc n)
  then have lt: "x < xf" using tick_list_done [of d x xf] by (auto simp: tick_list_def)
  then have "n = tick_count (x + d) xf d"
    using Suc.hyps(2) tick_list_step [OF Suc.prems lt] by (metis tick_list_def length_Cons length_map length_upt minus_nat.diff_0 nat.inject)
  from Suc.hyps(1) [OF this Suc.prems] lt show ?case
    by (simp add: tick_loop.simps [of body x] tick_list_step [OF Suc.prems lt])
qed

definition axis_values :: "rat \<Rightarrow> rat \<Rightarrow> rat list" where
  "axis_values lo hi =
     (let d = division_length ((hi - lo) / 5) in tick_list (d * of_int \<lceil>lo / d\<rceil> - d) hi d)"

lemma tick_count_bounds:
  assumes "lo < hi" "d = division_length ((hi - lo) / 5)" "x0 = d * of_int \<lceil>lo / d\<rceil> - d"
  shows "0 < d" "x0 < lo" "lo \<le> x0 + d" "4 \<le> tick_count x0 hi d" "tick_count x0 hi d \<le> 9"
proof -
  define e where "e = (hi - lo) / 5"
  have e: "0 < e" "hi = lo + 5 * e" using assms(1) by (simp_all add: e_def field_simps)
  have d: "0 < d" "2 * e ^ 2 \<le> 5 * d ^ 2" "2 * d ^ 2 \<le> 5 * e ^ 2"
    using division_length_bounds [OF e(1)] assms(2) by (simp_all add: e_def)
  have "of_int \<lceil>lo / d\<rceil> - 1 < lo / d" "lo / d \<le> of_int \<lceil>lo / d\<rceil>" by linarith+
  then have "(of_int \<lceil>lo / d\<rceil> - 1) * d < lo" "lo \<le> of_int \<lceil>lo / d\<rceil> * d"
    using d(1) by (simp_all only: pos_less_divide_eq pos_divide_le_eq)
  then show x0: "x0 < lo" "lo \<le> x0 + d" unfolding assms(3) by (simp_all add: algebra_simps)
  have "3 * d < 5 * e"
  proof (rule ccontr)
    assume "\<not> 3 * d < 5 * e"
    then have "(5 * e) ^ 2 \<le> (3 * d) ^ 2" using e by (intro power_mono) simp_all
    moreover have "0 < e ^ 2" using e by simp
    ultimately show False using d(3) by (simp add: power_mult_distrib)
  qed
  moreover have "5 * e \<le> 8 * d"
  proof (rule ccontr)
    assume "\<not> 5 * e \<le> 8 * d"
    then have "(8 * d) ^ 2 \<le> (5 * e) ^ 2" using d by (intro power_mono) simp_all
    moreover have "0 < d ^ 2" using d by simp
    ultimately show False using d(2) by (simp add: power_mult_distrib)
  qed
  ultimately have "3 * d < hi - x0" "hi - x0 \<le> 9 * d" using x0 e(2) by linarith+
  then have "3 < (hi - x0) / d" "(hi - x0) / d \<le> 9" using d(1) by (simp_all add: pos_less_divide_eq pos_divide_le_eq)
  then show "4 \<le> tick_count x0 hi d" "tick_count x0 hi d \<le> 9" unfolding tick_count_def by linarith+
qed (use division_length_bounds [of "(hi - lo) / 5"] assms in simp)

lemma tick_list_covers:
  assumes "0 < d" "x < xf"
  shows "\<forall>v \<in> set (tick_list x xf d). v < xf" "xf \<le> x + of_nat (tick_count x xf d) * d"
proof -
  have pos: "0 < (xf - x) / d" using assms by simp
  show "\<forall>v \<in> set (tick_list x xf d). v < xf"
  proof
    fix v
    assume "v \<in> set (tick_list x xf d)"
    then have "v \<in> (\<lambda>k. x + of_nat k * d) ` {..<tick_count x xf d}" by (simp add: tick_list_def atLeast0LessThan)
    then obtain k where k: "v = x + of_nat k * d" "k < tick_count x xf d" by blast
    then have "of_nat k < (xf - x) / d" unfolding tick_count_def using pos by linarith
    then show "v < xf" using assms(1) k(1) by (simp add: pos_less_divide_eq)
  qed
  have "(xf - x) / d \<le> of_nat (tick_count x xf d)" unfolding tick_count_def using pos by linarith
  then show "xf \<le> x + of_nat (tick_count x xf d) * d" using assms(1) by (simp add: pos_divide_le_eq)
qed

text \<open>C17. The labels of an axis: for every interval the division is a power of ten, its half or its double, the
  first label lies less than one division left of the interval at a multiple of the division, the loop over the
  labels ends, and it places between four and nine labels, one division apart, that reach to the end of the
  interval and not beyond it.\<close>

theorem axis_labels_bounded:
  assumes "lo < hi"
  shows "\<exists>x0 d xs. compute_divisions lo hi = Inr (x0, d) \<and>
    (\<exists>n :: int. d \<in> {10 powi n / 2, 10 powi n, 10 powi n * 2}) \<and> (\<exists>m :: int. x0 = of_int m * d) \<and>
    x0 < lo \<and> lo \<le> x0 + d \<and>
    tick_loop (\<lambda>x ys. ys @ [x]) x0 hi d [] = Some xs \<and> 4 \<le> length xs \<and> length xs \<le> 9 \<and>
    xs = map (\<lambda>k. x0 + of_nat k * d) [0..<length xs] \<and> (\<forall>x \<in> set xs. x < hi) \<and> hi \<le> x0 + of_nat (length xs) * d"
proof -
  define d where "d = division_length ((hi - lo) / 5)"
  define x0 where "x0 = d * of_int \<lceil>lo / d\<rceil> - d"
  note b = tick_count_bounds [OF assms d_def x0_def]
  have snoc: "fold (\<lambda>x ys. ys @ [x]) xs ys = ys @ xs" for xs ys :: "rat list" by (induction xs arbitrary: ys) simp_all
  have loop: "tick_loop (\<lambda>x ys. ys @ [x]) x0 hi d [] = Some (tick_list x0 hi d)"
    by (simp only: tick_loop_fold [OF b(1)] snoc append_Nil)
  have "x0 = of_int (\<lceil>lo / d\<rceil> - 1) * d" by (simp add: x0_def algebra_simps)
  then have mult: "\<exists>m :: int. x0 = of_int m * d" by blast
  have pow: "\<exists>n :: int. d \<in> {10 powi n / 2, 10 powi n, 10 powi n * 2}"
    unfolding d_def division_length_def Let_def by (intro exI [of _ "rint_log10 ((hi - lo) / 5)"]) simp
  have res: "compute_divisions lo hi = Inr (x0, d)" using assms by (simp add: compute_divisions_eq x0_def d_def Let_def)
  have len: "length (tick_list x0 hi d) = tick_count x0 hi d" by (simp add: tick_list_def)
  have eq: "tick_list x0 hi d = map (\<lambda>k. x0 + of_nat k * d) [0..<length (tick_list x0 hi d)]"
    unfolding len by (simp add: tick_list_def)
  have "x0 < hi" using b(2) assms by simp
  note covers = tick_list_covers [OF b(1) this]
  show ?thesis
    by (rule exI [of _ x0], rule exI [of _ d], rule exI [of _ "tick_list x0 hi d"], unfold len)
      (intro conjI res pow mult b(2,3) loop b(4,5) eq [unfolded len] covers)
qed

theorem axis_labels_bounded_witness:
  "\<exists>xs. tick_loop (\<lambda>x ys. ys @ [x]) (- 10) (43 :: rat) 10 [] = Some xs \<and> xs = [- 10, 0, 10, 20, 30, 40]"
proof -
  have "compute_divisions (- 2) 43 = Inr (- 10, 10)" by code_simp
  with axis_labels_bounded [of "- 2" 43] obtain xs where
    "tick_loop (\<lambda>x ys. ys @ [x]) (- 10) (43 :: rat) 10 [] = Some xs" "xs = map (\<lambda>k. - 10 + of_nat k * 10) [0..<length xs]"
    "43 \<le> - 10 + of_nat (length xs) * (10 :: rat)" "\<forall>x \<in> set xs. x < 43" by auto
  moreover have "tick_loop (\<lambda>x ys. ys @ [x]) (- 10) (43 :: rat) 10 [] = Some [- 10, 0, 10, 20, 30, 40]"
    by (simp add: tick_loop.simps)
  ultimately show ?thesis by simp
qed

section \<open>The axes\<close>

record axis_label =
  text_shown :: bool
  text_value :: rat
  text_at :: point

text \<open>\<open>unused\<close> is the local list of \<open>update_view\<close>, which is empty between two updates.\<close>

record axes =
  axes_visible :: bool
  lines_shown :: bool
  labels :: "nat list"
  unused :: "nat list"
  texts :: "axis_label list"
  hlines :: "(point \<times> point) list"
  vlines :: "(point \<times> point) list"

record viewport =
  zoom :: "rat option"
  hadj_value :: rat
  hadj_page :: rat
  vadj_value :: rat
  vadj_page :: rat

definition new_axes :: axes where
  "new_axes = \<lparr>axes_visible = True, lines_shown = True, labels = [], unused = [], texts = [], hlines = [], vlines = []\<rparr>"

definition hide_texts :: "nat list \<Rightarrow> axis_label list \<Rightarrow> axis_label list" where
  "hide_texts is ts = fold (\<lambda>i ts. ts[i := (ts ! i)\<lparr>text_shown := False\<rparr>]) is ts"

definition set_visible :: "bool \<Rightarrow> axes \<Rightarrow> axes" where
  "set_visible b s =
     (let s = s\<lparr>axes_visible := b\<rparr>
      in if b then s\<lparr>lines_shown := True\<rparr>
         else s\<lparr>lines_shown := False, texts := hide_texts (labels s) (texts s)\<rparr>)"

definition get_label :: "axes \<Rightarrow> nat \<times> axes" where
  "get_label s =
     (case unused s of
        [] \<Rightarrow> (let i = length (texts s)
               in (i, s\<lparr>texts := texts s @ [\<lparr>text_shown = True, text_value = 0, text_at = (0, 0)\<rparr>], labels := labels s @ [i]\<rparr>))
      | i # is \<Rightarrow> (i, s\<lparr>unused := is, texts := (texts s)[i := (texts s ! i)\<lparr>text_shown := True\<rparr>], labels := labels s @ [i]\<rparr>))"

definition draw_tick :: "(rat \<Rightarrow> point \<times> point) \<Rightarrow> (rat \<Rightarrow> point) \<Rightarrow> rat \<Rightarrow> (point \<times> point) list \<times> axes \<Rightarrow> (point \<times> point) list \<times> axes" where
  "draw_tick line spot x ps =
     (case ps of (path, s) \<Rightarrow> case get_label s of (i, s) \<Rightarrow>
        (path @ [line x], s\<lparr>texts := (texts s)[i := (texts s ! i)\<lparr>text_value := x, text_at := spot x\<rparr>]\<rparr>))"

text \<open>One axis: the base line, then a stroke and a label at each division; \<open>None\<close> is a loop that does not end.\<close>

definition draw_axis :: "(rat \<Rightarrow> point \<times> point) \<Rightarrow> (rat \<Rightarrow> point) \<Rightarrow> point \<times> point \<Rightarrow> rat \<Rightarrow> rat \<Rightarrow> axes \<Rightarrow>
    ((point \<times> point) list res \<times> axes) option" where
  "draw_axis line spot base lo hi s =
     (case compute_divisions lo hi of
        Inl e \<Rightarrow> Some (Inl e, s)
      | Inr (x0, d) \<Rightarrow> Option.bind (tick_loop (draw_tick line spot) x0 hi d ([base], s)) (\<lambda>(path, s). Some (Inr path, s)))"

text \<open>An update of the view. The exception of a step leaves the labels taken so far to the axes and forgets the
  others, which only the local list knew.\<close>

definition horizontal_axis :: "rat \<Rightarrow> point \<Rightarrow> point \<Rightarrow> axes \<Rightarrow> ((point \<times> point) list res \<times> axes) option" where
  "horizontal_axis z p1 p2 =
     (let offset = 10 / z; line_width = 5 / z; yc = snd p2 - line_width / 2
      in draw_axis (\<lambda>x. ((PIXELS_PER_METER * x, yc - offset), (PIXELS_PER_METER * x, yc)))
           (\<lambda>x. (PIXELS_PER_METER * x, yc - offset)) ((fst p1, yc), (fst p2, yc))
           (fst p1 / PIXELS_PER_METER) (fst p2 / PIXELS_PER_METER))"

definition vertical_axis :: "rat \<Rightarrow> point \<Rightarrow> point \<Rightarrow> axes \<Rightarrow> ((point \<times> point) list res \<times> axes) option" where
  "vertical_axis z p1 p2 =
     (let offset = 10 / z; line_width = 5 / z; xc = fst p1 + line_width / 2
      in draw_axis (\<lambda>y. ((xc, PIXELS_PER_METER * y), (xc + offset, PIXELS_PER_METER * y)))
           (\<lambda>y. (xc + offset, PIXELS_PER_METER * y)) ((xc, snd p1), (xc, snd p2))
           (snd p1 / PIXELS_PER_METER) (snd p2 / PIXELS_PER_METER))"

definition update_axes :: "(point \<Rightarrow> point) \<Rightarrow> viewport \<Rightarrow> axes \<Rightarrow> (py_exn option \<times> axes) option" where
  "update_axes convert_from_pixels vp s =
     (case zoom vp of
        None \<Rightarrow> Some (None, s)
      | Some z \<Rightarrow>
          let s = s\<lparr>unused := labels s, labels := [], texts := hide_texts (labels s) (texts s)\<rparr>
          in if z = 0 then Some (Some ZeroDivisionError, s\<lparr>unused := []\<rparr>)
             else let p1 = convert_from_pixels (hadj_value vp, vadj_value vp);
                      p2 = convert_from_pixels (hadj_value vp + hadj_page vp, vadj_value vp + vadj_page vp)
                  in Option.bind (horizontal_axis z p1 p2 s) (\<lambda>(r, s).
                       case r of
                         Inl e \<Rightarrow> Some (Some e, s\<lparr>unused := []\<rparr>)
                       | Inr path \<Rightarrow> Option.bind (vertical_axis z p1 p2 (s\<lparr>hlines := path\<rparr>)) (\<lambda>(r, s).
                           case r of
                             Inl e \<Rightarrow> Some (Some e, s\<lparr>unused := []\<rparr>)
                           | Inr path \<Rightarrow> Some (None, s\<lparr>vlines := path, labels := labels s @ unused s, unused := []\<rparr>))))"

text \<open>The handler of the scrollbars.\<close>

definition adjustment_changed :: "(point \<Rightarrow> point) \<Rightarrow> viewport \<Rightarrow> axes \<Rightarrow> (py_exn option \<times> axes) option" where
  "adjustment_changed convert_from_pixels vp s =
     (if axes_visible s then update_axes convert_from_pixels vp s else Some (None, s))"

section \<open>The pool of labels\<close>

definition axes_ok :: "axes \<Rightarrow> bool" where
  "axes_ok s = (unused s = [] \<and> distinct (labels s) \<and> set (labels s) \<subseteq> {..<length (texts s)} \<and>
     (\<forall>i < length (texts s). i \<notin> set (labels s) \<longrightarrow> \<not> text_shown (texts s ! i)))"

definition shows_text :: "axis_label list \<Rightarrow> nat \<Rightarrow> rat \<times> point \<Rightarrow> bool" where
  "shows_text ts i vp = (ts ! i = \<lparr>text_shown = True, text_value = fst vp, text_at = snd vp\<rparr>)"

text \<open>The state in the middle of an update: the labels taken so far show the values done so far.\<close>

definition drawing :: "nat set \<Rightarrow> (rat \<times> point) list \<Rightarrow> axes \<Rightarrow> bool" where
  "drawing pool vals s = (distinct (labels s @ unused s) \<and> set (labels s @ unused s) \<subseteq> {..<length (texts s)} \<and>
     pool \<subseteq> set (labels s @ unused s) \<and>
     (\<forall>i < length (texts s). i \<notin> set (labels s) \<longrightarrow> \<not> text_shown (texts s ! i)) \<and>
     list_all2 (shows_text (texts s)) (labels s) vals)"

lemma length_hide_texts [simp]: "length (hide_texts is ts) = length ts"
  unfolding hide_texts_def by (rule fold_invariant' [where I = "\<lambda>ts'. length ts' = length ts"]) simp_all

lemma nth_hide_texts: "i < length ts \<Longrightarrow> hide_texts is ts ! i = (if i \<in> set is then (ts ! i)\<lparr>text_shown := False\<rparr> else ts ! i)"
proof (induction "is" arbitrary: ts)
  case (Cons j js)
  have "hide_texts (j # js) ts = hide_texts js (ts[j := (ts ! j)\<lparr>text_shown := False\<rparr>])" by (simp add: hide_texts_def)
  then show ?case using Cons by (cases "i = j") auto
qed (simp add: hide_texts_def)

lemma shows_text_other:
  "list_all2 (shows_text ts) is vals \<Longrightarrow> j \<notin> set is \<Longrightarrow> list_all2 (shows_text (ts[j := t])) is vals"
  unfolding list_all2_conv_all_nth shows_text_def by (metis nth_list_update_neq nth_mem)

lemma drawing_start:
  "axes_ok s \<Longrightarrow> drawing (set (labels s)) [] (s\<lparr>unused := labels s, labels := [], texts := hide_texts (labels s) (texts s)\<rparr>)"
  by (auto simp: axes_ok_def drawing_def nth_hide_texts)

lemma drawing_end:
  "drawing pool vals s \<Longrightarrow> axes_ok (s\<lparr>labels := labels s @ unused s, unused := []\<rparr>)"
  by (auto simp: axes_ok_def drawing_def)

lemma drawing_step:
  assumes "drawing pool vals s" "draw_tick line spot x (path, s) = (path', s')"
  shows "drawing pool (vals @ [(x, spot x)]) s' \<and> path' = path @ [line x] \<and> hlines s' = hlines s \<and> vlines s' = vlines s"
proof (cases "unused s")
  case Nil
  let ?i = "length (texts s)"
  have new: "list_all2 (shows_text (texts s @ [t])) (labels s) vals" for t
    using assms(1) Nil by (auto simp: drawing_def list_all2_conv_all_nth shows_text_def nth_append subset_iff)
  have eq: "texts s' = texts s @ [\<lparr>text_shown = True, text_value = x, text_at = spot x\<rparr>]" "labels s' = labels s @ [?i]"
    "unused s' = []" "path' = path @ [line x]" "hlines s' = hlines s" "vlines s' = vlines s"
    using assms(2) Nil by (auto simp: draw_tick_def get_label_def Let_def)
  show ?thesis
    using assms(1) Nil new [of "\<lparr>text_shown = True, text_value = x, text_at = spot x\<rparr>"]
    by (auto simp: drawing_def eq nth_append shows_text_def less_Suc_eq intro!: list_all2_appendI)
next
  case (Cons i "is")
  have i: "i \<notin> set (labels s)" "i < length (texts s)" using assms(1) Cons by (auto simp: drawing_def)
  have eq: "texts s' = (texts s)[i := \<lparr>text_shown = True, text_value = x, text_at = spot x\<rparr>]" "labels s' = labels s @ [i]"
    "unused s' = is" "path' = path @ [line x]" "hlines s' = hlines s" "vlines s' = vlines s"
    using assms(2) Cons i by (cases "texts s ! i"; auto simp: draw_tick_def get_label_def Let_def)+
  have "list_all2 (shows_text (texts s')) (labels s) vals"
    unfolding eq(1) using assms(1) i by (intro shows_text_other) (simp_all add: drawing_def)
  moreover have "shows_text (texts s') i (x, spot x)" using i by (simp add: eq shows_text_def)
  ultimately have "list_all2 (shows_text (texts s')) (labels s') (vals @ [(x, spot x)])"
    by (simp add: eq(2) list_all2_appendI)
  moreover have "\<forall>j < length (texts s'). j \<notin> set (labels s') \<longrightarrow> \<not> text_shown (texts s' ! j)"
    using assms(1) by (auto simp: drawing_def eq nth_list_update)
  ultimately show ?thesis using assms(1) Cons by (auto simp: drawing_def eq(1-3) eq(4-6))
qed

lemma drawing_fold:
  "drawing pool vals s \<Longrightarrow> fold (draw_tick line spot) xs (path, s) = (path', s') \<Longrightarrow>
   drawing pool (vals @ map (\<lambda>x. (x, spot x)) xs) s' \<and> path' = path @ map line xs \<and> hlines s' = hlines s \<and> vlines s' = vlines s"
proof (induction xs arbitrary: vals path s)
  case (Cons x xs)
  obtain path1 s1 where step: "draw_tick line spot x (path, s) = (path1, s1)" by fastforce
  from drawing_step [OF Cons.prems(1) step] Cons.IH [of "vals @ [(x, spot x)]" s1 path1] Cons.prems(2) step
  show ?case by simp
qed simp

lemma draw_axis_result:
  assumes "drawing pool vals s" "lo < hi"
  shows "\<exists>s'. draw_axis line spot base lo hi s = Some (Inr (base # map line (axis_values lo hi)), s') \<and>
    drawing pool (vals @ map (\<lambda>x. (x, spot x)) (axis_values lo hi)) s' \<and> hlines s' = hlines s \<and> vlines s' = vlines s"
proof -
  define d where "d = division_length ((hi - lo) / 5)"
  define x0 where "x0 = d * of_int \<lceil>lo / d\<rceil> - d"
  note b = tick_count_bounds [OF assms(2) d_def x0_def]
  have vals: "axis_values lo hi = tick_list x0 hi d" by (simp add: axis_values_def d_def x0_def Let_def)
  obtain path' s' where run: "fold (draw_tick line spot) (tick_list x0 hi d) ([base], s) = (path', s')" by fastforce
  have "compute_divisions lo hi = Inr (x0, d)" using assms(2) by (simp add: compute_divisions_eq x0_def d_def Let_def)
  then have "draw_axis line spot base lo hi s = Some (Inr path', s')"
    by (simp add: draw_axis_def tick_loop_fold [OF b(1)] run)
  then show ?thesis using drawing_fold [OF assms(1) run] unfolding vals by auto
qed

lemma drawing_lines [simp]: "drawing pool vals (s\<lparr>hlines := p\<rparr>) = drawing pool vals s" "drawing pool vals (s\<lparr>vlines := p\<rparr>) = drawing pool vals s"
  by (simp_all add: drawing_def)

text \<open>The labels of an update: a horizontal one at the height of the lower end of each stroke, a vertical one at
  its right end.\<close>

definition axis_texts :: "rat \<Rightarrow> point \<Rightarrow> point \<Rightarrow> (rat \<times> point) list" where
  "axis_texts z p1 p2 =
     map (\<lambda>x. (x, (3 * x, snd p2 - 5 / (2 * z) - 10 / z))) (axis_values (fst p1 / 3) (fst p2 / 3)) @
     map (\<lambda>y. (y, (fst p1 + 5 / (2 * z) + 10 / z, 3 * y))) (axis_values (snd p1 / 3) (snd p2 / 3))"

text \<open>C18. The axes show the divisions of the visible part of the canvas and nothing else: when the view has a zoom
  and a size, an update returns, leaves for every division of both axes one visible label with its value at its
  place, in order, and hides every other label; the labels of earlier updates stay in the pool, and new ones
  are only created when the pool is used up.\<close>

theorem axes_show_divisions:
  assumes "axes_ok s" "zoom vp = Some z" "z \<noteq> 0"
    and "p1 = convert_from_pixels (hadj_value vp, vadj_value vp)"
    and "p2 = convert_from_pixels (hadj_value vp + hadj_page vp, vadj_value vp + vadj_page vp)"
    and "fst p1 < fst p2" "snd p1 < snd p2"
  shows "\<exists>s' used rest. update_axes convert_from_pixels vp s = Some (None, s') \<and> axes_ok s' \<and>
    labels s' = used @ rest \<and> set (labels s) \<subseteq> set (labels s') \<and>
    list_all2 (shows_text (texts s')) used (axis_texts z p1 p2) \<and>
    (\<forall>i < length (texts s'). i \<notin> set used \<longrightarrow> \<not> text_shown (texts s' ! i)) \<and>
    length (hlines s') = 1 + length (axis_values (fst p1 / 3) (fst p2 / 3)) \<and>
    length (vlines s') = 1 + length (axis_values (snd p1 / 3) (snd p2 / 3))"
proof -
  let ?s0 = "s\<lparr>unused := labels s, labels := [], texts := hide_texts (labels s) (texts s)\<rparr>"
  have lt: "fst p1 / PIXELS_PER_METER < fst p2 / PIXELS_PER_METER" "snd p1 / PIXELS_PER_METER < snd p2 / PIXELS_PER_METER"
    using assms(6,7) by (simp_all add: PIXELS_PER_METER_def divide_strict_right_mono)
  have "\<exists>path s1. horizontal_axis z p1 p2 ?s0 = Some (Inr path, s1) \<and> length path = 1 + length (axis_values (fst p1 / 3) (fst p2 / 3)) \<and>
      drawing (set (labels s)) (map (\<lambda>x. (x, (3 * x, snd p2 - 5 / (2 * z) - 10 / z))) (axis_values (fst p1 / 3) (fst p2 / 3))) s1"
    unfolding horizontal_axis_def Let_def using draw_axis_result [OF drawing_start [OF assms(1)] lt(1)]
    by (fastforce simp: PIXELS_PER_METER_def)
  then obtain path s1 where h: "horizontal_axis z p1 p2 ?s0 = Some (Inr path, s1)" "length path = 1 + length (axis_values (fst p1 / 3) (fst p2 / 3))"
    "drawing (set (labels s)) (map (\<lambda>x. (x, (3 * x, snd p2 - 5 / (2 * z) - 10 / z))) (axis_values (fst p1 / 3) (fst p2 / 3))) (s1\<lparr>hlines := path\<rparr>)"
    by auto
  have "\<exists>path' s2. vertical_axis z p1 p2 (s1\<lparr>hlines := path\<rparr>) = Some (Inr path', s2) \<and> hlines s2 = path \<and>
      length path' = 1 + length (axis_values (snd p1 / 3) (snd p2 / 3)) \<and> drawing (set (labels s)) (axis_texts z p1 p2) s2"
    unfolding vertical_axis_def Let_def axis_texts_def using draw_axis_result [OF h(3) lt(2)]
    by (fastforce simp: PIXELS_PER_METER_def)
  then obtain path' s2 where v: "vertical_axis z p1 p2 (s1\<lparr>hlines := path\<rparr>) = Some (Inr path', s2)" "hlines s2 = path"
    "length path' = 1 + length (axis_values (snd p1 / 3) (snd p2 / 3))" "drawing (set (labels s)) (axis_texts z p1 p2) s2" by blast
  let ?s3 = "s2\<lparr>vlines := path', labels := labels s2 @ unused s2, unused := []\<rparr>"
  have "update_axes convert_from_pixels vp s = Some (None, ?s3)"
    using assms(2,3) h(1) v(1) by (simp add: update_axes_def Let_def flip: assms(4,5))
  moreover have "axes_ok ?s3" using drawing_end [of "set (labels s)" _ "s2\<lparr>vlines := path'\<rparr>"] v(4) by simp
  ultimately show ?thesis using v h(2)
    by (intro exI [of _ ?s3] exI [of _ "labels s2"] exI [of _ "unused s2"]) (auto simp: drawing_def)
qed

definition sample_viewport :: viewport where
  "sample_viewport = \<lparr>zoom = Some 2, hadj_value = 0, hadj_page = 135, vadj_value = - 6, vadj_page = 66\<rparr>"

theorem axes_show_divisions_witness:
  "\<exists>s. update_axes (\<lambda>p. p) sample_viewport new_axes = Some (None, s) \<and> axes_ok s \<and> length (hlines s) = 7 \<and> length (vlines s) = 6"
proof -
  have "axes_ok new_axes" by code_simp
  moreover have "zoom sample_viewport = Some 2" by code_simp
  moreover have "length (axis_values (fst (0, - 6) / 3) (fst (135, 60) / 3)) = 6" by code_simp
  moreover have "length (axis_values (snd (0, - 6) / 3) (snd (135, 60) / 3)) = 5" by code_simp
  ultimately show ?thesis
    using axes_show_divisions [of new_axes sample_viewport 2 "(0, - 6)" "\<lambda>p. p" "(135, 60)"] by (auto simp: sample_viewport_def)
qed

section \<open>Whatever happens\<close>

lemma draw_axis_returns:
  assumes "drawing pool vals s"
  shows "\<exists>r s' vals'. draw_axis line spot base lo hi s = Some (r, s') \<and> drawing pool vals' s'"
proof (cases "lo < hi")
  case True
  then show ?thesis using draw_axis_result [OF assms True, of line spot base] by blast
next
  case False
  then show ?thesis using assms by (auto simp: draw_axis_def compute_divisions_def)
qed

lemma drawing_stop: "drawing pool vals s \<Longrightarrow> axes_ok (s\<lparr>unused := []\<rparr>)"
  by (auto simp: drawing_def axes_ok_def)

text \<open>The labels that are not in the pool stay hidden, also when an update raises; and an update always returns.\<close>

lemma axes_ok_update:
  assumes "axes_ok s"
  shows "\<exists>e s'. update_axes convert vp s = Some (e, s') \<and> axes_ok s'"
proof (cases "zoom vp")
  case None
  then show ?thesis using assms by (simp add: update_axes_def)
next
  case (Some z)
  let ?s0 = "s\<lparr>unused := labels s, labels := [], texts := hide_texts (labels s) (texts s)\<rparr>"
  let ?p1 = "convert (hadj_value vp, vadj_value vp)" and ?p2 = "convert (hadj_value vp + hadj_page vp, vadj_value vp + vadj_page vp)"
  note start = drawing_start [OF assms]
  obtain r s1 vals1 where h: "horizontal_axis z ?p1 ?p2 ?s0 = Some (r, s1)" "drawing (set (labels s)) vals1 s1"
    unfolding horizontal_axis_def Let_def using draw_axis_returns [OF start] by blast
  then have "drawing (set (labels s)) vals1 (s1\<lparr>hlines := path\<rparr>)" for path by simp
  from draw_axis_returns [OF this] have "\<exists>r2 s2 vals2. vertical_axis z ?p1 ?p2 (s1\<lparr>hlines := path\<rparr>) = Some (r2, s2) \<and>
      drawing (set (labels s)) vals2 s2" for path
    unfolding vertical_axis_def Let_def by blast
  then obtain r2 s2 vals2 where v: "vertical_axis z ?p1 ?p2 (s1\<lparr>hlines := projr r\<rparr>) = Some (r2, s2)" "drawing (set (labels s)) vals2 s2"
    by blast
  have "axes_ok (s2\<lparr>vlines := path, labels := labels s2 @ unused s2, unused := []\<rparr>)" for path
    using drawing_end [of "set (labels s)" vals2 "s2\<lparr>vlines := path\<rparr>"] v(2) by simp
  then show ?thesis
    using Some h v drawing_stop [OF start] drawing_stop [OF h(2)] drawing_stop [OF v(2)]
    by (cases r; cases r2) (auto simp: update_axes_def Let_def)
qed

lemma axes_ok_visible: "axes_ok s \<Longrightarrow> axes_ok (set_visible b s)"
  by (auto simp: axes_ok_def set_visible_def nth_hide_texts Let_def)

text \<open>A view without a size raises after the labels were taken out of the pool: they are lost to the axes.\<close>

lemma empty_view_loses_labels:
  "case update_axes (\<lambda>p. p) (sample_viewport\<lparr>hadj_page := 0\<rparr>)
     (new_axes\<lparr>labels := [0], texts := [\<lparr>text_shown = True, text_value = 3, text_at = (9, 0)\<rparr>]\<rparr>) of
     None \<Rightarrow> False
   | Some (e, s) \<Rightarrow> e = Some AssertionError \<and> labels s = [] \<and> length (texts s) = 1"
  by code_simp

end
