(* ===== verification/IPyConsole.thy ===== *)
theory IPyConsole
  imports PyString PyTrace "HOL-Library.Sublist"
begin

text \<open>
  The Python console of the visualizer (\<open>src/src/visualizer/visualizer/ipython_view.py\<close>): the lines given to
  the interpreter, the history, the completion, the coloured output and the keys of the text view. IPython is
  a parameter: the completions of a word, whether the pushed lines want more, what an execution prints. The
  text buffer is seen through the positions of its marks and the requests made to it.
\<close>

section \<open>The history\<close>

record shell =
  history_level :: int
  iter_more :: bool
  continuation :: bool
  interrupt :: bool
  pushed :: "string list"

definition new_shell :: shell where
  "new_shell = \<lparr>history_level = 0, iter_more = False, continuation = False, interrupt = False, pushed = []\<rparr>"

definition strip_newlines :: "string \<Rightarrow> string" where
  "strip_newlines s = rev (dropWhile (\<lambda>c. c = CHR 0x0A) (rev (dropWhile (\<lambda>c. c = CHR 0x0A) s)))"

text \<open>\<open>inputs\<close> is the list \<open>In\<close> of the interpreter, whose first entry is empty.\<close>

definition get_history :: "string list \<Rightarrow> shell \<Rightarrow> string" where
  "get_history inputs s =
     (case py_nth inputs (history_level s) of Inl e \<Rightarrow> [] | Inr l \<Rightarrow> strip_newlines l)"

definition history_back :: "string list \<Rightarrow> shell \<Rightarrow> string \<times> shell" where
  "history_back inputs s =
     (let s = s\<lparr>history_level := history_level s - 1\<rparr>;
          s = (if get_history inputs s = [] then s\<lparr>history_level := history_level s + 1\<rparr> else s)
      in (get_history inputs s, s))"

definition history_forward :: "string list \<Rightarrow> shell \<Rightarrow> string \<times> shell" where
  "history_forward inputs s =
     (let s = (if history_level s < 0 then s\<lparr>history_level := history_level s + 1\<rparr> else s)
      in (get_history inputs s, s))"

definition history_key :: "string list \<Rightarrow> bool \<Rightarrow> string \<times> shell \<Rightarrow> string \<times> shell" where
  "history_key inputs up ts = (if up then history_back inputs (snd ts) else history_forward inputs (snd ts))"

text \<open>The reference: a position between the newest command and the empty line below it.\<close>

definition history_move :: "nat \<Rightarrow> bool \<Rightarrow> nat \<Rightarrow> nat" where
  "history_move n up k = (if up then min n (k + 1) else k - 1)"

definition history_text :: "string list \<Rightarrow> nat \<Rightarrow> string" where
  "history_text cmds k = (if k = 0 then [] else strip_newlines (cmds ! (length cmds - k)))"

lemma get_history_level:
  assumes "k \<le> length cmds" "history_level s = - int k"
  shows "get_history ([] # cmds) s = history_text cmds k"
  using assms
  by (cases k) (simp_all add: get_history_def py_nth_def history_text_def strip_newlines_def nat_diff_distrib nth_Cons' nat_add_distrib of_nat_diff)

lemma get_history_beyond:
  assumes "history_level s = - int (length cmds) - 1"
  shows "get_history ([] # cmds) s = []"
  using assms by (simp add: get_history_def py_nth_def strip_newlines_def)

lemma history_text_command:
  "\<forall>c \<in> set cmds. strip_newlines c \<noteq> [] \<Longrightarrow> k \<le> length cmds \<Longrightarrow> history_text cmds k = [] \<longleftrightarrow> k = 0"
  by (cases k) (simp_all add: history_text_def)

lemma history_key_step:
  assumes "\<forall>c \<in> set cmds. strip_newlines c \<noteq> []" "k \<le> length cmds" "history_level s = - int k"
  shows "history_key ([] # cmds) up (t, s) =
    (history_text cmds (history_move (length cmds) up k), s\<lparr>history_level := - int (history_move (length cmds) up k)\<rparr>)"
proof (cases up)
  case True
  show ?thesis
  proof (cases "k = length cmds")
    case oldest: True
    then have "get_history ([] # cmds) (s\<lparr>history_level := - int k - 1\<rparr>) = []" by (intro get_history_beyond) simp
    then show ?thesis
      using True oldest assms get_history_level [of k cmds "s\<lparr>history_level := - int k\<rparr>"]
      by (simp add: history_key_def history_back_def Let_def history_move_def)
  next
    case False
    then have k: "Suc k \<le> length cmds" using assms(2) by simp
    then have "get_history ([] # cmds) (s\<lparr>history_level := - int k - 1\<rparr>) = history_text cmds (Suc k)"
      by (intro get_history_level) simp_all
    then show ?thesis
      using True k assms history_text_command [OF assms(1) k]
      by (simp add: history_key_def history_back_def Let_def history_move_def min_def)
  qed
next
  case False
  show ?thesis
  proof (cases k)
    case 0
    then show ?thesis using False assms get_history_level [of 0 cmds s]
      by (cases s) (simp add: history_key_def history_forward_def Let_def history_move_def)
  next
    case (Suc j)
    then show ?thesis using False assms get_history_level [of j cmds "s\<lparr>history_level := - int j\<rparr>"]
      by (simp add: history_key_def history_forward_def Let_def history_move_def)
  qed
qed

text \<open>C15. Walking through the history is a position that moves between the empty line and the oldest command:
  after any sequence of Up and Down keys the console shows the command at the position that the keys lead to
  when each moves it by one and the ends stop it, and the level kept is its negative.\<close>

theorem history_refines_position:
  assumes "\<forall>c \<in> set cmds. strip_newlines c \<noteq> []" "history_level s = 0" "keys \<noteq> []"
  shows "fold (history_key ([] # cmds)) keys (t, s) =
    (history_text cmds (fold (history_move (length cmds)) keys 0),
     s\<lparr>history_level := - int (fold (history_move (length cmds)) keys 0)\<rparr>)"
proof -
  have "fold (history_move (length cmds)) ks 0 \<le> length cmds \<and>
      snd (fold (history_key ([] # cmds)) ks (t, s)) = s\<lparr>history_level := - int (fold (history_move (length cmds)) ks 0)\<rparr> \<and>
      (ks \<noteq> [] \<longrightarrow> fst (fold (history_key ([] # cmds)) ks (t, s)) = history_text cmds (fold (history_move (length cmds)) ks 0))" for ks
  proof (induction ks rule: rev_induct)
    case Nil
    then show ?case using assms(2) by simp
  next
    case (snoc up ks)
    obtain t1 s1 where run: "fold (history_key ([] # cmds)) ks (t, s) = (t1, s1)" by fastforce
    let ?k = "fold (history_move (length cmds)) ks 0"
    have s1: "s1 = s\<lparr>history_level := - int ?k\<rparr>" "?k \<le> length cmds" using snoc run by simp_all
    then have "history_key ([] # cmds) up (t1, s1) =
        (history_text cmds (history_move (length cmds) up ?k), s1\<lparr>history_level := - int (history_move (length cmds) up ?k)\<rparr>)"
      by (intro history_key_step [OF assms(1)]) simp_all
    moreover have "history_move (length cmds) up ?k \<le> length cmds" using s1(2) by (auto simp: history_move_def)
    ultimately show ?case by (simp add: run s1(1))
  qed
  then show ?thesis using assms(3) by (simp add: prod_eq_iff)
qed

theorem history_refines_position_witness:
  "fst (fold (history_key [[], ''a = 1'', ''print(a)'']) [True, True, True, False] ([], new_shell)) = ''print(a)''"
proof -
  have "\<forall>c \<in> set [''a = 1'', ''print(a)'']. strip_newlines c \<noteq> []" by code_simp
  from history_refines_position [OF this, of new_shell "[True, True, True, False]" "[]"]
  show ?thesis by (simp add: new_shell_def history_move_def) code_simp
qed

section \<open>Completion\<close>

text \<open>\<open>complete_sep.split(line)\<close>: the pieces between white space and brackets.\<close>

definition is_complete_sep :: "char \<Rightarrow> bool" where
  "is_complete_sep c = (is_space c \<or> c \<in> set ''{}[]()'')"

fun split_where :: "('a \<Rightarrow> bool) \<Rightarrow> 'a list \<Rightarrow> 'a list list" where
  "split_where p [] = [[]]"
| "split_where p (c # cs) =
     (if p c then [] # split_where p cs
      else (case split_where p cs of [] \<Rightarrow> [[c]] | w # ws \<Rightarrow> (c # w) # ws))"

definition common_prefix :: "string \<Rightarrow> string \<Rightarrow> string" where
  "common_prefix str1 str2 =
     (case find (\<lambda>i. \<not> startswith str2 (take (i + 1) str1)) [0..<length str1] of
        Some i \<Rightarrow> take i str1
      | None \<Rightarrow> str1)"

definition reduce_common_prefix :: "string list \<Rightarrow> string" where
  "reduce_common_prefix ms = foldl common_prefix (hd ms) (tl ms)"

definition shell_complete :: "(string \<Rightarrow> string \<times> string list) \<Rightarrow> string \<Rightarrow> (string \<times> string list) res" where
  "shell_complete ip_complete line =
     (let w = last (split_where is_complete_sep line);
          possibilities = (if w \<noteq> [] then ip_complete w else ([], []))
      in if snd possibilities \<noteq> [] then
           rbind (if reduce_common_prefix (snd possibilities) \<noteq> [] then Inr (reduce_common_prefix (snd possibilities))
                  else rbind (py_nth line (- 1)) (\<lambda>c. Inr [c]))
             (\<lambda>pre. Inr (py_slice_to line (- int (length w)) @ pre, snd possibilities))
         else Inr (line, snd possibilities))"

lemma startswith_prefix: "startswith s p \<longleftrightarrow> prefix p s"
  by (auto simp: startswith_iff prefix_def)

lemma split_where_nonempty [simp]: "split_where p xs \<noteq> []"
  by (induction xs) (auto split: list.splits)



lemma common_prefix_spec: "prefix (common_prefix a b) a" "prefix (common_prefix a b) b"
    "prefix r a \<Longrightarrow> prefix r b \<Longrightarrow> prefix r (common_prefix a b)"
proof -
  let ?P = "\<lambda>i. \<not> startswith b (take (i + 1) a)"
  have "prefix (common_prefix a b) a \<and> prefix (common_prefix a b) b \<and> (prefix r a \<longrightarrow> prefix r b \<longrightarrow> prefix r (common_prefix a b))"
  proof (cases "find ?P [0..<length a]")
    case None
    then have all: "startswith b (take (i + 1) a)" if "i < length a" for i using that by (auto simp: find_None_iff)
    have "prefix a b"
    proof (cases "a = []")
      case False
      then show ?thesis using all [of "length a - 1"] by (simp add: startswith_prefix)
    qed simp
    then show ?thesis using None by (simp add: common_prefix_def)
  next
    case (Some i)
    then have i: "i < length a" "\<not> prefix (take (i + 1) a) b" "\<And>j. j < i \<Longrightarrow> prefix (take (j + 1) a) b"
      by (auto simp: find_Some_iff startswith_prefix)
    have "prefix (take i a) b" using i(3) [of "i - 1"] by (cases i) simp_all
    moreover have "prefix r (take i a)" if r: "prefix r a" "prefix r b"
    proof -
      from r(1) obtain z where a: "a = r @ z" by (auto simp: prefix_def)
      have "\<not> i < length r"
      proof
        assume "i < length r"
        then have "prefix (take (i + 1) a) r" by (simp add: a take_is_prefix)
        then show False using r(2) i(2) prefix_order.trans by blast
      qed
      then show ?thesis by (simp add: a)
    qed
    ultimately show ?thesis using Some by (simp add: common_prefix_def take_is_prefix)
  qed
  then show "prefix (common_prefix a b) a" "prefix (common_prefix a b) b"
    "prefix r a \<Longrightarrow> prefix r b \<Longrightarrow> prefix r (common_prefix a b)" by simp_all
qed

lemma common_prefix_eq: "common_prefix a b = longest_common_prefix a b"
  by (meson common_prefix_spec longest_common_prefix_max_prefix longest_common_prefix_prefix1
      longest_common_prefix_prefix2 prefix_order.antisym)





section \<open>Coloured output\<close>

text \<open>A match of \<open>color_pat\<close> at the start of a text: its group and the text after it.\<close>

definition strip_opt :: "char \<Rightarrow> string \<Rightarrow> string" where
  "strip_opt c s = (case s of [] \<Rightarrow> [] | x # xs \<Rightarrow> if x = c then xs else s)"

definition match_color :: "string \<Rightarrow> (string \<times> string) option" where
  "match_color s =
     (case strip_opt (CHR 0x01) s of
        x # y # rest \<Rightarrow>
          if x = CHR 0x1B \<and> y = CHR ''['' then
            let code = takeWhile (\<lambda>c. c \<noteq> CHR ''m'') rest
            in if CHR ''m'' \<in> set rest \<and> CHR 0x0A \<notin> set code
               then Some (code, strip_opt (CHR 0x02) (drop (length code + 1) rest)) else None
          else None
      | _ \<Rightarrow> None)"

lemma length_strip_opt: "length (strip_opt c s) \<le> length s"
  by (cases s) (auto simp: strip_opt_def)

lemma match_color_shorter: "match_color s = Some (code, rest) \<Longrightarrow> length rest < length s"
  using length_strip_opt [of "CHR 0x01" s]
  by (auto simp: match_color_def Let_def split: list.splits if_splits intro!: le_less_trans [OF length_strip_opt])

text \<open>\<open>color_pat.split\<close> as the text before the first match and, for each match, its group and the text after it.\<close>

function color_split :: "string \<Rightarrow> string \<times> (string \<times> string) list" where
  "color_split s =
     (case s of
        [] \<Rightarrow> ([], [])
      | c # cs \<Rightarrow>
          (case match_color s of
             Some (code, rest) \<Rightarrow> (case color_split rest of (t, ps) \<Rightarrow> ([], (code, t) # ps))
           | None \<Rightarrow> (case color_split cs of (t, ps) \<Rightarrow> (c # t, ps))))"
  by auto

termination
  by (relation "measure length") (auto dest: match_color_shorter)

declare color_split.simps [simp del]

fun list_index :: "'a \<Rightarrow> 'a list \<Rightarrow> nat res" where
  "list_index x [] = Inl ValueError"
| "list_index x (y # ys) = (if x = y then Inr 0 else rbind (list_index x ys) (\<lambda>i. Inr (Suc i)))"

text \<open>The loop over the tags; an insertion is a text with the name of its tag.\<close>

fun insert_tagged :: "string list \<Rightarrow> string list \<Rightarrow> (string \<times> string option) list \<Rightarrow> (string \<times> string option) list res" where
  "insert_tagged [] segments out = Inr out"
| "insert_tagged (tag # tags) segments out =
     rbind (list_index tag segments) (\<lambda>i.
     rbind (py_nth segments (int i + 1)) (\<lambda>t.
       insert_tagged tags (take i segments @ drop (Suc i) segments) (out @ [(t, Some tag)])))"

definition console_write :: "string \<Rightarrow> (string \<times> string option) list res" where
  "console_write text =
     (case color_split text of
        (t0, ps) \<Rightarrow> insert_tagged (map fst ps) (concat (map (\<lambda>(code, t). [code, t]) ps)) [(t0, None)])"




definition red :: "string \<Rightarrow> string" where
  "red t = [CHR 0x1B] @ ''[0;31m'' @ t @ [CHR 0x1B] @ ''[0m''"


text \<open>Otherwise text is lost: a zero in colour is taken for the code that ends the colour.\<close>

lemma coloured_zero_loses_text:
  "console_write (''x = '' @ red ''0'' @ ''!'') = Inr [(''x = '', None), (''0'', Some ''0;31''), (''0'', Some ''0'')]"
  by code_simp

section \<open>Keys\<close>

datatype key = HomeKey | LeftKey | ReturnKey | UpKey | DownKey | TabKey | LetterC | OtherKey

record key_event =
  keyval :: key
  ctrl :: bool
  alt :: bool
  shift :: bool
  has_string :: bool

text \<open>The positions in the text buffer of the cursor, the other end of the selection, and the start of the line.\<close>

record marks =
  insert_mark :: nat
  selection_bound :: nat
  line_start :: nat

definition place_cursor :: "nat \<Rightarrow> marks \<Rightarrow> marks" where
  "place_cursor i m = m\<lparr>insert_mark := i, selection_bound := i\<rparr>"

text \<open>\<open>onKeyPress\<close>: \<open>Some r\<close> is a return before the call of \<open>onKeyPressExtend\<close>; \<open>editable\<close> tells whether text can be
  edited at a position, and the cursor is moved back by one from its copy.\<close>

definition on_key_press :: "(nat \<Rightarrow> bool) \<Rightarrow> key_event \<Rightarrow> marks \<Rightarrow> bool option \<times> marks" where
  "on_key_press editable ev m =
     (if keyval ev = HomeKey then
        if ctrl ev \<or> alt ev then (None, m)
        else if shift ev then (Some True, m\<lparr>insert_mark := line_start m\<rparr>)
        else (Some True, place_cursor (line_start m) m)
      else if keyval ev = LeftKey then
        if \<not> editable (insert_mark m - 1) then (Some True, m) else (None, m)
      else if \<not> has_string ev then (None, m)
      else if line_start m \<le> insert_mark m \<and> line_start m \<le> selection_bound m then (None, m)
      else if insert_mark m < line_start m \<and> selection_bound m < line_start m then (None, place_cursor (line_start m) m)
      else if insert_mark m < selection_bound m then (None, m\<lparr>insert_mark := line_start m\<rparr>)
      else if selection_bound m < insert_mark m then (None, m\<lparr>selection_bound := line_start m\<rparr>)
      else (None, m))"

text \<open>What is typed never touches the text before the prompt: a key that carries text reaches the text view
  with the cursor and the selection cut off at the start of the line, so that what the key replaces is the
  part of the selection that belongs to the line; the Home key goes to the start of the line.\<close>

theorem typing_protects_prompt:
  assumes "has_string ev" "keyval ev \<notin> {HomeKey, LeftKey}"
  shows "on_key_press editable ev m =
    (None, m\<lparr>insert_mark := max (line_start m) (insert_mark m), selection_bound := max (line_start m) (selection_bound m)\<rparr>)"
  using assms by (cases m) (auto simp: on_key_press_def place_cursor_def max_def)

theorem typing_protects_prompt_witness:
  "snd (on_key_press (\<lambda>i. 9 \<le> i) \<lparr>keyval = OtherKey, ctrl = False, alt = False, shift = False, has_string = True\<rparr>
     \<lparr>insert_mark = 12, selection_bound = 4, line_start = 9\<rparr>) = \<lparr>insert_mark = 12, selection_bound = 9, line_start = 9\<rparr>"
  by (subst typing_protects_prompt) simp_all

section \<open>Lines and executions\<close>

datatype console_event = InterruptNotice | PushLine string | ResetInput | RunCell "string list" | ShowReturned string
  | WriteText string | ShowPrompt bool | ChangeLine string

text \<open>\<open>execute\<close>: the line is pushed, and the lines are run when they make a whole statement, or an interrupt drops
  them. \<open>accepts_more\<close> is the answer of the input splitter.\<close>

definition execute :: "(string list \<Rightarrow> bool) \<Rightarrow> string \<Rightarrow> shell \<Rightarrow> console_event list \<times> shell" where
  "execute accepts_more line s =
     (let s = s\<lparr>history_level := 0, continuation := iter_more s\<rparr>
      in if interrupt s then ([InterruptNotice, ResetInput], s\<lparr>interrupt := False, pushed := []\<rparr>)
         else let lines = pushed s @ [line]; more = accepts_more lines; s = s\<lparr>iter_more := more, continuation := more\<rparr>
              in if more then ([PushLine line], s\<lparr>pushed := lines\<rparr>)
                 else ([PushLine line, ResetInput, RunCell lines], s\<lparr>pushed := []\<rparr>))"





definition sample_complete :: "string \<Rightarrow> string \<times> string list" where
  "sample_complete w = (w, if w = ''Ge'' then [''GetNode'', ''GetNNodes''] else if w = ''ti'' then [''%time'', ''title''] else [])"


text \<open>A word whose completions do not all begin alike is replaced by its last letter; and an interrupt in the
  middle of a statement drops the lines but keeps the continuation prompt.\<close>

lemma completion_loses_word:
  "shell_complete sample_complete ''ti'' = Inr (''i'', [''%time'', ''title''])"
  by code_simp

lemma interrupt_keeps_continuation:
  "case execute (\<lambda>ls. True) ''for i in r:'' new_shell of (evs, s) \<Rightarrow>
   case execute (\<lambda>ls. True) [] (s\<lparr>interrupt := True\<rparr>) of (evs, s) \<Rightarrow>
     continuation s \<and> iter_more s \<and> pushed s = []"
  by code_simp

end
