(* ===== verification/TestJobs.thy ===== *)
theory TestJobs
  imports TestConfig PyTrace Runs
begin

text \<open>
  The part of test.py that runs jobs: the command of a job, the worker threads between the input queue and
  the output queue, and the main thread that fills the first and empties the second. The system is a step
  relation over the two queues and the state of every thread; what a process does is an argument of the
  step that ends it. The lines printed with \<^verbatim>\<open>--verbose\<close> are left out.
\<close>

section \<open>Options and jobs\<close>

record options =
  opt_buildpath :: string
  opt_constrain :: string
  opt_duration :: bool
  opt_example :: string
  opt_update_data :: bool
  opt_fullness :: string
  opt_valgrind :: bool
  opt_kinds :: bool
  opt_list :: bool
  opt_multiple :: bool
  opt_nowaf :: bool
  opt_pyexample :: string
  opt_retain :: bool
  opt_suite :: string
  opt_text :: string
  opt_verbose :: bool
  opt_html :: string
  opt_xml :: string

definition default_options :: options where
  "default_options =
     \<lparr>opt_buildpath = [], opt_constrain = [], opt_duration = False, opt_example = [], opt_update_data = False,
      opt_fullness = ''QUICK'', opt_valgrind = False, opt_kinds = False, opt_list = False, opt_multiple = False,
      opt_nowaf = False, opt_pyexample = [], opt_retain = False, opt_suite = [], opt_text = [],
      opt_verbose = False, opt_html = [], opt_xml = []\<rparr>"

text \<open>The initial return code, \<^verbatim>\<open>False\<close>, equals 0.\<close>

record job =
  is_break :: bool
  is_skip :: bool
  skip_reason :: string
  is_example :: bool
  is_pyexample :: bool
  shell_command :: string
  display_name :: string
  basedir :: string
  tempdir :: string
  cwd :: string
  tmp_file_name :: string
  returncode :: int
  elapsed_time :: rat
  build_path :: string

definition new_job :: job where
  "new_job =
     \<lparr>is_break = False, is_skip = False, skip_reason = [], is_example = False, is_pyexample = False,
      shell_command = [], display_name = [], basedir = [], tempdir = [], cwd = [], tmp_file_name = [],
      returncode = 0, elapsed_time = 0, build_path = []\<rparr>"

definition break_job :: job where
  "break_job = new_job\<lparr>is_break := True\<rparr>"

section \<open>run_job_synchronously\<close>

text \<open>
  A finished process: its return code, what it wrote to the two streams (\<open>None\<close> when the bytes are not
  decodable) and the time it took.
\<close>

type_synonym process_result = "int \<times> string option \<times> string option \<times> rat"

text \<open>The command and the working directory of a process, and how it ends: an exception if it cannot be started.\<close>

type_synonym popen = "string \<Rightarrow> string \<Rightarrow> process_result res"

definition path_command :: "waf_config \<Rightarrow> string \<Rightarrow> bool \<Rightarrow> string \<Rightarrow> string res" where
  "path_command cfg command is_python bpath =
     (if is_python
      then rbind (py_nth (cfg_python cfg) 0) (\<lambda>python. Inr (python @ '' '' @ path_join (cfg_basedir cfg) command))
      else if bpath \<noteq> [] then Inr (path_join bpath command)
      else Inr (path_join (cfg_builddir cfg) command))"

definition valgrind_command :: "waf_config \<Rightarrow> string \<Rightarrow> string" where
  "valgrind_command cfg path_cmd =
     ''valgrind --suppressions='' @ path_join (cfg_basedir cfg) ''testpy.supp'' @
     '' --leak-check=full --show-reachable=yes --error-exitcode=2 --errors-for-leak-kinds=all '' @ path_cmd"

definition run_job_synchronously ::
    "waf_config \<Rightarrow> popen \<Rightarrow> string \<Rightarrow> string \<Rightarrow> bool \<Rightarrow> bool \<Rightarrow> string \<Rightarrow> process_result res"
where
  "run_job_synchronously cfg popen command directory valgrind is_python bpath =
     rbind (path_command cfg command is_python bpath) (\<lambda>path_cmd.
     rbind (popen (if valgrind then valgrind_command cfg path_cmd else path_cmd) directory) (\<lambda>(rc, out, err, et).
     let retval = rc;
         retval = (if out = None then 1 else retval);
         retval = (if err = None then 1 else retval)
     in Inr (retval, out, err, et)))"

text \<open>A job is run: \<open>run\<close> of a worker thread between \<^verbatim>\<open>get\<close> and \<^verbatim>\<open>put\<close>.\<close>

definition run_job :: "options \<Rightarrow> waf_config \<Rightarrow> popen \<Rightarrow> job \<Rightarrow> job res" where
  "run_job opts cfg popen job =
     rbind (if is_example job \<or> is_pyexample job
            then run_job_synchronously cfg popen (shell_command job) (cwd job) (opt_valgrind opts)
                   (is_pyexample job) (build_path job)
            else run_job_synchronously cfg popen
                   (shell_command job @ '' --xml --tempdir='' @ tempdir job @ '' --out='' @ tmp_file_name job @
                    '' '' @ (if opt_update_data opts then ''--update-data'' else []))
                   (cwd job) (opt_valgrind opts) False [])
       (\<lambda>(rc, out, err, et). Inr (job\<lparr>returncode := rc, elapsed_time := et\<rparr>))"

section \<open>Threads and queues\<close>

text \<open>
  A worker waits for a job, has taken one, runs one, has returned after a break job, or has died of an
  exception while running a job.
\<close>

datatype worker = Idle | Taken job | Running job | Stopped | Dead job

record runner_state =
  to_put :: "job list"
  input_queue :: "job list"
  output_queue :: "job list"
  workers :: "worker list"
  thread_exit :: bool
  collected :: "job list"
  gets_left :: nat

text \<open>A worker that has taken a job: its next state and what it puts in the output queue.\<close>

definition decide :: "bool \<Rightarrow> job \<Rightarrow> worker \<times> job list" where
  "decide exit job =
     (if is_break job then (Stopped, [])
      else if exit then (Idle, [job\<lparr>is_break := True\<rparr>])
      else if is_skip job then (Idle, [job])
      else (Running job, []))"

definition finish_job :: "options \<Rightarrow> waf_config \<Rightarrow> process_result res \<Rightarrow> job \<Rightarrow> worker \<times> job list" where
  "finish_job opts cfg r job =
     (case run_job opts cfg (\<lambda>_ _. r) job of Inl e \<Rightarrow> (Dead job, []) | Inr job' \<Rightarrow> (Idle, [job']))"

definition emit :: "nat \<Rightarrow> worker \<times> job list \<Rightarrow> runner_state \<Rightarrow> runner_state" where
  "emit i wo s = s\<lparr>workers := (workers s)[i := fst wo], output_queue := output_queue s @ snd wo\<rparr>"

datatype run_event = Put | Take nat | Decide nat | Finish nat "process_result res" | Collect | Interrupt

text \<open>
  The main thread puts the jobs and one break job for each worker, then gets a result for each job;
  \<open>Interrupt\<close> is the handler of \<^verbatim>\<open>SIGINT\<close>.
\<close>

inductive step :: "options \<Rightarrow> waf_config \<Rightarrow> run_event \<Rightarrow> runner_state \<Rightarrow> runner_state \<Rightarrow> bool" for opts cfg where
  put: "to_put s = j # js \<Longrightarrow> step opts cfg Put s (s\<lparr>to_put := js, input_queue := input_queue s @ [j]\<rparr>)"
| take: "i < length (workers s) \<Longrightarrow> workers s ! i = Idle \<Longrightarrow> input_queue s = j # js \<Longrightarrow>
    step opts cfg (Take i) s (s\<lparr>input_queue := js, workers := (workers s)[i := Taken j]\<rparr>)"
| decide: "i < length (workers s) \<Longrightarrow> workers s ! i = Taken j \<Longrightarrow>
    step opts cfg (Decide i) s (emit i (decide (thread_exit s) j) s)"
| finish: "i < length (workers s) \<Longrightarrow> workers s ! i = Running j \<Longrightarrow>
    step opts cfg (Finish i r) s (emit i (finish_job opts cfg r j) s)"
| collect: "to_put s = [] \<Longrightarrow> gets_left s = Suc n \<Longrightarrow> output_queue s = j # js \<Longrightarrow>
    step opts cfg Collect s (s\<lparr>output_queue := js, collected := collected s @ [j], gets_left := n\<rparr>)"
| interrupt: "step opts cfg Interrupt s (s\<lparr>thread_exit := True\<rparr>)"

definition initial_state :: "job list \<Rightarrow> nat \<Rightarrow> runner_state" where
  "initial_state jobs processors =
     \<lparr>to_put = jobs @ replicate processors break_job, input_queue = [], output_queue = [],
      workers = replicate processors Idle, thread_exit = False, collected = [], gets_left = length jobs\<rparr>"

inductive_cases stepE: "step opts cfg ev s s'"
inductive_simps step_simps:
  "step opts cfg Put s s'" "step opts cfg (Take i) s s'" "step opts cfg (Decide i) s s'"
  "step opts cfg (Finish i r) s s'" "step opts cfg Collect s s'" "step opts cfg Interrupt s s'"

section \<open>Where the jobs are\<close>

text \<open>A job as it was dispatched, without what a worker records in it.\<close>

definition erase :: "job \<Rightarrow> job" where
  "erase j = j\<lparr>is_break := False, returncode := 0, elapsed_time := 0\<rparr>"

fun worker_jobs :: "worker \<Rightarrow> job list" where
  "worker_jobs Idle = []"
| "worker_jobs Stopped = []"
| "worker_jobs (Taken j) = [j]"
| "worker_jobs (Running j) = [j]"
| "worker_jobs (Dead j) = [j]"

definition unfinished :: "runner_state \<Rightarrow> job list" where
  "unfinished s = to_put s @ input_queue s @ concat (map worker_jobs (workers s))"

definition finished_jobs :: "runner_state \<Rightarrow> job list" where
  "finished_jobs s = output_queue s @ collected s"

definition stopped :: "runner_state \<Rightarrow> nat" where
  "stopped s = length (filter (\<lambda>w. w = Stopped) (workers s))"

definition run_inv :: "job list \<Rightarrow> nat \<Rightarrow> runner_state \<Rightarrow> bool" where
  "run_inv jobs p s \<longleftrightarrow>
     mset (map erase (filter (\<lambda>j. \<not> is_break j) (unfinished s) @ finished_jobs s)) = mset (map erase jobs) \<and>
     length (filter is_break (unfinished s)) + stopped s = length (workers s) \<and>
     length (workers s) = p \<and>
     gets_left s + length (collected s) = length jobs \<and>
     (\<exists>past. jobs @ replicate p break_job = past @ input_queue s @ to_put s) \<and>
     (\<forall>j. Running j \<in> set (workers s) \<or> Dead j \<in> set (workers s) \<longrightarrow> \<not> is_break j)"

text \<open>The result of a dispatched job: interrupted, skipped, or what running it gave.\<close>

definition result_of :: "options \<Rightarrow> waf_config \<Rightarrow> bool \<Rightarrow> job \<Rightarrow> job \<Rightarrow> bool" where
  "result_of opts cfg exit j0 j \<longleftrightarrow>
     (exit \<and> j = j0\<lparr>is_break := True\<rparr>) \<or> (is_skip j0 \<and> j = j0) \<or>
     (\<not> is_skip j0 \<and> (\<exists>r. run_job opts cfg (\<lambda>_ _. r) j0 = Inr j))"

definition genuine :: "options \<Rightarrow> waf_config \<Rightarrow> job list \<Rightarrow> runner_state \<Rightarrow> bool" where
  "genuine opts cfg jobs s \<longleftrightarrow>
     (\<forall>j\<in>set (unfinished s). is_break j \<or> j \<in> set jobs) \<and>
     (\<forall>j. Running j \<in> set (workers s) \<longrightarrow> j \<in> set jobs \<and> \<not> is_skip j) \<and>
     (\<forall>j\<in>set (finished_jobs s). \<exists>j0\<in>set jobs. result_of opts cfg (thread_exit s) j0 j)"

lemma erase_break [simp]: "erase (j\<lparr>is_break := b\<rparr>) = erase j"
  by (simp add: erase_def)

lemma run_job_erase: "run_job opts cfg popen j = Inr j' \<Longrightarrow> erase j' = erase j \<and> is_break j' = is_break j"
  by (auto simp: run_job_def rbind_eq_Inr_iff erase_def)

lemma worker_split:
  assumes "i < length ws"
  obtains a b where "ws = a @ ws ! i # b" "\<And>w. ws[i := w] = a @ w # b"
  using assms by (metis id_take_nth_drop upd_conv_take_nth_drop)

lemmas state_parts = unfinished_def finished_jobs_def stopped_def emit_def

lemma run_inv_initial: "\<forall>j\<in>set jobs. \<not> is_break j \<Longrightarrow> run_inv jobs p (initial_state jobs p)"
  by (auto simp: run_inv_def initial_state_def state_parts break_job_def filter_empty_conv cong: filter_cong)

lemma genuine_initial: "genuine opts cfg jobs (initial_state jobs p)"
  by (auto simp: genuine_def initial_state_def state_parts break_job_def)

text \<open>A worker goes on to another state and puts jobs in the output queue.\<close>

lemma run_inv_emit:
  assumes "run_inv jobs p s" "i < length (workers s)" "workers s ! i = w"
    and "mset (map erase (filter (\<lambda>j. \<not> is_break j) (worker_jobs w))) =
      mset (map erase (filter (\<lambda>j. \<not> is_break j) (worker_jobs (fst wo)) @ snd wo))"
    and "length (filter is_break (worker_jobs w)) + (if w = Stopped then 1 else 0) =
      length (filter is_break (worker_jobs (fst wo))) + (if fst wo = Stopped then 1 else 0)"
    and "\<forall>j. fst wo = Running j \<or> fst wo = Dead j \<longrightarrow> \<not> is_break j"
  shows "run_inv jobs p (emit i wo s)"
proof -
  obtain a b where ws: "workers s = a @ w # b" "\<And>w'. (workers s)[i := w'] = a @ w' # b"
    using worker_split [OF assms(2)] assms(3) by metis
  note inv = assms(1) [unfolded run_inv_def]
  have "mset (map erase (filter (\<lambda>j. \<not> is_break j) (unfinished (emit i wo s)) @ finished_jobs (emit i wo s))) =
      mset (map erase (filter (\<lambda>j. \<not> is_break j) (unfinished s) @ finished_jobs s))"
    using assms(4) by (simp add: state_parts ws(2)) (simp add: ws(1) ac_simps)
  moreover have "length (filter is_break (unfinished (emit i wo s))) + stopped (emit i wo s) =
      length (filter is_break (unfinished s)) + stopped s"
    using assms(5) by (simp add: state_parts ws(2)) (simp add: ws(1) split: if_splits)
  moreover have "\<forall>j. Running j \<in> set (workers (emit i wo s)) \<or> Dead j \<in> set (workers (emit i wo s)) \<longrightarrow> \<not> is_break j"
    using inv assms(6) set_update_subset_insert [of "workers s" i "fst wo"] by (auto simp: emit_def)
  ultimately show ?thesis using inv by (simp add: run_inv_def emit_def)
qed

lemma run_inv_step: "step opts cfg ev s s' \<Longrightarrow> run_inv jobs p s \<Longrightarrow> run_inv jobs p s'"
proof (induction rule: step.induct)
  case (put s j js)
  then show ?case by (auto simp: run_inv_def state_parts ac_simps)
next
  case (take i s j js)
  obtain a b where ws: "workers s = a @ Idle # b" "\<And>w'. (workers s)[i := w'] = a @ w' # b"
    using worker_split [OF take.hyps(1)] take.hyps(2) by metis
  obtain past where "jobs @ replicate p break_job = past @ input_queue s @ to_put s"
    using take.prems by (auto simp: run_inv_def)
  then have "jobs @ replicate p break_job = (past @ [j]) @ js @ to_put s" using take.hyps(3) by simp
  then have "\<exists>past. jobs @ replicate p break_job = past @ js @ to_put s" by blast
  with take show ?case
    by (cases "is_break j") (simp_all add: run_inv_def state_parts ws(2), simp_all add: ws(1) ac_simps)
next
  case (decide i s j)
  show ?case
    by (rule run_inv_emit [OF decide.prems decide.hyps]) (auto simp: decide_def)
next
  case (finish i s j r)
  then have "\<not> is_break j" by (auto simp: run_inv_def dest: nth_mem)
  then show ?case
    by (intro run_inv_emit [OF finish.prems finish.hyps])
       (auto simp: finish_job_def run_job_erase split: sum.splits)
next
  case (collect s n j js)
  then show ?case by (auto simp: run_inv_def state_parts)
next
  case (interrupt s)
  then show ?case by (simp add: run_inv_def state_parts)
qed

interpretation run: preserved "step opts cfg" "run_inv jobs p" for opts cfg jobs p
  by unfold_locales (rule run_inv_step)

lemma genuine_emit:
  assumes "genuine opts cfg jobs s"
    and "\<forall>j\<in>set (worker_jobs (fst wo)). is_break j \<or> j \<in> set jobs"
    and "\<forall>j. fst wo = Running j \<longrightarrow> j \<in> set jobs \<and> \<not> is_skip j"
    and "\<forall>j\<in>set (snd wo). \<exists>j0\<in>set jobs. result_of opts cfg (thread_exit s) j0 j"
  shows "genuine opts cfg jobs (emit i wo s)"
  unfolding genuine_def
proof (intro conjI)
  note g = assms(1) [unfolded genuine_def]
  note sub = set_update_subset_insert [of "workers s" i "fst wo"]
  show "\<forall>j\<in>set (unfinished (emit i wo s)). is_break j \<or> j \<in> set jobs"
    using g assms(2) sub by (fastforce simp: state_parts)
  show "\<forall>j. Running j \<in> set (workers (emit i wo s)) \<longrightarrow> j \<in> set jobs \<and> \<not> is_skip j"
    using g assms(3) sub by (auto simp: emit_def)
  show "\<forall>j\<in>set (finished_jobs (emit i wo s)). \<exists>j0\<in>set jobs. result_of opts cfg (thread_exit (emit i wo s)) j0 j"
    using g assms(4) by (auto simp: state_parts)
qed

lemma taken_job: "genuine opts cfg jobs s \<Longrightarrow> w \<in> set (workers s) \<Longrightarrow> j \<in> set (worker_jobs w) \<Longrightarrow> is_break j \<or> j \<in> set jobs"
  by (auto simp: genuine_def unfinished_def)

lemma result_of_exit: "result_of opts cfg exit j0 j \<Longrightarrow> result_of opts cfg True j0 j"
  by (auto simp: result_of_def)

lemma genuine_step: "step opts cfg ev s s' \<Longrightarrow> genuine opts cfg jobs s \<Longrightarrow> genuine opts cfg jobs s'"
proof (induction rule: step.induct)
  case (put s j js)
  then show ?case by (simp add: genuine_def state_parts)
next
  case (take i s j js)
  have "genuine opts cfg jobs (emit i (Taken j, []) (s\<lparr>input_queue := js\<rparr>))"
    using take by (intro genuine_emit) (auto simp: genuine_def state_parts)
  then show ?case by (simp add: emit_def)
next
  case (decide i s j)
  then have "is_break j \<or> j \<in> set jobs" using taken_job [OF decide.prems nth_mem] by simp
  then show ?case using decide.prems
    by (intro genuine_emit) (auto simp: decide_def result_of_def)
next
  case (finish i s j r)
  then have "j \<in> set jobs" "\<not> is_skip j" by (auto simp: genuine_def dest: nth_mem)
  then show ?case using finish.prems
    by (intro genuine_emit) (auto simp: finish_job_def result_of_def split: sum.splits)
next
  case (collect s n j js)
  then show ?case by (simp add: genuine_def state_parts)
next
  case (interrupt s)
  then show ?case using result_of_exit by (fastforce simp: genuine_def state_parts)
qed

interpretation results: preserved "step opts cfg" "genuine opts cfg jobs" for opts cfg jobs
  by unfold_locales (rule genuine_step)

section \<open>Progress\<close>

fun worker_weight :: "worker \<Rightarrow> nat" where
  "worker_weight (Taken j) = 3"
| "worker_weight (Running j) = 2"
| "worker_weight _ = 0"

definition run_weight :: "runner_state \<Rightarrow> nat" where
  "run_weight s = 5 * length (to_put s) + 4 * length (input_queue s) + sum_list (map worker_weight (workers s)) +
     length (output_queue s)"

lemma run_weight_emit:
  assumes "i < length (workers s)" "worker_weight (fst wo) + length (snd wo) < worker_weight (workers s ! i)"
  shows "run_weight (emit i wo s) < run_weight s"
proof -
  obtain a b where ws: "workers s = a @ workers s ! i # b" "\<And>w'. (workers s)[i := w'] = a @ w' # b"
    using worker_split [OF assms(1)] by metis
  have "sum_list (map worker_weight (workers s)) =
      sum_list (map worker_weight a) + worker_weight (workers s ! i) + sum_list (map worker_weight b)"
    by (subst ws(1)) simp
  with assms(2) show ?thesis by (simp add: run_weight_def emit_def ws(2))
qed

lemma run_weight_step: "step opts cfg ev s s' \<Longrightarrow> ev \<noteq> Interrupt \<Longrightarrow> run_weight s' < run_weight s"
proof (induction rule: step.induct)
  case (take i s j js)
  obtain a b where "workers s = a @ Idle # b" "\<And>w'. (workers s)[i := w'] = a @ w' # b"
    using worker_split [OF take.hyps(1)] take.hyps(2) by metis
  with take show ?case by (simp add: run_weight_def)
next
  case (decide i s j)
  then show ?case by (intro run_weight_emit) (auto simp: decide_def)
next
  case (finish i s j r)
  then show ?case by (intro run_weight_emit) (auto simp: finish_job_def split: sum.splits)
qed (simp_all add: run_weight_def)

interpretation progress: decreasing "step opts cfg" "\<lambda>ev. ev = Interrupt" run_weight for opts cfg
  by unfold_locales (erule (1) run_weight_step, simp add: step_simps run_weight_def)

section \<open>When nothing moves\<close>

definition stuck :: "options \<Rightarrow> waf_config \<Rightarrow> runner_state \<Rightarrow> bool" where
  "stuck opts cfg s \<longleftrightarrow> (\<forall>ev s'. step opts cfg ev s s' \<longrightarrow> ev = Interrupt)"

lemma stuck_parts:
  assumes "stuck opts cfg s"
  shows "to_put s = []"
    and "w \<in> set (workers s) \<Longrightarrow> w = Stopped \<or> (w = Idle \<and> input_queue s = []) \<or> (\<exists>j. w = Dead j)"
    and "gets_left s = 0 \<or> output_queue s = []"
proof -
  note no = assms [unfolded stuck_def, rule_format]
  show to_put: "to_put s = []"
    using no [OF step.put] by (cases "to_put s") auto
  show "gets_left s = 0 \<or> output_queue s = []"
    using no [OF step.collect, OF to_put] by (cases "gets_left s"; cases "output_queue s") auto
  assume "w \<in> set (workers s)"
  then obtain i where i: "i < length (workers s)" "workers s ! i = w" by (auto simp: in_set_conv_nth)
  show "w = Stopped \<or> (w = Idle \<and> input_queue s = []) \<or> (\<exists>j. w = Dead j)"
  proof (cases w)
    case Idle
    then show ?thesis using no [OF step.take, OF i(1)] i(2) by (cases "input_queue s") auto
  next
    case (Taken j)
    then show ?thesis using no [OF step.decide, OF i(1)] i(2) by auto
  next
    case (Running j)
    then show ?thesis using no [OF step.finish, OF i(1)] i(2) by auto
  qed auto
qed

lemma suffix_no_breaks:
  assumes "jobs @ replicate p b = past @ rest" "is_break b" "\<forall>j\<in>set rest. \<not> is_break j" "0 < p"
  shows "rest = []"
proof (rule ccontr)
  assume "rest \<noteq> []"
  then have "last rest = last (jobs @ replicate p b)" by (simp add: assms(1))
  also have "\<dots> = b" using assms(4) by simp
  finally show False using assms(2,3) \<open>rest \<noteq> []\<close> last_in_set by metis
qed

lemma stuck_finished:
  assumes "run_inv jobs p s" "stuck opts cfg s" "\<forall>j. Dead j \<notin> set (workers s)" "0 < p"
  shows "workers s = replicate p Stopped \<and> unfinished s = [] \<and> output_queue s = []"
proof -
  note inv = assms(1) [unfolded run_inv_def]
  note parts = stuck_parts [OF assms(2)]
  have held: "worker_jobs w = []" if "w \<in> set (workers s)" for w
    using parts(2) [OF that] that assms(3) by auto
  then have unf: "unfinished s = input_queue s"
    using parts(1) by (simp add: unfinished_def)
  have len: "length (workers s) = p" and breaks: "length (filter is_break (unfinished s)) + stopped s = length (workers s)"
    using inv by blast+
  have input: "input_queue s = []"
  proof (rule ccontr)
    assume "input_queue s \<noteq> []"
    then have all: "\<forall>w\<in>set (workers s). w = Stopped" using parts(2) assms(3) by blast
    then have "stopped s = p" using len by (simp add: stopped_def)
    then have "length (filter is_break (input_queue s)) = 0" using breaks len unfolding unf by linarith
    then have "\<forall>j\<in>set (input_queue s). \<not> is_break j" by (simp add: filter_empty_conv)
    moreover obtain past where "jobs @ replicate p break_job = past @ input_queue s"
      using inv unfolding parts(1) append_Nil2 by blast
    moreover have "is_break break_job" by (simp add: break_job_def)
    ultimately show False
      using suffix_no_breaks [OF _ _ _ assms(4)] \<open>input_queue s \<noteq> []\<close> by blast
  qed
  then have "stopped s = length (workers s)" using breaks unf by simp
  then have "\<forall>w\<in>set (workers s). w = Stopped"
    unfolding stopped_def using length_filter_less [of _ "workers s" "\<lambda>w. w = Stopped"] by fastforce
  then have stop: "workers s = replicate p Stopped" using len by (simp add: list_eq_iff_nth_eq)
  have "mset (map erase (filter (\<lambda>j. \<not> is_break j) (unfinished s) @ finished_jobs s)) = mset (map erase jobs)"
    using inv by blast
  then have "mset (map erase (finished_jobs s)) = mset (map erase jobs)" unfolding unf input by simp
  then have "length (output_queue s) + length (collected s) = length jobs"
    by (metis finished_jobs_def length_append length_map mset_eq_length)
  moreover have "gets_left s + length (collected s) = length jobs" using inv by blast
  ultimately have "length (output_queue s) = gets_left s" by linarith
  then have "output_queue s = []" using parts(3) by auto
  with stop unf input show ?thesis by simp
qed

lemma finish_job_raises: "finish_job opts cfg (Inl e) j = (Dead j, [])"
proof -
  have "\<exists>e'. run_job_synchronously cfg (\<lambda>_ _. Inl e) c d v py b = Inl e'" for c d v py b
    by (cases "path_command cfg c py b") (simp_all add: run_job_synchronously_def)
  note raises = this
  have "\<exists>e'. run_job opts cfg (\<lambda>_ _. Inl e) j = Inl e'"
  proof (cases "is_example j \<or> is_pyexample j")
    case True
    then show ?thesis
      using raises [of "shell_command j" "cwd j" "opt_valgrind opts" "is_pyexample j" "build_path j"]
      unfolding run_job_def by auto
  next
    case False
    define c where "c = shell_command j @ '' --xml --tempdir='' @ tempdir j @ '' --out='' @ tmp_file_name j @
                    '' '' @ (if opt_update_data opts then ''--update-data'' else [])"
    from False show ?thesis
      using raises [of c "cwd j" "opt_valgrind opts" False "[]"] unfolding run_job_def c_def [symmetric] by auto
  qed
  then show ?thesis by (auto simp: finish_job_def)
qed

section \<open>One processor\<close>

definition in_order :: "job list \<Rightarrow> runner_state \<Rightarrow> bool" where
  "in_order jobs s \<longleftrightarrow>
     length (workers s) = 1 \<and>
     map erase (collected s @ output_queue s @ filter (\<lambda>j. \<not> is_break j)
       (concat (map worker_jobs (workers s)) @ input_queue s @ to_put s)) = map erase jobs \<and>
     (\<forall>j. workers s = [Running j] \<longrightarrow> \<not> is_break j)"

lemma in_order_initial: "\<forall>j\<in>set jobs. \<not> is_break j \<Longrightarrow> in_order jobs (initial_state jobs 1)"
  by (simp add: in_order_def initial_state_def break_job_def)

lemma in_order_emit:
  assumes "in_order jobs s" "i < length (workers s)" "workers s ! i = w"
    and "map erase (filter (\<lambda>j. \<not> is_break j) (worker_jobs w)) =
      map erase (snd wo @ filter (\<lambda>j. \<not> is_break j) (worker_jobs (fst wo)))"
    and "\<forall>j. fst wo = Running j \<longrightarrow> \<not> is_break j"
  shows "in_order jobs (emit i wo s)"
proof -
  have "workers s = [w]" "i = 0" using assms(1-3) by (auto simp: in_order_def length_Suc_conv)
  then show ?thesis
    using assms(1,4,5) unfolding in_order_def emit_def by simp
qed

lemma in_order_step: "step opts cfg ev s s' \<Longrightarrow> in_order jobs s \<Longrightarrow> in_order jobs s'"
proof (induction rule: step.induct)
  case (decide i s j)
  show ?case by (rule in_order_emit [OF decide.prems decide.hyps]) (auto simp: decide_def)
next
  case (finish i s j r)
  then have "\<not> is_break j" by (auto simp: in_order_def length_Suc_conv)
  then show ?case
    by (intro in_order_emit [OF finish.prems finish.hyps])
       (auto simp: finish_job_def run_job_erase split: sum.splits)
qed (auto simp: in_order_def length_Suc_conv)

interpretation ordered: preserved "step opts cfg" "in_order jobs" for opts cfg jobs
  by unfold_locales (rule in_order_step)

section \<open>Properties\<close>

text \<open>C5. However the threads are scheduled and whenever the user interrupts, no job is reported twice and none
  that was not dispatched; and what is reported of a job is that it was interrupted, that it was to be
  skipped, or what running exactly that job gave.\<close>

theorem jobs_reported_once:
  assumes "\<forall>j\<in>set jobs. \<not> is_break j" and "runs (step opts cfg) evs (initial_state jobs p) s"
  shows "mset (map erase (collected s)) \<subseteq># mset (map erase jobs) \<and>
    (\<forall>j\<in>set (collected s). \<exists>j0\<in>set jobs. result_of opts cfg (thread_exit s) j0 j)"
proof -
  have "run_inv jobs p s" by (rule run.runs_inv [OF assms(2) run_inv_initial [OF assms(1)]])
  then have "mset (map erase jobs) = mset (map erase (filter (\<lambda>j. \<not> is_break j) (unfinished s) @ finished_jobs s))"
    unfolding run_inv_def by simp
  then have once: "mset (map erase (collected s)) \<subseteq># mset (map erase jobs)"
    by (simp add: finished_jobs_def)
  have "genuine opts cfg jobs s" by (rule results.runs_inv [OF assms(2) genuine_initial])
  with once show ?thesis by (simp add: genuine_def finished_jobs_def)
qed

text \<open>C24. The threads cannot run forever: a run of \<open>n\<close> jobs on \<open>p\<close> processors has at most \<open>5 (n + p)\<close> steps
  besides interrupts, and every run can be continued to a state where nothing can move.\<close>

theorem test_run_terminates:
  assumes "runs (step opts cfg) evs (initial_state jobs p) s"
  shows "length (filter (\<lambda>ev. ev \<noteq> Interrupt) evs) \<le> 5 * (length jobs + p) \<and>
    (\<exists>evs' s'. runs (step opts cfg) evs' s s' \<and> stuck opts cfg s')"
proof -
  have "sum_list (map worker_weight (replicate p Idle)) = 0" by (induction p) auto
  then have "run_weight (initial_state jobs p) = 5 * (length jobs + p)"
    by (simp add: run_weight_def initial_state_def)
  then have "length (filter (\<lambda>ev. ev \<noteq> Interrupt) evs) \<le> 5 * (length jobs + p)"
    using progress.runs_bound [OF assms] by simp
  moreover have "\<exists>evs' s'. runs (step opts cfg) evs' s s' \<and> stuck opts cfg s'"
    unfolding stuck_def by (rule progress.runs_stuck)
  ultimately show ?thesis ..
qed

text \<open>C3. No deadlock: when nothing can move any more, unless a thread died of an exception, the main thread has
  got the result of every dispatched job, every worker has returned, and both queues are empty.\<close>

theorem all_jobs_reported:
  assumes "\<forall>j\<in>set jobs. \<not> is_break j" "0 < p" and "runs (step opts cfg) evs (initial_state jobs p) s"
    and "stuck opts cfg s" "\<forall>j. Dead j \<notin> set (workers s)"
  shows "mset (map erase (collected s)) = mset (map erase jobs) \<and> gets_left s = 0 \<and>
    workers s = replicate p Stopped \<and> input_queue s = [] \<and> output_queue s = []"
proof -
  have inv: "run_inv jobs p s" by (rule run.runs_inv [OF assms(3) run_inv_initial [OF assms(1)]])
  note fin = stuck_finished [OF inv assms(4,5,2)]
  have coll: "mset (map erase (collected s)) = mset (map erase jobs)"
    using inv fin unfolding run_inv_def finished_jobs_def by simp
  have "gets_left s = 0"
    using inv mset_eq_length [OF coll] unfolding run_inv_def by simp
  with coll fin show ?thesis by (simp add: unfinished_def)
qed

text \<open>On one processor the results arrive in the order in which the jobs were dispatched.\<close>

theorem single_processor_order:
  assumes "\<forall>j\<in>set jobs. \<not> is_break j" and "runs (step opts cfg) evs (initial_state jobs 1) s"
  shows "\<exists>rest. map erase jobs = map erase (collected s) @ rest"
  using ordered.runs_inv [OF assms(2) in_order_initial [OF assms(1)]] unfolding in_order_def
  by (metis map_append)

text \<open>When a process cannot be started the exception ends the worker: with a single worker nothing moves any
  more, while the main thread still waits for the result of the job.\<close>

theorem failed_start_hangs:
  assumes "\<not> is_break j" "\<not> is_skip j"
  shows "\<exists>evs s. runs (step opts cfg) evs (initial_state [j] 1) s \<and> stuck opts cfg s \<and>
    workers s = [Dead j] \<and> gets_left s = 1 \<and> collected s = []"
proof -
  let ?s = "\<lparr>to_put = [], input_queue = [break_job], output_queue = [], workers = [Dead j], thread_exit = False,
    collected = [], gets_left = 1\<rparr>"
  have "finish_job opts cfg (Inl OSError) j = (Dead j, [])" by (rule finish_job_raises)
  then have "runs (step opts cfg) [Put, Take 0, Decide 0, Finish 0 (Inl OSError), Put] (initial_state [j] 1) ?s"
    using assms
    by - (rule runs_Cons, simp add: step_simps initial_state_def emit_def decide_def,
          rule runs_Cons, simp add: step_simps initial_state_def emit_def decide_def,
          rule runs_Cons, simp add: step_simps initial_state_def emit_def decide_def,
          rule runs_Cons, simp add: step_simps initial_state_def emit_def decide_def,
          rule runs_Cons, simp add: step_simps initial_state_def emit_def decide_def, simp add: run_none)
  moreover have "stuck opts cfg ?s" unfolding stuck_def by (auto elim!: stepE)
  ultimately show ?thesis by (intro exI [of _ ?s] exI) auto
qed

section \<open>Concrete instances\<close>

definition sample_config :: waf_config where
  "sample_config = \<lparr>cfg_basedir = ''/ns3'', cfg_builddir = ''/ns3/build'', cfg_appname = ''ns'', cfg_version = ''3.29'',
     cfg_build_profile = ''debug'', cfg_python = [''/usr/bin/python3''], cfg_nsc_enabled = False,
     cfg_enable_examples = True, cfg_enable_tests = True, cfg_valgrind_found = False,
     cfg_enable_python_bindings = True\<rparr>"

definition sample_job :: job where
  "sample_job = new_job\<lparr>display_name := ''csma''\<rparr>"

text \<open>One job on one processor.\<close>

definition single_events :: "process_result res \<Rightarrow> run_event list" where
  "single_events r = [Put, Take 0, Decide 0, Put, Finish 0 r, Take 0, Decide 0, Collect]"

definition single_final :: "job \<Rightarrow> runner_state" where
  "single_final j =
     \<lparr>to_put = [], input_queue = [], output_queue = [], workers = [Stopped], thread_exit = False,
      collected = [j], gets_left = 0\<rparr>"

lemma single_run:
  assumes "\<not> is_break j" "\<not> is_skip j" "run_job opts cfg (\<lambda>_ _. r) j = Inr j'"
  shows "runs (step opts cfg) (single_events r) (initial_state [j] 1) (single_final j')"
  unfolding single_events_def using assms
  by - ((rule runs_Cons, simp add: step_simps initial_state_def emit_def decide_def finish_job_def break_job_def)+,
        simp add: single_final_def run_none)

lemma single_stuck: "stuck opts cfg (single_final j)"
  unfolding stuck_def by (auto simp: single_final_def elim!: stepE)

definition sample_result :: job where
  "sample_result = sample_job\<lparr>returncode := 1, elapsed_time := 2\<rparr>"

lemma sample_run:
  "runs (step default_options sample_config) (single_events (Inr (1, Some [], Some [], 2))) (initial_state [sample_job] 1)
     (single_final sample_result)"
  by (rule single_run) (simp_all add: sample_result_def sample_job_def new_job_def run_job_def run_job_synchronously_def
      path_command_def default_options_def sample_config_def)

theorem jobs_reported_once_witness: "mset (map erase (collected (single_final sample_result))) \<subseteq># mset (map erase [sample_job])"
  by (rule conjunct1, rule jobs_reported_once [OF _ sample_run]) (simp add: sample_job_def new_job_def)

theorem test_run_terminates_witness: "length (filter (\<lambda>ev. ev \<noteq> Interrupt) (single_events (Inr (1, Some [], Some [], 2)))) \<le> 10"
  using test_run_terminates [OF sample_run] by simp

theorem all_jobs_reported_witness: "mset (map erase (collected (single_final sample_result))) = mset (map erase [sample_job])"
  by (rule conjunct1, rule all_jobs_reported [OF _ _ sample_run single_stuck])
     (simp_all add: sample_job_def new_job_def single_final_def)

theorem single_processor_order_witness: "\<exists>rest. map erase [sample_job] = map erase (collected (single_final sample_result)) @ rest"
  by (rule single_processor_order [OF _ sample_run]) (simp add: sample_job_def new_job_def)

theorem failed_start_hangs_witness:
  "\<exists>evs s. runs (step default_options sample_config) evs (initial_state [sample_job] 1) s \<and>
     stuck default_options sample_config s \<and> workers s = [Dead sample_job] \<and> gets_left s = 1 \<and> collected s = []"
  by (rule failed_start_hangs) (simp_all add: sample_job_def new_job_def)

end
