(* ===== verification/TestReport.thy ===== *)
theory TestReport
  imports PyTrace PyString
begin

text \<open>
  The reports of test.py: the XML file of results, parsed by \<^verbatim>\<open>xml.etree.ElementTree\<close> (a parameter), is
  translated to a text file or to an HTML file. What a translation prints and writes is its trace.
\<close>

section \<open>Element trees\<close>

datatype xml = Elem (tag: string) (attributes: "(string, string) dict") (text_of: "string option") (children: "xml list")

definition findall :: "xml \<Rightarrow> string \<Rightarrow> xml list" where
  "findall e t = filter (\<lambda>c. tag c = t) (children e)"

definition find_child :: "xml \<Rightarrow> string \<Rightarrow> xml option" where
  "find_child e t = (case findall e t of [] \<Rightarrow> None | c # _ \<Rightarrow> Some c)"

text \<open>\<^verbatim>\<open>e.find(t).text\<close>\<close>

definition find_text :: "xml \<Rightarrow> string \<Rightarrow> string option res" where
  "find_text e t = (case find_child e t of None \<Rightarrow> Inl AttributeError | Some c \<Rightarrow> Inr (text_of c))"

text \<open>\<^verbatim>\<open>"%s" % v\<close> of a string or \<^verbatim>\<open>None\<close>.\<close>

definition pct_s :: "string option \<Rightarrow> string" where
  "pct_s v = (case v of None \<Rightarrow> ''None'' | Some s \<Rightarrow> s)"

definition truthy :: "string option \<Rightarrow> bool" where
  "truthy v \<longleftrightarrow> v \<noteq> None \<and> v \<noteq> Some []"

definition time_of :: "xml \<Rightarrow> string option" where
  "time_of e = (case find_child e ''Time'' of None \<Rightarrow> Some [] | Some t \<Rightarrow> map_of (attributes t) ''real'')"

definition read_test :: "xml \<Rightarrow> (string option \<times> string option \<times> string option \<times> string option) res" where
  "read_test test =
     rbind (find_text test ''Result'') (\<lambda>result.
     rbind (find_text test ''Name'') (\<lambda>name.
     let reason = (case find_child test ''Reason'' of None \<Rightarrow> Some [] | Some c \<Rightarrow> text_of c) in
     Inr (result, name, reason, time_of test)))"

section \<open>Text\<close>

datatype report_event = Print string | OpenOut string | Write string | CloseOut

definition f_write :: "string \<Rightarrow> (report_event, unit) io" where
  "f_write s = tell (Write s)"

definition io_lift :: "'a res \<Rightarrow> ('ev, 'a) io" where
  "io_lift r = ([], r)"

primrec io_each :: "('a \<Rightarrow> ('ev, unit) io) \<Rightarrow> 'a list \<Rightarrow> ('ev, unit) io" where
  "io_each f [] = io_return ()"
| "io_each f (x # xs) = io_bind (f x) (\<lambda>_. io_each f xs)"

lemma io_each_cong [fundef_cong]: "xs = ys \<Longrightarrow> (\<And>x. x \<in> set ys \<Longrightarrow> f x = g x) \<Longrightarrow> io_each f xs = io_each g ys"
  by (induction xs arbitrary: ys) auto

definition newline :: char where
  "newline = CHR 0x0A"

definition quote :: char where
  "quote = CHR 0x22"

definition write_field :: "string \<Rightarrow> xml \<Rightarrow> string \<Rightarrow> string \<Rightarrow> (report_event, unit) io" where
  "write_field before details field after =
     io_bind (io_lift (find_text details field)) (\<lambda>v. f_write (before @ pct_s v @ after))"

definition details_to_text :: "xml \<Rightarrow> (report_event, unit) io" where
  "details_to_text details =
     io_bind (f_write (''    Details:'' @ [newline])) (\<lambda>_.
     io_bind (write_field ''      Message:   '' details ''Message'' [newline]) (\<lambda>_.
     io_bind (write_field ''      Condition: '' details ''Condition'' [newline]) (\<lambda>_.
     io_bind (write_field ''      Actual:    '' details ''Actual'' [newline]) (\<lambda>_.
     io_bind (write_field ''      Limit:     '' details ''Limit'' [newline]) (\<lambda>_.
     io_bind (write_field ''      File:      '' details ''File'' [newline]) (\<lambda>_.
     write_field ''      Line:      '' details ''Line'' [newline]))))))"

definition test_header :: "string option \<times> string option \<times> string option \<times> string option \<Rightarrow> string" where
  "test_header t =
     (case t of (result, name, reason, time_real) \<Rightarrow>
      pct_s result @ '': Test Suite '' @ [quote] @ pct_s name @ [quote] @ '' ('' @ pct_s time_real @ '')'' @
      (if truthy reason then '' ('' @ pct_s reason @ '')'' else pct_s reason) @ [newline])"

function node_to_text :: "xml \<Rightarrow> (report_event, unit) io" where
  "node_to_text test =
     io_bind (io_lift (read_test test)) (\<lambda>t.
     io_bind (f_write (test_header t)) (\<lambda>_.
     io_bind (io_each details_to_text (findall test ''FailureDetails'')) (\<lambda>_.
     io_each node_to_text (findall test ''Test''))))"
  by pat_completeness auto

lemma findall_size: "c \<in> set (findall e t) \<Longrightarrow> size c < size e"
  by (cases e) (auto simp: findall_def less_Suc_eq_le dest!: size_list_estimation' [where f = size, OF _ order_refl])

termination node_to_text
  by (relation "measure size") (auto simp: findall_size)

definition example_to_text :: "xml \<Rightarrow> (report_event, unit) io" where
  "example_to_text example =
     io_bind (io_lift (find_text example ''Result'')) (\<lambda>result.
     io_bind (io_lift (find_text example ''Name'')) (\<lambda>name.
     f_write (pct_s result @ '': Example '' @ [quote] @ pct_s name @ [quote] @ '' ('' @ pct_s (time_of example) @ '')'' @ [newline])))"

text \<open>The report file is opened before the results are parsed.\<close>

definition translate_to_text :: "(string \<Rightarrow> xml res) \<Rightarrow> string \<Rightarrow> string \<Rightarrow> (report_event, unit) io" where
  "translate_to_text parse results_file text_file =
     (let text_file = text_file @ ''.txt'' in
      io_bind (tell (Print (''Writing results to text file '' @ [quote] @ text_file @ [quote] @ ''...''))) (\<lambda>_.
      io_bind (tell (OpenOut text_file)) (\<lambda>_.
      io_bind (io_lift (parse results_file)) (\<lambda>et.
      io_bind (io_each node_to_text (findall et ''Test'')) (\<lambda>_.
      io_bind (io_each example_to_text (findall et ''Example'')) (\<lambda>_.
      io_bind (tell CloseOut) (\<lambda>_.
      tell (Print (''done.'' @ [newline])))))))))"

section \<open>HTML\<close>

text \<open>A line of HTML, and an element with its text, with a style or without.\<close>

definition html_line :: "string \<Rightarrow> (report_event, unit) io" where
  "html_line s = f_write (s @ [newline])"

definition styled :: "string \<Rightarrow> string \<Rightarrow> string \<Rightarrow> string" where
  "styled elem color body = ''<'' @ elem @ '' style='' @ [quote] @ ''color:'' @ color @ [quote] @ ''>'' @ body"

definition table_open :: "(report_event, unit) io" where
  "table_open = html_line (''<table border='' @ [quote] @ ''1'' @ [quote] @ ''>'')"

definition td :: "string option \<Rightarrow> string" where
  "td v = ''<td>'' @ pct_s v @ ''</td>''"

definition suite_header :: "string option \<times> string option \<times> string option \<times> string option \<Rightarrow> (report_event, unit) io" where
  "suite_header t =
     (case t of (result, name, reason, time) \<Rightarrow>
      let line = pct_s result @ '': '' @ pct_s name @ '' ('' @ pct_s time @ '')'' in
      if result = Some ''PASS'' then html_line (styled ''h3'' ''green'' (line @ ''</h3>''))
      else if result = Some ''SKIP'' then html_line (styled ''h3'' ''#ff6600'' (line @ '' ('' @ pct_s reason @ '')</h3>''))
      else html_line (styled ''h3'' ''red'' (line @ ''</h3>'')))"

definition detail_row ::
    "string option \<Rightarrow> string option \<Rightarrow> string option \<Rightarrow> bool \<Rightarrow> xml \<Rightarrow> (report_event, unit) io"
where
  "detail_row result name time first_row details =
     io_bind (html_line ''<tr>'') (\<lambda>_.
     io_bind (if first_row
              then io_bind (html_line (styled ''td'' ''red'' (pct_s result @ ''</td>''))) (\<lambda>_.
                   io_bind (html_line (td name)) (\<lambda>_. html_line (td time)))
              else io_bind (html_line ''<td></td>'') (\<lambda>_. io_bind (html_line ''<td></td>'') (\<lambda>_. html_line ''<td></td>''))) (\<lambda>_.
     io_bind (f_write ''<td>'') (\<lambda>_.
     io_bind (write_field ''<b>Message: </b>'' details ''Message'' '', '') (\<lambda>_.
     io_bind (write_field ''<b>Condition: </b>'' details ''Condition'' '', '') (\<lambda>_.
     io_bind (write_field ''<b>Actual: </b>'' details ''Actual'' '', '') (\<lambda>_.
     io_bind (write_field ''<b>Limit: </b>'' details ''Limit'' '', '') (\<lambda>_.
     io_bind (write_field ''<b>File: </b>'' details ''File'' '', '') (\<lambda>_.
     io_bind (write_field ''<b>Line: </b>'' details ''Line'' []) (\<lambda>_.
     io_bind (html_line ''</td>'') (\<lambda>_.
     html_line ''</td>''))))))))))"

fun detail_rows ::
    "string option \<Rightarrow> string option \<Rightarrow> string option \<Rightarrow> bool \<Rightarrow> xml list \<Rightarrow> (report_event, unit) io"
where
  "detail_rows result name time first_row [] = io_return ()"
| "detail_rows result name time first_row (d # ds) =
     io_bind (detail_row result name time first_row d) (\<lambda>_. detail_rows result name time False ds)"

definition case_to_html :: "xml \<Rightarrow> (report_event, unit) io" where
  "case_to_html test =
     io_bind (io_lift (read_test test)) (\<lambda>(result, name, reason, time).
     if result = Some ''FAIL'' then detail_rows result name time True (findall test ''FailureDetails'')
     else
       io_bind (html_line ''<tr>'') (\<lambda>_.
       io_bind (html_line (styled ''td'' ''green'' (pct_s result @ ''</td>''))) (\<lambda>_.
       io_bind (html_line (td name)) (\<lambda>_.
       io_bind (html_line (td time)) (\<lambda>_.
       io_bind (html_line (td reason)) (\<lambda>_.
       html_line ''</tr>''))))))"

definition suite_to_html :: "xml \<Rightarrow> (report_event, unit) io" where
  "suite_to_html suite =
     io_bind (io_lift (read_test suite)) (\<lambda>t.
     case t of (result, name, reason, time) \<Rightarrow>
     io_bind (suite_header t) (\<lambda>_.
     io_bind table_open (\<lambda>_.
     io_bind (html_line ''<th> Result </th>'') (\<lambda>_.
     if result \<in> Some ` {''CRASH'', ''SKIP'', ''VALGR''}
     then io_bind (html_line ''<tr>'') (\<lambda>_.
          io_bind (html_line (styled ''td'' (if result = Some ''SKIP'' then ''#ff6600'' else ''red'') (pct_s result @ ''</td>''))) (\<lambda>_.
          io_bind (html_line ''</tr>'') (\<lambda>_.
          html_line ''</table>'')))
     else io_bind (html_line ''<th>Test Case Name</th>'') (\<lambda>_.
          io_bind (html_line ''<th> Time </th>'') (\<lambda>_.
          io_bind (if result = Some ''FAIL'' then html_line ''<th>Failure Details</th>'' else io_return ()) (\<lambda>_.
          io_bind (io_each case_to_html (findall suite ''Test'')) (\<lambda>_.
          html_line ''</table>''))))))))"

definition example_to_html :: "xml \<Rightarrow> (report_event, unit) io" where
  "example_to_html example =
     io_bind (html_line ''<tr>'') (\<lambda>_.
     io_bind (io_lift (read_test example)) (\<lambda>(result, name, reason, time).
     io_bind (if result = Some ''PASS'' then html_line (styled ''td'' ''green'' (pct_s result @ ''</td>''))
              else if result = Some ''SKIP'' then html_line (styled ''td'' ''#ff6600'' (pct_s result @ ''</fd>''))
              else html_line (styled ''td'' ''red'' (pct_s result @ ''</td>''))) (\<lambda>_.
     io_bind (html_line (td name)) (\<lambda>_.
     io_bind (html_line (td time)) (\<lambda>_.
     io_bind (html_line (td reason)) (\<lambda>_.
     html_line ''</tr>''))))))"

definition translate_to_html :: "(string \<Rightarrow> xml res) \<Rightarrow> string \<Rightarrow> string \<Rightarrow> (report_event, unit) io" where
  "translate_to_html parse results_file html_file =
     (let html_file = html_file @ ''.html'' in
      io_bind (tell (Print (''Writing results to html file '' @ html_file @ ''...''))) (\<lambda>_.
      io_bind (tell (OpenOut html_file)) (\<lambda>_.
      io_bind (io_each html_line [''<html>'', ''<body>'', ''<center><h1>ns-3 Test Results</h1></center>'']) (\<lambda>_.
      io_bind (io_lift (parse results_file)) (\<lambda>et.
      io_bind (html_line ''<h2>Test Suites</h2>'') (\<lambda>_.
      io_bind (io_each suite_to_html (findall et ''Test'')) (\<lambda>_.
      io_bind (html_line ''<h2>Examples</h2>'') (\<lambda>_.
      io_bind table_open (\<lambda>_.
      io_bind (io_each html_line [''<th> Result </th>'', ''<th>Example Name</th>'', ''<th>Elapsed Time</th>'', ''<th>Details</th>'']) (\<lambda>_.
      io_bind (io_each example_to_html (findall et ''Example'')) (\<lambda>_.
      io_bind (io_each html_line [''</table>'', ''</body>'', ''</html>'']) (\<lambda>_.
      io_bind (tell CloseOut) (\<lambda>_.
      tell (Print (''done.'' @ [newline])))))))))))))))"

section \<open>The text report\<close>

text \<open>The tests of a tree, each before its children.\<close>

function preorder :: "xml \<Rightarrow> xml list" where
  "preorder e = e # concat (map preorder (findall e ''Test''))"
  by pat_completeness auto

termination preorder
  by (relation "measure size") (auto simp: findall_size)

declare preorder.simps [simp del] node_to_text.simps [simp del]

definition has_fields :: "string list \<Rightarrow> xml \<Rightarrow> bool" where
  "has_fields fields e \<longleftrightarrow> (\<forall>f\<in>set fields. find_child e f \<noteq> None)"

definition field :: "xml \<Rightarrow> string \<Rightarrow> string option" where
  "field e t = (case find_child e t of None \<Rightarrow> Some [] | Some c \<Rightarrow> text_of c)"

definition detail_fields :: "string list" where
  "detail_fields = [''Message'', ''Condition'', ''Actual'', ''Limit'', ''File'', ''Line'']"

definition readable :: "xml \<Rightarrow> bool" where
  "readable t \<longleftrightarrow> has_fields [''Result'', ''Name''] t \<and>
     (\<forall>d\<in>set (findall t ''FailureDetails''). has_fields detail_fields d)"

definition detail_lines :: "xml \<Rightarrow> string list" where
  "detail_lines d =
     map (\<lambda>s. s @ [newline])
       [''    Details:'',
        ''      Message:   '' @ pct_s (field d ''Message''),
        ''      Condition: '' @ pct_s (field d ''Condition''),
        ''      Actual:    '' @ pct_s (field d ''Actual''),
        ''      Limit:     '' @ pct_s (field d ''Limit''),
        ''      File:      '' @ pct_s (field d ''File''),
        ''      Line:      '' @ pct_s (field d ''Line'')]"

definition test_lines :: "xml \<Rightarrow> string list" where
  "test_lines t =
     test_header (field t ''Result'', field t ''Name'', field t ''Reason'', time_of t) #
     concat (map detail_lines (findall t ''FailureDetails''))"

definition example_line :: "xml \<Rightarrow> string" where
  "example_line e =
     pct_s (field e ''Result'') @ '': Example '' @ [quote] @ pct_s (field e ''Name'') @ [quote] @
     '' ('' @ pct_s (time_of e) @ '')'' @ [newline]"

lemma find_text_field: "find_child e t \<noteq> None \<Longrightarrow> find_text e t = Inr (field e t)"
  by (auto simp: find_text_def field_def)

lemma read_test_fields:
  "has_fields [''Result'', ''Name''] t \<Longrightarrow>
     read_test t = Inr (field t ''Result'', field t ''Name'', field t ''Reason'', time_of t)"
  by (simp add: read_test_def find_text_field has_fields_def field_def [of t "''Reason''"])

lemma write_simps [simp]:
  "f_write s = ([Write s], Inr ())" "io_lift (Inr x) = ([], Inr x)" "io_return x = ([], Inr x)"
  by (simp_all add: f_write_def tell_def io_lift_def io_return_def)

lemma io_each_writes:
  "(\<And>x. x \<in> set xs \<Longrightarrow> f x = (map Write (g x), Inr ())) \<Longrightarrow> io_each f xs = (map Write (concat (map g xs)), Inr ())"
  by (induction xs) auto

lemma details_to_text_lines: "has_fields detail_fields d \<Longrightarrow> details_to_text d = (map Write (detail_lines d), Inr ())"
  by (simp add: details_to_text_def write_field_def find_text_field has_fields_def detail_fields_def detail_lines_def)

lemma concat_map_concat: "concat (map f (concat xss)) = concat (map (\<lambda>xs. concat (map f xs)) xss)"
  by (induction xss) auto

lemma node_to_text_lines:
  "\<forall>u\<in>set (preorder t). readable u \<Longrightarrow>
     node_to_text t = (map Write (concat (map test_lines (preorder t))), Inr ())"
proof (induction "size t" arbitrary: t rule: less_induct)
  case less
  have sub: "set (preorder c) \<subseteq> set (preorder t)" if "c \<in> set (findall t ''Test'')" for c
    using that by (auto simp: preorder.simps [of t])
  have t: "readable t" using less.prems by (simp add: preorder.simps [of t])
  have "io_each details_to_text (findall t ''FailureDetails'') =
      (map Write (concat (map detail_lines (findall t ''FailureDetails''))), Inr ())"
    using t by (intro io_each_writes details_to_text_lines) (simp add: readable_def)
  moreover have "node_to_text c = (map Write (concat (map test_lines (preorder c))), Inr ())"
    if "c \<in> set (findall t ''Test'')" for c
    using less.hyps [OF findall_size [OF that]] sub [OF that] less.prems by blast
  then have "io_each node_to_text (findall t ''Test'') =
      (map Write (concat (map (\<lambda>c. concat (map test_lines (preorder c))) (findall t ''Test''))), Inr ())"
    by (rule io_each_writes)
  moreover have "concat (map test_lines (preorder t)) =
      test_lines t @ concat (map (\<lambda>c. concat (map test_lines (preorder c))) (findall t ''Test''))"
    by (simp add: preorder.simps [of t] concat_map_concat o_def)
  ultimately show ?case
    using t by (simp add: node_to_text.simps [of t] readable_def read_test_fields test_lines_def)
qed

section \<open>HTML rows\<close>

definition writes_of :: "string \<Rightarrow> (report_event, unit) io \<Rightarrow> nat" where
  "writes_of line io = length (filter (\<lambda>ev. ev = Write (line @ [newline])) (fst io))"

lemma html_line_simp [simp]: "html_line s = ([Write (s @ [newline])], Inr ())"
  by (simp add: html_line_def)

lemma detail_row_rows:
  assumes "has_fields detail_fields d"
  shows "\<exists>tr. detail_row result name time first_row d = (tr, Inr ()) \<and>
    writes_of ''<tr>'' (tr, Inr ()) = 1 \<and> writes_of ''</tr>'' (tr, Inr ()) = 0"
  using assms
  by (auto simp: detail_row_def write_field_def find_text_field has_fields_def detail_fields_def writes_of_def
        styled_def td_def newline_def)

lemma detail_rows_rows:
  "\<forall>d\<in>set ds. has_fields detail_fields d \<Longrightarrow>
   \<exists>tr. detail_rows result name time first_row ds = (tr, Inr ()) \<and>
     writes_of ''<tr>'' (tr, Inr ()) = length ds \<and> writes_of ''</tr>'' (tr, Inr ()) = 0"
proof (induction ds arbitrary: first_row)
  case (Cons d ds)
  obtain tr where tr: "detail_row result name time first_row d = (tr, Inr ())"
    "writes_of ''<tr>'' (tr, Inr ()) = 1" "writes_of ''</tr>'' (tr, Inr ()) = 0"
    using detail_row_rows Cons.prems by force
  obtain tr' where tr': "detail_rows result name time False ds = (tr', Inr ())"
    "writes_of ''<tr>'' (tr', Inr ()) = length ds" "writes_of ''</tr>'' (tr', Inr ()) = 0"
    using Cons.IH [of False] Cons.prems by force
  from tr tr' show ?case by (simp add: writes_of_def)
qed (simp add: writes_of_def)

section \<open>Properties\<close>

text \<open>C36. The text report holds the header and the failure details of every test of the results, suites and nested
  test cases in depth-first order, and then a line for every example, when every result has the elements
  that are read.\<close>

theorem translate_to_text_correct:
  assumes "parse results_file = Inr et"
    and "\<forall>t\<in>set (findall et ''Test''). \<forall>u\<in>set (preorder t). readable u"
    and "\<forall>e\<in>set (findall et ''Example''). has_fields [''Result'', ''Name''] e"
  shows "translate_to_text parse results_file text_file =
    ([Print (''Writing results to text file '' @ [quote] @ text_file @ ''.txt'' @ [quote] @ ''...''), OpenOut (text_file @ ''.txt'')] @
     map Write (concat (map test_lines (concat (map preorder (findall et ''Test''))))) @
     map Write (map example_line (findall et ''Example'')) @ [CloseOut, Print (''done.'' @ [newline])], Inr ())"
proof -
  have "io_each node_to_text (findall et ''Test'') =
      (map Write (concat (map (\<lambda>t. concat (map test_lines (preorder t))) (findall et ''Test''))), Inr ())"
    using assms(2) by (intro io_each_writes node_to_text_lines) blast
  moreover have "io_each example_to_text (findall et ''Example'') =
      (map Write (concat (map (\<lambda>e. [example_line e]) (findall et ''Example''))), Inr ())"
    using assms(3)
    by (intro io_each_writes) (simp add: example_to_text_def find_text_field has_fields_def example_line_def)
  ultimately show ?thesis
    using assms(1) by (simp add: translate_to_text_def tell_def Let_def concat_map_concat o_def)
qed

text \<open>In the HTML report a test case that did not fail is one row, and a failed one as many rows as it has
  failure details, none if it has none; the rows of a failed test case are never closed.\<close>

theorem case_to_html_rows:
  assumes "readable t"
  shows "writes_of ''<tr>'' (case_to_html t) =
      (if field t ''Result'' = Some ''FAIL'' then length (findall t ''FailureDetails'') else 1) \<and>
    writes_of ''</tr>'' (case_to_html t) = (if field t ''Result'' = Some ''FAIL'' then 0 else 1)"
proof -
  have t: "read_test t = Inr (field t ''Result'', field t ''Name'', field t ''Reason'', time_of t)"
    using assms by (simp add: readable_def read_test_fields)
  obtain tr where "detail_rows (field t ''Result'') (field t ''Name'') (time_of t) True (findall t ''FailureDetails'') = (tr, Inr ())"
    "writes_of ''<tr>'' (tr, Inr ()) = length (findall t ''FailureDetails'')" "writes_of ''</tr>'' (tr, Inr ()) = 0"
    using detail_rows_rows [of "findall t ''FailureDetails''"] assms unfolding readable_def by blast
  with t show ?thesis
    by (auto simp: case_to_html_def writes_of_def styled_def td_def newline_def)
qed

section \<open>Concrete instances\<close>

definition leaf :: "string \<Rightarrow> string \<Rightarrow> xml" where
  "leaf t v = Elem t [] (Some v) []"

definition sample_results :: xml where
  "sample_results = Elem ''Results'' [] None
     [Elem ''Test'' [] None
        [leaf ''Name'' ''s'', leaf ''Result'' ''FAIL'', Elem ''Test'' [] None [leaf ''Name'' ''c'', leaf ''Result'' ''FAIL'']]]"

theorem translate_to_text_correct_witness:
  "\<exists>out. translate_to_text (\<lambda>_. Inr sample_results) ''r'' ''t'' = (out, Inr ())"
  by (rule exI, rule translate_to_text_correct) code_simp+

theorem case_to_html_rows_witness:
  "writes_of ''<tr>'' (case_to_html (Elem ''Test'' [] None [leaf ''Name'' ''c'', leaf ''Result'' ''FAIL''])) = 0"
  using case_to_html_rows [of "Elem ''Test'' [] None [leaf ''Name'' ''c'', leaf ''Result'' ''FAIL'']"] by code_simp

end
