(* ===== verification/TestDispatch.thy ===== *)
theory TestDispatch
  imports TestJobs TestReport "HOL-Library.List_Lexorder" "HOL-Library.Char_ord"
begin

text \<open>
  The first half of \<^verbatim>\<open>run_tests\<close> in test.py: build, find the examples, answer \<^verbatim>\<open>--kinds\<close> and \<^verbatim>\<open>--list\<close>, choose the
  test suites, and make the jobs that are queued. The test runner is asked through the \<open>popen\<close> parameter, the
  conditions of the examples are evaluated by a parameter, the directory of the results is an argument.
  Messages about the progress are left out.
\<close>

section \<open>Building and asking the test runner\<close>

definition core_kinds :: "string list" where
  "core_kinds = [''bvt'', ''core'', ''performance'', ''system'', ''unit'']"

definition core_valgrind_skip_tests :: "string list" where
  "core_valgrind_skip_tests =
     [''ns3-tcp-cwnd'', ''nsc-tcp-loss'', ''ns3-tcp-interoperability'', ''routing-click'', ''lte-rr-ff-mac-scheduler'',
      ''lte-tdmt-ff-mac-scheduler'', ''lte-fdmt-ff-mac-scheduler'', ''lte-pf-ff-mac-scheduler'',
      ''lte-tta-ff-mac-scheduler'', ''lte-fdbet-ff-mac-scheduler'', ''lte-ttbet-ff-mac-scheduler'',
      ''lte-fdtbfq-ff-mac-scheduler'', ''lte-tdtbfq-ff-mac-scheduler'', ''lte-pss-ff-mac-scheduler'']"

definition core_nsc_missing_skip_tests :: "string list" where
  "core_nsc_missing_skip_tests = [''ns3-tcp-cwnd'', ''nsc-tcp-loss'', ''ns3-tcp-interoperability'']"

definition waf_cmd :: "options \<Rightarrow> string" where
  "waf_cmd opts =
     (if opt_kinds opts \<or> opt_list opts \<or> (opt_constrain opts \<noteq> [] \<and> opt_constrain opts \<in> set core_kinds)
      then ''./waf --target=test-runner''
      else if opt_example opts \<noteq> [] then ''./waf --target='' @ basename (opt_example opts)
      else ''./waf'')"

definition runner_command :: "waf_config \<Rightarrow> string \<Rightarrow> string" where
  "runner_command cfg arguments = path_join ''utils'' (program_name cfg ''test-runner'' @ arguments)"

definition run_runner :: "waf_config \<Rightarrow> popen \<Rightarrow> string \<Rightarrow> string \<Rightarrow> process_result res" where
  "run_runner cfg popen getcwd arguments =
     run_job_synchronously cfg popen (runner_command cfg arguments) getcwd False False []"

text \<open>Output that is still bytes is decoded again, which raises \<^verbatim>\<open>UnicodeDecodeError\<close>, a \<^verbatim>\<open>ValueError\<close>.\<close>

definition ask_runner :: "waf_config \<Rightarrow> popen \<Rightarrow> string \<Rightarrow> string \<Rightarrow> string res" where
  "ask_runner cfg popen getcwd arguments =
     rbind (run_runner cfg popen getcwd arguments) (\<lambda>(rc, out, err, et).
     case out of None \<Rightarrow> Inl ValueError | Some s \<Rightarrow> Inr s)"

definition runnable_programs :: "string list \<Rightarrow> (string, string) dict" where
  "runnable_programs programs = fold (\<lambda>program. dict_set (basename program) program) programs []"

text \<open>\<^verbatim>\<open>--kinds\<close> decodes a string that is already decoded.\<close>

definition print_kinds :: "waf_config \<Rightarrow> popen \<Rightarrow> string \<Rightarrow> unit res" where
  "print_kinds cfg popen getcwd =
     rbind (run_runner cfg popen getcwd '' --print-test-type-list'') (\<lambda>(rc, out, err, et).
     case out of None \<Rightarrow> Inl ValueError | Some s \<Rightarrow> Inl AttributeError)"

definition list_tests :: "options \<Rightarrow> waf_config \<Rightarrow> popen \<Rightarrow> string \<Rightarrow> string list \<Rightarrow> string list res" where
  "list_tests opts cfg popen getcwd example_names =
     rbind (run_runner cfg popen getcwd
              ('' --print-test-name-list --print-test-types'' @
               (if opt_constrain opts \<noteq> [] then '' --test-type='' @ opt_constrain opts else []))) (\<lambda>(rc, out, err, et).
     if rc \<noteq> 0
     then Inr [''test.py error:  test-runner return code returned '' @ str_of_int rc,
               ''To debug, try running '' @ [CHR 0x27] @ ''./waf --run '' @ [quote] @ ''test-runner --print-test-name-list'' @
                 [quote] @ [CHR 0x27] @ [newline]]
     else case out of
       None \<Rightarrow> Inl ValueError
     | Some s \<Rightarrow>
         Inr ([''Test Type    Test Name'', ''---------    ---------''] @
              filter (\<lambda>item. strip item \<noteq> []) (sort (split_on newline s)) @
              map (\<lambda>item. ''example      '' @ item) (sort example_names) @ [[]]))"

section \<open>Test suites\<close>

definition name_list :: string where
  "name_list = '' --print-test-name-list''"

text \<open>The list of the suites and whether one suite was asked for.\<close>

definition choose_suites :: "options \<Rightarrow> waf_config \<Rightarrow> popen \<Rightarrow> string \<Rightarrow> (string list \<times> bool) res" where
  "choose_suites opts cfg popen getcwd =
     (if opt_suite opts \<noteq> []
      then rbind (ask_runner cfg popen getcwd name_list) (\<lambda>suites.
           if opt_suite opts \<in> set (split_on newline suites)
           then Inr (split_on newline (opt_suite opts @ [newline]), True)
           else Inl (SystemExit 2))
      else if opt_example opts = [] \<and> opt_pyexample opts = []
      then rbind (ask_runner cfg popen getcwd
                    (name_list @ (if opt_constrain opts \<noteq> [] then '' --test-type='' @ opt_constrain opts else []))) (\<lambda>suites.
           Inr (split_on newline suites, False))
      else Inr (split_on newline [], False))"

text \<open>\<^verbatim>\<open>remove\<close> deletes the first occurrence.\<close>

definition without_performance :: "string list \<Rightarrow> string list \<Rightarrow> string list" where
  "without_performance performance_tests suite_list =
     fold (\<lambda>t suites. if t \<in> set suites then remove1 t suites else suites) performance_tests suite_list"

definition suite_list :: "options \<Rightarrow> waf_config \<Rightarrow> popen \<Rightarrow> string \<Rightarrow> string list res" where
  "suite_list opts cfg popen getcwd =
     rbind (choose_suites opts cfg popen getcwd) (\<lambda>(suites, single_suite).
     if \<not> single_suite \<and> opt_constrain opts \<noteq> ''performance''
     then rbind (ask_runner cfg popen getcwd (name_list @ '' --test-type=performance'')) (\<lambda>performance_tests.
          Inr (without_performance (split_on newline performance_tests) suites))
     else Inr suites)"

definition suite_job :: "options \<Rightarrow> waf_config \<Rightarrow> string \<Rightarrow> string \<Rightarrow> string \<Rightarrow> job" where
  "suite_job opts cfg getcwd output_dir test =
     (let multiple = (if opt_multiple opts then [] else '' --stop-on-failure'');
          fullness = (if opt_fullness opts \<noteq> [] then '' --fullness='' @ str_upper (opt_fullness opts) else '' --fullness=QUICK'');
          job = new_job\<lparr>is_example := False, is_pyexample := False, display_name := test,
            tmp_file_name := path_join output_dir (test @ ''.xml''), cwd := getcwd, basedir := getcwd, tempdir := output_dir,
            shell_command := runner_command cfg ('' --test-name='' @ test @ multiple @ fullness)\<rparr>;
          job = (if opt_valgrind opts \<and> test \<in> set core_valgrind_skip_tests
                 then job\<lparr>is_skip := True, skip_reason := ''crashes valgrind''\<rparr> else job);
          job = (if \<not> cfg_nsc_enabled cfg \<and> test \<in> set core_nsc_missing_skip_tests
                 then job\<lparr>is_skip := True, skip_reason := ''requires NSC''\<rparr> else job)
      in job)"

definition queue_suites :: "options \<Rightarrow> waf_config \<Rightarrow> string \<Rightarrow> string \<Rightarrow> string list \<Rightarrow> job list" where
  "queue_suites opts cfg getcwd output_dir suites =
     map (suite_job opts cfg getcwd output_dir) (filter (\<lambda>t. t \<noteq> []) (map strip suites))"

section \<open>Examples\<close>

text \<open>The name of the program in a command: without arguments and directories.\<close>

definition command_name :: "string \<Rightarrow> string" where
  "command_name test = basename (hd (split_once (CHR '' '') test))"

definition everything_wanted :: "options \<Rightarrow> string \<Rightarrow> bool" where
  "everything_wanted opts kind \<longleftrightarrow>
     opt_suite opts = [] \<and> opt_example opts = [] \<and> opt_pyexample opts = [] \<and>
     (opt_constrain opts = [] \<or> opt_constrain opts = kind)"

definition example_job :: "options \<Rightarrow> string \<Rightarrow> string \<Rightarrow> string \<Rightarrow> string \<Rightarrow> job" where
  "example_job opts getcwd output_dir name test =
     new_job\<lparr>is_example := True, is_pyexample := False, display_name := name, tmp_file_name := [], cwd := output_dir,
       basedir := getcwd, tempdir := output_dir, shell_command := test, build_path := opt_buildpath opts\<rparr>"

definition queue_example ::
    "(string \<Rightarrow> bool res) \<Rightarrow> options \<Rightarrow> string \<Rightarrow> string \<Rightarrow> (string, string) dict \<Rightarrow>
     string \<times> string \<times> string \<times> string \<Rightarrow> job list \<Rightarrow> job list res"
where
  "queue_example ev opts getcwd output_dir programs ex jobs =
     (case ex of (name, test, do_run, do_valgrind_run) \<Rightarrow>
      if has_key programs (command_name test)
      then rbind (ev do_run) (\<lambda>run.
           if run
           then let job = example_job opts getcwd output_dir name test in
                if opt_valgrind opts
                then rbind (ev do_valgrind_run) (\<lambda>valgrind.
                     Inr (jobs @ [if valgrind then job else job\<lparr>is_skip := True, skip_reason := ''skip in valgrind runs''\<rparr>]))
                else Inr (jobs @ [job])
           else Inr jobs)
      else Inr jobs)"

definition queue_examples ::
    "(string \<Rightarrow> bool res) \<Rightarrow> options \<Rightarrow> waf_config \<Rightarrow> string \<Rightarrow> string \<Rightarrow> (string, string) dict \<Rightarrow>
     (string \<times> string \<times> string \<times> string) list \<Rightarrow> job list res"
where
  "queue_examples ev opts cfg getcwd output_dir programs examples =
     (if opt_suite opts = [] \<and> opt_example opts = [] \<and> opt_pyexample opts = []
      then if everything_wanted opts ''example'' \<and> cfg_enable_examples cfg
           then rfold (queue_example ev opts getcwd output_dir programs) examples []
           else Inr []
      else if opt_example opts \<noteq> []
      then (case map_of programs (program_name cfg (opt_example opts)) of
              None \<Rightarrow> Inr []
            | Some program \<Rightarrow>
                let example_path = abspath getcwd program in
                Inr [example_job opts getcwd output_dir example_path example_path])
      else Inr [])"

definition pyexample_job :: "string \<Rightarrow> string \<Rightarrow> string \<Rightarrow> job" where
  "pyexample_job getcwd output_dir test =
     new_job\<lparr>is_pyexample := True, display_name := test, tmp_file_name := [], cwd := output_dir, basedir := getcwd,
       tempdir := output_dir, shell_command := test, build_path := []\<rparr>"

definition queue_pyexample ::
    "(string \<Rightarrow> bool res) \<Rightarrow> options \<Rightarrow> waf_config \<Rightarrow> string \<Rightarrow> string \<Rightarrow> string list \<Rightarrow>
     string \<times> string \<Rightarrow> job list \<Rightarrow> job list res"
where
  "queue_pyexample ev opts cfg getcwd output_dir scripts ex jobs =
     (case ex of (test, do_run) \<Rightarrow>
      if command_name test \<in> set scripts
      then rbind (ev do_run) (\<lambda>run.
           if run
           then let job = pyexample_job getcwd output_dir test;
                    job = (if opt_valgrind opts then job\<lparr>is_skip := True, skip_reason := ''skip in valgrind runs''\<rparr> else job);
                    job = (if \<not> cfg_enable_python_bindings cfg
                           then job\<lparr>is_skip := True, skip_reason := ''requires Python bindings''\<rparr> else job)
                in Inr (jobs @ [job])
           else Inr jobs)
      else Inr jobs)"

definition queue_pyexamples ::
    "(string \<Rightarrow> bool res) \<Rightarrow> options \<Rightarrow> waf_config \<Rightarrow> string \<Rightarrow> string \<Rightarrow> string list \<Rightarrow> (string \<times> string) list \<Rightarrow> job list res"
where
  "queue_pyexamples ev opts cfg getcwd output_dir scripts examples =
     (if opt_suite opts = [] \<and> opt_example opts = [] \<and> opt_pyexample opts = []
      then if everything_wanted opts ''pyexample'' \<and> cfg_enable_examples cfg
           then rfold (queue_pyexample ev opts cfg getcwd output_dir scripts) examples []
           else Inr []
      else if opt_pyexample opts \<noteq> []
      then Inr (if basename (opt_pyexample opts) \<notin> set scripts then []
                else [pyexample_job getcwd output_dir (opt_pyexample opts)])
      else Inr [])"

definition dispatch_jobs ::
    "(string \<Rightarrow> bool res) \<Rightarrow> options \<Rightarrow> waf_config \<Rightarrow> popen \<Rightarrow> string \<Rightarrow> string \<Rightarrow> string list \<Rightarrow> string list \<Rightarrow>
     example_lists \<Rightarrow> job list res"
where
  "dispatch_jobs ev opts cfg popen getcwd output_dir programs scripts examples =
     rbind (suite_list opts cfg popen getcwd) (\<lambda>suites.
     rbind (queue_examples ev opts cfg getcwd output_dir (runnable_programs programs) (example_tests examples)) (\<lambda>cpp.
     rbind (queue_pyexamples ev opts cfg getcwd output_dir scripts (python_tests examples)) (\<lambda>py.
     Inr (queue_suites opts cfg getcwd output_dir suites @ cpp @ py))))"

section \<open>The first half of run_tests\<close>

text \<open>Either \<^verbatim>\<open>run_tests\<close> returns early, or jobs are queued.\<close>

datatype prepared = Return "int option" | Queue "job list"

definition prepare_jobs ::
    "(string \<Rightarrow> string list res) \<Rightarrow> (string \<Rightarrow> cpp_example list res) \<Rightarrow> (string \<Rightarrow> py_example list res) \<Rightarrow> (string \<Rightarrow> bool res) \<Rightarrow>
     options \<Rightarrow> waf_config \<Rightarrow> popen \<Rightarrow> string \<Rightarrow> file_store \<Rightarrow> (string \<Rightarrow> bool) \<Rightarrow> (string \<times> string \<times> string) list \<Rightarrow> string \<Rightarrow>
     prepared res"
where
  "prepare_jobs ev_list ev_cpp ev_py ev opts cfg popen getcwd fs exists locations output_dir =
     rbind (if opt_nowaf opts then Inr 0
            else rbind (popen (waf_cmd opts) getcwd) (\<lambda>(rc, out, err, et). Inr rc)) (\<lambda>build.
     if build \<noteq> 0 then Inr (Return (Some build))
     else
       let build_status_file = path_join (cfg_builddir cfg) ''build-status.py'' in
       if fs build_status_file = None then Inl (SystemExit 2)
       else
         rbind (get_list_from_file ev_list fs build_status_file ''ns3_runnable_programs'') (\<lambda>programs.
         rbind (get_list_from_file ev_list fs build_status_file ''ns3_runnable_scripts'') (\<lambda>scripts.
         rbind (collect_examples ev_cpp ev_py cfg getcwd exists fs locations) (\<lambda>examples.
         rbind (if opt_kinds opts then print_kinds cfg popen getcwd else Inr ()) (\<lambda>_.
         rbind (if opt_list opts then list_tests opts cfg popen getcwd (example_names_original examples) else Inr []) (\<lambda>_.
         if opt_kinds opts \<or> opt_list opts then Inr (Return None)
         else rbind (dispatch_jobs ev opts cfg popen getcwd output_dir programs scripts examples) (\<lambda>jobs.
              Inr (Queue jobs))))))))"

section \<open>The jobs that are queued\<close>

text \<open>A job that no worker has touched, with the kind it was made for.\<close>

definition fresh_job :: "job \<Rightarrow> bool" where
  "fresh_job j \<longleftrightarrow> \<not> is_break j \<and> returncode j = 0 \<and> elapsed_time j = 0 \<and> \<not> (is_example j \<and> is_pyexample j) \<and> (skip_reason j \<noteq> [] \<longleftrightarrow> is_skip j)"

definition example_kind :: "job \<Rightarrow> bool" where
  "example_kind j \<longleftrightarrow> is_example j \<or> is_pyexample j"

lemma suite_job_fresh: "fresh_job (suite_job opts cfg d o' t) \<and> \<not> example_kind (suite_job opts cfg d o' t) \<and>
  display_name (suite_job opts cfg d o' t) = t"
  by (simp add: suite_job_def fresh_job_def example_kind_def new_job_def Let_def)

lemma example_job_fresh: "fresh_job (example_job opts d o' n t) \<and> example_kind (example_job opts d o' n t)"
  by (simp add: example_job_def fresh_job_def example_kind_def new_job_def)

lemma pyexample_job_fresh: "fresh_job (pyexample_job d o' t) \<and> example_kind (pyexample_job d o' t)"
  by (simp add: pyexample_job_def fresh_job_def example_kind_def new_job_def)

lemma skip_fresh: "fresh_job j \<Longrightarrow> r \<noteq> [] \<Longrightarrow> fresh_job (j\<lparr>is_skip := True, skip_reason := r\<rparr>)"
  by (simp add: fresh_job_def)

lemma skip_kind [simp]: "example_kind (j\<lparr>is_skip := b, skip_reason := r\<rparr>) = example_kind j"
  by (simp add: example_kind_def)

lemma rfold_all:
  assumes "rfold f xs s = Inr s'" "\<And>x s s'. f x s = Inr s' \<Longrightarrow> P s \<Longrightarrow> P s'" "P s"
  shows "P s'"
  using assms(1,3)
proof (induction xs arbitrary: s)
  case (Cons x xs)
  then show ?case using assms(2) by (auto simp: rbind_eq_Inr_iff)
qed simp

lemma queue_example_fresh:
  "queue_example ev opts d o' programs ex jobs = Inr jobs' \<Longrightarrow> \<forall>j\<in>set jobs. fresh_job j \<and> example_kind j \<Longrightarrow>
     \<forall>j\<in>set jobs'. fresh_job j \<and> example_kind j"
  by (cases ex) (auto simp: queue_example_def rbind_eq_Inr_iff Let_def example_job_fresh skip_fresh split: if_splits)

lemma queue_pyexample_fresh:
  "queue_pyexample ev opts cfg d o' scripts ex jobs = Inr jobs' \<Longrightarrow> \<forall>j\<in>set jobs. fresh_job j \<and> example_kind j \<Longrightarrow>
     \<forall>j\<in>set jobs'. fresh_job j \<and> example_kind j"
  by (cases ex) (auto simp: queue_pyexample_def rbind_eq_Inr_iff Let_def pyexample_job_fresh skip_fresh split: if_splits)

lemma queue_examples_fresh:
  assumes "queue_examples ev opts cfg d o' programs exs = Inr jobs"
  shows "\<forall>j\<in>set jobs. fresh_job j \<and> example_kind j"
proof -
  have r: "\<forall>j\<in>set jobs. fresh_job j \<and> example_kind j" if "rfold (queue_example ev opts d o' programs) exs [] = Inr jobs"
    by (rule rfold_all [where P = "\<lambda>js. \<forall>j\<in>set js. fresh_job j \<and> example_kind j", OF that])
       (erule (1) queue_example_fresh, simp)
  show ?thesis
    using assms unfolding queue_examples_def Let_def
    by (simp add: r split: if_splits option.splits) (auto simp: example_job_fresh)
qed

lemma queue_pyexamples_fresh:
  assumes "queue_pyexamples ev opts cfg d o' scripts exs = Inr jobs"
  shows "\<forall>j\<in>set jobs. fresh_job j \<and> example_kind j"
proof -
  have r: "\<forall>j\<in>set jobs. fresh_job j \<and> example_kind j" if "rfold (queue_pyexample ev opts cfg d o' scripts) exs [] = Inr jobs"
    by (rule rfold_all [where P = "\<lambda>js. \<forall>j\<in>set js. fresh_job j \<and> example_kind j", OF that])
       (erule (1) queue_pyexample_fresh, simp)
  show ?thesis
    using assms unfolding queue_pyexamples_def
    by (simp add: r split: if_splits) (auto simp: pyexample_job_fresh)
qed

lemma dispatch_parts:
  assumes "dispatch_jobs ev opts cfg popen d o' programs scripts examples = Inr jobs"
  obtains suites rest where "suite_list opts cfg popen d = Inr suites" "jobs = queue_suites opts cfg d o' suites @ rest"
    "\<forall>j\<in>set rest. fresh_job j \<and> example_kind j"
  using assms queue_examples_fresh queue_pyexamples_fresh
  unfolding dispatch_jobs_def rbind_eq_Inr_iff by (metis (no_types, lifting) Inr_inject Un_iff set_append)

lemma dispatch_fresh:
  "dispatch_jobs ev opts cfg popen d o' programs scripts examples = Inr jobs \<Longrightarrow> \<forall>j\<in>set jobs. fresh_job j"
  by (erule dispatch_parts) (auto simp: queue_suites_def suite_job_fresh)

lemma prepare_fresh:
  "prepare_jobs ev_list ev_cpp ev_py ev opts cfg popen d fs exists locations o' = Inr (Queue jobs) \<Longrightarrow> \<forall>j\<in>set jobs. fresh_job j"
  unfolding prepare_jobs_def Let_def
  by (auto simp: rbind_eq_Inr_iff split: if_splits dest: dispatch_fresh)

section \<open>Performance tests\<close>


section \<open>Properties\<close>


text \<open>With both \<^verbatim>\<open>--suite\<close> and \<^verbatim>\<open>--example\<close> both the suite and the example are run; a suite that the test runner does
  not list ends the program with status 2 and nothing is queued.\<close>

theorem suite_and_example:
  assumes "opt_suite opts \<noteq> []" "strip (opt_suite opts) = opt_suite opts" "newline \<notin> set (opt_suite opts)"
    and "opt_example opts \<noteq> []" "map_of (runnable_programs programs) (program_name cfg (opt_example opts)) = Some program"
    and "opt_pyexample opts = []" "ask_runner cfg popen d name_list = Inr all"
  shows "dispatch_jobs ev opts cfg popen d o' programs scripts examples =
    (if opt_suite opts \<in> set (split_on newline all)
     then Inr [suite_job opts cfg d o' (opt_suite opts), example_job opts d o' (abspath d program) (abspath d program)]
     else Inl (SystemExit 2))"
proof -
  have "split_on newline (opt_suite opts @ [newline]) = [opt_suite opts, []]"
    using split_on_append_sep [OF assms(3), of "[]"] by simp
  moreover have "strip [] = []" by code_simp
  ultimately show ?thesis
    using assms
    by (simp add: dispatch_jobs_def suite_list_def choose_suites_def queue_suites_def queue_examples_def queue_pyexamples_def Let_def)
qed

section \<open>Concrete instances\<close>

text \<open>A test runner with two suites, one of them a performance test.\<close>

definition sample_popen :: popen where
  "sample_popen cmd dir =
     Inr (0, Some ((if contains cmd ''performance'' then [] else ''csma'' @ [newline]) @ ''many-uniform'' @ [newline]), Some [], 1)"


theorem suite_and_example_witness:
  "dispatch_jobs (\<lambda>_. Inr True) (default_options\<lparr>opt_suite := ''csma'', opt_example := ''first''\<rparr>) sample_config sample_popen
     ''/ns3'' ''/out'' [''/b/ns3.29-first-debug''] [] \<lparr>example_tests = [], example_names_original = [], python_tests = []\<rparr> =
   Inr [suite_job (default_options\<lparr>opt_suite := ''csma'', opt_example := ''first''\<rparr>) sample_config ''/ns3'' ''/out'' ''csma'',
        example_job (default_options\<lparr>opt_suite := ''csma'', opt_example := ''first''\<rparr>) ''/ns3'' ''/out''
          ''/b/ns3.29-first-debug'' ''/b/ns3.29-first-debug'']"
proof -
  have "abspath ''/ns3'' ''/b/ns3.29-first-debug'' = ''/b/ns3.29-first-debug''" by code_simp
  with suite_and_example [of "default_options\<lparr>opt_suite := ''csma'', opt_example := ''first''\<rparr>" "[''/b/ns3.29-first-debug'']"
    sample_config "''/b/ns3.29-first-debug''" sample_popen "''/ns3''" "''csma'' @ [newline] @ ''many-uniform'' @ [newline]"]
  show ?thesis by code_simp
qed

end
