(* ===== verification/TestSummary.thy ===== *)
theory TestSummary
  imports TestJobs TestReport "HOL-Library.List_Lexorder" "HOL-Library.Char_ord"
begin

text \<open>
  The end of \<^verbatim>\<open>run_tests\<close> in test.py: the main thread classifies the results it gets, appends them to the
  XML file of results, prints the summary, has the reports written and computes the exit status.
\<close>

section \<open>Classification\<close>

definition result_status :: "job \<Rightarrow> string" where
  "result_status job =
     (if is_skip job then ''SKIP''
      else if returncode job = 0 then ''PASS''
      else if returncode job = 1 then ''FAIL''
      else if returncode job = 2 then ''VALGR''
      else ''CRASH'')"

record summary =
  passed_tests :: nat
  skipped_tests :: nat
  skipped_testnames :: "string list"
  failed_tests :: nat
  failed_testnames :: "string list"
  crashed_tests :: nat
  crashed_testnames :: "string list"
  valgrind_errors :: nat
  valgrind_testnames :: "string list"

definition no_results :: summary where
  "no_results = \<lparr>passed_tests = 0, skipped_tests = 0, skipped_testnames = [], failed_tests = 0, failed_testnames = [],
     crashed_tests = 0, crashed_testnames = [], valgrind_errors = 0, valgrind_testnames = []\<rparr>"

definition count_job :: "job \<Rightarrow> summary \<Rightarrow> summary" where
  "count_job job st =
     (if is_skip job
      then st\<lparr>skipped_tests := skipped_tests st + 1,
              skipped_testnames := skipped_testnames st @ [display_name job @ '' ('' @ skip_reason job @ '')'']\<rparr>
      else if returncode job = 0 then st\<lparr>passed_tests := passed_tests st + 1\<rparr>
      else if returncode job = 1
      then st\<lparr>failed_tests := failed_tests st + 1, failed_testnames := failed_testnames st @ [display_name job]\<rparr>
      else if returncode job = 2
      then st\<lparr>valgrind_errors := valgrind_errors st + 1, valgrind_testnames := valgrind_testnames st @ [display_name job]\<rparr>
      else st\<lparr>crashed_tests := crashed_tests st + 1, crashed_testnames := crashed_testnames st @ [display_name job]\<rparr>)"

section \<open>Results\<close>

text \<open>\<^verbatim>\<open>"%.3f" % x\<close>: the exact value rounded to three decimals, halves to the even digit.\<close>

definition round_half_even :: "rat \<Rightarrow> int" where
  "round_half_even x =
     (let f = \<lfloor>x\<rfloor>; d = x - of_int f in
      if d < 1 / 2 then f else if 1 / 2 < d then f + 1 else if even f then f else f + 1)"

definition fixed3 :: "rat \<Rightarrow> string" where
  "fixed3 x =
     (let n = nat (round_half_even (\<bar>x\<bar> * 1000)); frac = str_of_nat 10 (n mod 1000) in
      (if x < 0 then ''-'' else []) @ str_of_nat 10 (n div 1000) @ ''.'' @
      replicate (3 - length frac) (CHR ''0'') @ frac)"

text \<open>A line printed, a text appended to the file of results, or an event of a report.\<close>

datatype out_event = PrintLine string | AppendResults string | Report report_event | CopyResults string | RemoveTree

definition job_kind :: "job \<Rightarrow> string" where
  "job_kind job = (if is_example job \<or> is_pyexample job then ''Example'' else ''TestSuite'')"

definition result_line :: "options \<Rightarrow> job \<Rightarrow> string" where
  "result_line opts job =
     (if opt_duration opts \<or> opt_constrain opts = ''performance''
      then result_status job @ '' ('' @ fixed3 (elapsed_time job) @ ''): '' @ job_kind job @ '' '' @ display_name job
      else result_status job @ '': '' @ job_kind job @ '' '' @ display_name job)"

definition line_of :: "string \<Rightarrow> out_event" where
  "line_of s = AppendResults (s @ [newline])"

definition example_xml :: "job \<Rightarrow> out_event list" where
  "example_xml job =
     map line_of
       [''<Example>'',
        ''  <Name>'' @ display_name job @ ''</Name>'',
        ''  <Result>'' @ (if result_status job \<in> {''PASS'', ''FAIL'', ''VALGR'', ''SKIP''} then result_status job else ''CRASH'') @ ''</Result>'',
        ''  <Time real='' @ [quote] @ fixed3 (elapsed_time job) @ [quote] @ ''/>'',
        ''</Example>'']"

text \<open>A suite that ran to completion wrote its results to its temporary file.\<close>

definition suite_xml :: "(string \<rightharpoonup> string) \<Rightarrow> job \<Rightarrow> (out_event, unit) io" where
  "suite_xml files job =
     (if is_skip job
      then tell_all (map line_of
             [''<Test>'', ''  <Name>'' @ display_name job @ ''</Name>'', ''  <Result>SKIP</Result>'',
              ''  <Reason>'' @ skip_reason job @ ''</Reason>'', ''</Test>''])
      else if returncode job = 0 \<or> returncode job = 1 \<or> returncode job = 2
      then (case files (tmp_file_name job) of
              None \<Rightarrow> io_raise IOError
            | Some contents \<Rightarrow> tell (AppendResults contents))
      else tell_all (map line_of
             [''<Test>'', ''  <Name>'' @ display_name job @ ''</Name>'', ''  <Result>CRASH</Result>'', ''</Test>'']))"

definition handle_result :: "options \<Rightarrow> (string \<rightharpoonup> string) \<Rightarrow> job \<Rightarrow> summary \<Rightarrow> (out_event, summary) io" where
  "handle_result opts files job st =
     (if is_break job then io_return st
      else io_bind (tell (PrintLine (result_line opts job))) (\<lambda>_.
           io_bind (if is_example job \<or> is_pyexample job then tell_all (example_xml job) else suite_xml files job) (\<lambda>_.
           io_return (count_job job st))))"

primrec handle_results :: "options \<Rightarrow> (string \<rightharpoonup> string) \<Rightarrow> job list \<Rightarrow> summary \<Rightarrow> (out_event, summary) io" where
  "handle_results opts files [] st = io_return st"
| "handle_results opts files (job # jobs) st =
     io_bind (handle_result opts files job st) (handle_results opts files jobs)"

section \<open>The end of run_tests\<close>

definition summary_line :: "nat \<Rightarrow> summary \<Rightarrow> string" where
  "summary_line total_tests st =
     (let d = str_of_nat 10 in
      d (passed_tests st) @ '' of '' @ d total_tests @ '' tests passed ('' @ d (passed_tests st) @ '' passed, '' @
      d (skipped_tests st) @ '' skipped, '' @ d (failed_tests st) @ '' failed, '' @ d (crashed_tests st) @
      '' crashed, '' @ d (valgrind_errors st) @ '' valgrind errors)'')"

definition names_line :: "string \<Rightarrow> string list \<Rightarrow> out_event list" where
  "names_line what names =
     (if names = [] then []
      else [PrintLine (''List of '' @ what @ '':'' @ [newline] @ ''    '' @ join ([newline] @ ''    '') (sort names))])"

definition print_summary :: "nat \<Rightarrow> summary \<Rightarrow> out_event list" where
  "print_summary total_tests st =
     [PrintLine (summary_line total_tests st)] @
     names_line ''SKIPped tests'' (skipped_testnames st) @ names_line ''FAILed tests'' (failed_testnames st) @
     names_line ''CRASHed tests'' (crashed_testnames st) @ names_line ''VALGR failures'' (valgrind_testnames st)"

definition as_report :: "(report_event, 'a) io \<Rightarrow> (out_event, 'a) io" where
  "as_report io = (map Report (fst io), snd io)"

definition write_reports :: "(string \<Rightarrow> xml res) \<Rightarrow> options \<Rightarrow> string \<Rightarrow> (out_event, unit) io" where
  "write_reports parse opts xml_results_file =
     io_bind (if length (opt_html opts) + length (opt_text opts) + length (opt_xml opts) \<noteq> 0 then tell (PrintLine []) else io_return ()) (\<lambda>_.
     io_bind (if opt_html opts \<noteq> [] then as_report (translate_to_html parse xml_results_file (opt_html opts)) else io_return ()) (\<lambda>_.
     io_bind (if opt_text opts \<noteq> [] then as_report (translate_to_text parse xml_results_file (opt_text opts)) else io_return ()) (\<lambda>_.
     if opt_xml opts \<noteq> []
     then let xml_file = opt_xml opts @ ''.xml'' in
          tell_all [Report (Print (''Writing results to xml file '' @ xml_file @ ''...'')), CopyResults xml_file, PrintLine ''done.'']
     else io_return ())))"

definition closing_notes :: "options \<Rightarrow> waf_config \<Rightarrow> string list" where
  "closing_notes opts cfg =
     (if \<not> cfg_enable_tests cfg \<or> \<not> cfg_enable_examples cfg
      then [[]] @
        (if \<not> cfg_enable_tests cfg
         then [''***  Note: ns-3 tests are currently disabled. Enable them by adding'',
               ''***  '' @ [quote] @ ''--enable-tests'' @ [quote] @ '' to ./waf configure or modifying your .ns3rc file.'', []]
         else []) @
        (if \<not> cfg_enable_examples cfg
         then [''***  Note: ns-3 examples are currently disabled. Enable them by adding'',
               ''***  '' @ [quote] @ ''--enable-examples'' @ [quote] @ '' to ./waf configure or modifying your .ns3rc file.'', []]
         else [])
      else []) @
     (if opt_valgrind opts \<and> \<not> cfg_valgrind_found cfg
      then [[], ''***  Note: you are trying to use valgrind, but valgrind could not be found'',
            ''***  on your machine.  All tests and examples will crash or be skipped.'', []]
      else [])"

definition exit_status :: "nat \<Rightarrow> summary \<Rightarrow> int" where
  "exit_status total_tests st = (if passed_tests st + skipped_tests st = total_tests then 0 else 1)"

definition finish_tests ::
    "(string \<Rightarrow> xml res) \<Rightarrow> options \<Rightarrow> waf_config \<Rightarrow> (string \<rightharpoonup> string) \<Rightarrow> string \<Rightarrow> nat \<Rightarrow> job list \<Rightarrow> (out_event, int) io"
where
  "finish_tests parse opts cfg files xml_results_file total_tests results =
     io_bind (handle_results opts files results no_results) (\<lambda>st.
     io_bind (tell (line_of ''</Results>'')) (\<lambda>_.
     io_bind (tell_all (print_summary total_tests st)) (\<lambda>_.
     io_bind (write_reports parse opts xml_results_file) (\<lambda>_.
     io_bind (tell_all (map PrintLine (closing_notes opts cfg))) (\<lambda>_.
     io_bind (if \<not> opt_retain opts then tell RemoveTree else io_return ()) (\<lambda>_.
     io_return (exit_status total_tests st)))))))"

section \<open>Counting\<close>

text \<open>The jobs that are counted, by status.\<close>

definition with_status :: "string \<Rightarrow> job list \<Rightarrow> job list" where
  "with_status status js = filter (\<lambda>j. \<not> is_break j \<and> result_status j = status) js"

lemma count_jobs:
  "fold count_job (filter (\<lambda>j. \<not> is_break j) js) st =
     st\<lparr>passed_tests := passed_tests st + length (with_status ''PASS'' js),
        skipped_tests := skipped_tests st + length (with_status ''SKIP'' js),
        skipped_testnames := skipped_testnames st @
          map (\<lambda>j. display_name j @ '' ('' @ skip_reason j @ '')'') (with_status ''SKIP'' js),
        failed_tests := failed_tests st + length (with_status ''FAIL'' js),
        failed_testnames := failed_testnames st @ map display_name (with_status ''FAIL'' js),
        crashed_tests := crashed_tests st + length (with_status ''CRASH'' js),
        crashed_testnames := crashed_testnames st @ map display_name (with_status ''CRASH'' js),
        valgrind_errors := valgrind_errors st + length (with_status ''VALGR'' js),
        valgrind_testnames := valgrind_testnames st @ map display_name (with_status ''VALGR'' js)\<rparr>"
proof (induction js arbitrary: st)
  case (Cons j js)
  consider "is_break j" | "\<not> is_break j" "is_skip j" | "\<not> is_break j" "\<not> is_skip j" "returncode j = 0"
    | "\<not> is_break j" "\<not> is_skip j" "returncode j = 1" | "\<not> is_break j" "\<not> is_skip j" "returncode j = 2"
    | "\<not> is_break j" "\<not> is_skip j" "returncode j \<noteq> 0" "returncode j \<noteq> 1" "returncode j \<noteq> 2"
    by blast
  then show ?case using Cons by cases (simp_all add: with_status_def result_status_def count_job_def)
qed (simp add: with_status_def)

text \<open>A suite that is reported as completed has left its file of results.\<close>

definition file_ready :: "(string \<rightharpoonup> string) \<Rightarrow> job \<Rightarrow> bool" where
  "file_ready files j \<longleftrightarrow>
     is_break j \<or> is_example j \<or> is_pyexample j \<or> is_skip j \<or> returncode j \<notin> {0, 1, 2} \<or> files (tmp_file_name j) \<noteq> None"

lemma handle_result_ready:
  "file_ready files j \<Longrightarrow> snd (handle_result opts files j st) = Inr (if is_break j then st else count_job j st)"
  by (auto simp: handle_result_def file_ready_def suite_xml_def tell_def io_return_def)

lemma handle_result_missing: "\<not> file_ready files j \<Longrightarrow> snd (handle_result opts files j st) = Inl IOError"
  by (auto simp: handle_result_def file_ready_def suite_xml_def io_raise_def)

lemma snd_io_bind: "snd (io_bind m f) = (case snd m of Inl e \<Rightarrow> Inl e | Inr x \<Rightarrow> snd (f x))"
  by (cases m) (auto split: sum.splits)

lemma handle_results_outcome:
  "snd (handle_results opts files js st) =
     (if \<forall>j\<in>set js. file_ready files j then Inr (fold count_job (filter (\<lambda>j. \<not> is_break j) js) st) else Inl IOError)"
proof (induction js arbitrary: st)
  case (Cons j js)
  then show ?case
    by (cases "file_ready files j") (simp_all add: snd_io_bind handle_result_ready handle_result_missing)
qed (simp add: io_return_def)


lemma good_results:
  "length (with_status ''PASS'' js) + length (with_status ''SKIP'' js) =
     length (filter (\<lambda>j. \<not> is_break j \<and> (is_skip j \<or> returncode j = 0)) js)"
  by (induction js) (auto simp: with_status_def result_status_def)

lemma length_filter_all: "length (filter P xs) = length xs \<longleftrightarrow> (\<forall>x\<in>set xs. P x)"
  using length_filter_less [of _ xs P] by fastforce

lemma exit_status_results:
  "exit_status (length js) (fold count_job (filter (\<lambda>j. \<not> is_break j) js) no_results) =
     (if \<forall>j\<in>set js. \<not> is_break j \<and> (is_skip j \<or> returncode j = 0) then 0 else 1)"
  using good_results [of js]
    length_filter_all [of "\<lambda>j. \<not> is_break j \<and> (is_skip j \<or> returncode j = 0)" js]
  by (simp add: exit_status_def count_jobs no_results_def del: length_filter_all)

lemma finish_tests_status:
  assumes "\<forall>j\<in>set jobs. \<not> is_break j" "0 < p" and "runs (step opts cfg) evs (initial_state jobs p) s"
    and "stuck opts cfg s" "\<forall>j. Dead j \<notin> set (workers s)"
    and "\<forall>j\<in>set (collected s). file_ready files j" "snd (write_reports parse opts xml_results_file) = Inr ()"
  shows "snd (finish_tests parse opts cfg files xml_results_file (length jobs) (collected s)) =
    Inr (if \<forall>j\<in>set (collected s). \<not> is_break j \<and> (is_skip j \<or> returncode j = 0) then 0 else 1)"
proof -
  have inv: "run_inv jobs p s" by (rule run.runs_inv [OF assms(3) run_inv_initial [OF assms(1)]])
  have "mset (map erase (collected s)) = mset (map erase jobs)"
    using inv stuck_finished [OF inv assms(4,5,2)] unfolding run_inv_def finished_jobs_def by simp
  then have "length (collected s) = length jobs" using mset_eq_length by fastforce
  with assms(6,7) show ?thesis
    by (simp add: finish_tests_def snd_io_bind handle_results_outcome exit_status_results [symmetric] tell_def io_return_def
          split: if_splits)
qed

section \<open>Properties\<close>


section \<open>Concrete instances\<close>


end
